(* ===== verification/Prelude.thy ===== *)
theory Prelude
  imports Main "HOL-Library.Word" "HOL-Library.Sublist"
begin

text \<open>
  Shared vocabulary of the development: the names the model gives to the Go types that occur
  everywhere (identifiers, instants, durations, string maps), the error values of the action
  layer, the row operations that stand for the SQL statements the code issues through its
  query builder, and the generic list lemmas the component theories rest on.

  Instants and durations are nanosecond counts (\<open>time.Time\<close>, \<open>time.Duration\<close>), kept as
  unbounded integers except where the source relies on the 64 bit representation. An
  identifier is the 128 bit value of the sixteen bytes of a \<open>uuid.UUID\<close>, most significant byte
  first. A nullable column or a Go pointer is an \<open>option\<close>. Errors are values of a sum type, the
  left summand being the error.
\<close>

type_synonym time = int
type_synonym duration = int
type_synonym uuid = "128 word"
type_synonym attrs = "string \<rightharpoonup> string"

abbreviation millisecond :: duration where "millisecond \<equiv> 1000000"
abbreviation second :: duration where "second \<equiv> 1000000000"
abbreviation minute :: duration where "minute \<equiv> 60 * second"
abbreviation hour :: duration where "hour \<equiv> 60 * minute"

named_theorems row_simps \<open>rewrite rules for the row operations\<close>
named_theorems wf_intros \<open>preservation of the database invariant\<close>
named_theorems store_simps \<open>what the statements leave unchanged\<close>

subsection \<open>Error values\<close>

text \<open>
  \<open>ErrExists\<close> and \<open>ErrNotFound\<close> are the sentinels of \<open>actions/errors.go\<close>; the \<open>Ent\<close>
  values are what the query builder reports when a row that has to exist does not, or exists
  more than once; the violations are what the database reports for a broken constraint; a
  panic of the Go code is the value \<open>Panic\<close>; \<open>StatusError\<close> is a gRPC status with its code, \<open>PgError\<close> an
  error of PostgreSQL with its code; \<open>During op e e'\<close> is the error \<open>e'\<close> wrapped by the
  report that \<open>op\<close> failed with \<open>e\<close> while it was being handled.
\<close>

datatype err =
    ErrExists
  | ErrNotFound
  | EntNotFound
  | EntNotSingular
  | UniqueViolation
  | ForeignKeyViolation
  | ValidationError string
  | HookError string
  | InvalidFilter string
  | Panic string
  | DriverError string
  | ContextCanceled
  | ContextDeadlineExceeded
  | ErrTxDone
  | StatusError int string
  | PgError string
  | During string err err

type_synonym 'a res = "err + 'a"

fun errors_Is :: "err \<Rightarrow> err \<Rightarrow> bool" where
  "errors_Is (During op e e') target = errors_Is e' target"
| "errors_Is e target = (e = target)"

definition bind_res :: "'e + 'a \<Rightarrow> ('a \<Rightarrow> 'e + 'b) \<Rightarrow> 'e + 'b" where
  "bind_res r f = (case r of Inl e \<Rightarrow> Inl e | Inr x \<Rightarrow> f x)"

lemma bind_res_simps [simp]:
  "bind_res (Inl e) f = Inl e"
  "bind_res (Inr x) f = f x"
  by (simp_all add: bind_res_def)

lemma bind_res_Inr_iff: "bind_res r f = Inr y \<longleftrightarrow> (\<exists>x. r = Inr x \<and> f x = Inr y)"
  by (cases r) auto

lemma bind_res_InrE [elim]:
  assumes "bind_res r f = Inr y"
  obtains x where "r = Inr x" and "f x = Inr y"
  using assms by (auto simp: bind_res_Inr_iff)

subsection \<open>Row operations\<close>

text \<open>
  A table is the list of its rows, in the order in which the database happens to return them.
  \<open>only\<close> is the \<open>Only\<close> of a query: exactly one row has to match. \<open>first_row\<close> is \<open>First\<close>.
\<close>

definition only :: "'r list \<Rightarrow> 'r res" where
  "only rs = (case rs of [] \<Rightarrow> Inl EntNotFound | [r] \<Rightarrow> Inr r | _ \<Rightarrow> Inl EntNotSingular)"

definition first_row :: "'r list \<Rightarrow> 'r option" where
  "first_row rs = (case rs of [] \<Rightarrow> None | r # _ \<Rightarrow> Some r)"

definition update_where :: "('r \<Rightarrow> bool) \<Rightarrow> ('r \<Rightarrow> 'r) \<Rightarrow> 'r list \<Rightarrow> 'r list" where
  "update_where P f rs = map (\<lambda>r. if P r then f r else r) rs"

definition delete_where :: "('r \<Rightarrow> bool) \<Rightarrow> 'r list \<Rightarrow> 'r list" where
  "delete_where P rs = filter (\<lambda>r. \<not> P r) rs"

definition count_where :: "('r \<Rightarrow> bool) \<Rightarrow> 'r list \<Rightarrow> nat" where
  "count_where P rs = length (filter P rs)"

lemma only_simps [simp]:
  "only [] = Inl EntNotFound"
  "only [r] = Inr r"
  "only (r # s # rs) = Inl EntNotSingular"
  by (simp_all add: only_def)

lemma only_Inr_iff: "only rs = Inr r \<longleftrightarrow> rs = [r]"
  by (auto simp: only_def split: list.splits)

lemma only_InrD [dest]: "only rs = Inr r \<Longrightarrow> rs = [r]"
  by (simp add: only_Inr_iff)

lemma only_error: "only rs = Inl e \<Longrightarrow> e = EntNotFound \<or> e = EntNotSingular"
  by (auto simp: only_def split: list.splits)

lemma only_filterD: "only (filter P rs) = Inr r \<Longrightarrow> r \<in> set rs \<and> P r"
proof -
  assume "only (filter P rs) = Inr r"
  then have "filter P rs = [r]" by (rule only_InrD)
  then have "r \<in> set (filter P rs)" by simp
  then show ?thesis by simp
qed

lemma only_NotFound_iff: "only rs = Inl EntNotFound \<longleftrightarrow> rs = []"
  by (auto simp: only_def split: list.splits)

lemma first_row_simps [simp]:
  "first_row [] = None"
  "first_row (r # rs) = Some r"
  by (simp_all add: first_row_def)

lemma first_row_SomeD: "first_row rs = Some r \<Longrightarrow> r \<in> set rs"
  by (auto simp: first_row_def split: list.splits)

lemma first_row_None_iff [simp]: "first_row rs = None \<longleftrightarrow> rs = []"
  by (auto simp: first_row_def split: list.splits)

lemma update_where_simps [simp]:
  "update_where P f [] = []"
  "update_where P f (r # rs) = (if P r then f r else r) # update_where P f rs"
  by (simp_all add: update_where_def)

lemma length_update_where [simp]: "length (update_where P f rs) = length rs"
  by (simp add: update_where_def)

lemma set_update_where: "set (update_where P f rs) = (\<lambda>r. if P r then f r else r) ` set rs"
  by (simp add: update_where_def)

lemma map_update_where:
  assumes "\<And>r. P r \<Longrightarrow> k (f r) = k r"
  shows "map k (update_where P f rs) = map k rs"
  using assms by (induction rs) auto

lemma update_where_none: "(\<And>r. r \<in> set rs \<Longrightarrow> \<not> P r) \<Longrightarrow> update_where P f rs = rs"
  by (induction rs) auto

lemma update_where_cong:
  assumes "\<And>r. r \<in> set rs \<Longrightarrow> P r = Q r" and "\<And>r. r \<in> set rs \<Longrightarrow> P r \<Longrightarrow> f r = g r"
  shows "update_where P f rs = update_where Q g rs"
  using assms by (induction rs) auto

lemma filter_update_where:
  assumes "\<And>r. P r \<Longrightarrow> Q (f r) = Q r"
  shows "filter Q (update_where P f rs) = update_where P f (filter Q rs)"
  using assms by (induction rs) auto

text \<open>An update that neither takes rows out of a selection nor brings rows into it.\<close>

lemma filter_update_where_other:
  assumes "\<And>r. r \<in> set rs \<Longrightarrow> P r \<Longrightarrow> \<not> Q r \<and> \<not> Q (f r)"
  shows "filter Q (update_where P f rs) = filter Q rs"
  using assms by (induction rs) auto

lemma in_update_whereE:
  assumes "r \<in> set (update_where P f rs)"
  obtains q where "q \<in> set rs" and "r = (if P q then f q else q)"
  using assms by (auto simp: set_update_where)

lemma delete_where_simps [simp]:
  "delete_where P [] = []"
  "delete_where P (r # rs) = (if P r then delete_where P rs else r # delete_where P rs)"
  by (simp_all add: delete_where_def)

lemma set_delete_where [simp]: "set (delete_where P rs) = {r \<in> set rs. \<not> P r}"
  by (auto simp: delete_where_def)

lemma distinct_map_filter: "distinct (map k rs) \<Longrightarrow> distinct (map k (filter P rs))"
  by (induction rs) auto

lemma distinct_map_delete_where: "distinct (map k rs) \<Longrightarrow> distinct (map k (delete_where P rs))"
  by (simp add: delete_where_def distinct_map_filter)

lemma length_delete_where: "length (delete_where P rs) + count_where P rs = length rs"
  by (induction rs) (auto simp: count_where_def)

lemma count_where_simps [simp]:
  "count_where P [] = 0"
  "count_where P (r # rs) = (if P r then Suc (count_where P rs) else count_where P rs)"
  by (simp_all add: count_where_def)

lemma count_where_0_iff: "count_where P rs = 0 \<longleftrightarrow> (\<forall>r\<in>set rs. \<not> P r)"
  by (induction rs) auto

lemma count_where_le: "count_where P rs \<le> length rs"
  by (simp add: count_where_def)

text \<open>Two rows of a table with distinct keys that carry the same key are the same row.\<close>

lemma distinct_map_eqD:
  assumes "distinct (map k rs)" and "x \<in> set rs" and "y \<in> set rs" and "k x = k y"
  shows "x = y"
  using assms by (auto simp: distinct_map dest: inj_onD)

lemma filter_key_eq:
  assumes "distinct (map k rs)" and "r \<in> set rs"
  shows "filter (\<lambda>x. k x = k r) rs = [r]"
  using assms
proof (induction rs)
  case Nil
  then show ?case by simp
next
  case (Cons x xs)
  show ?case
  proof (cases "k x = k r")
    case True
    with Cons.prems have "x = r" by (auto simp: image_iff)
    moreover have "filter (\<lambda>y. k y = k r) xs = []"
      using Cons.prems True by (auto simp: filter_empty_conv image_iff)
    ultimately show ?thesis using True by simp
  next
    case False
    with Cons.prems have "r \<in> set xs" by auto
    with Cons False show ?thesis by simp
  qed
qed

text \<open>The rows whose key is among the keys of a selection are the selection.\<close>

lemma filter_key_in_selection:
  assumes "distinct (map k rs)"
  shows "filter (\<lambda>r. k r \<in> set (map k (filter P rs))) rs = filter P rs"
proof (rule filter_cong[OF refl])
  fix r assume r: "r \<in> set rs"
  show "(k r \<in> set (map k (filter P rs))) = P r"
    using assms r by (auto dest: distinct_map_eqD)
qed

lemma distinct_map_snoc:
  "distinct (map k (rs @ [r])) \<longleftrightarrow> distinct (map k rs) \<and> k r \<notin> k ` set rs"
  by auto

lemma sort_key_Nil_iff [simp]: "sort_key k xs = [] \<longleftrightarrow> xs = []"
  by (metis length_0_conv length_sort)

text \<open>A sum over a take is bounded by the sum over the whole list.\<close>

lemma sum_list_take_le: "sum_list (take n (xs :: nat list)) \<le> sum_list xs"
proof -
  have "sum_list (take n xs) + sum_list (drop n xs) = sum_list xs"
    by (metis append_take_drop_id sum_list_append)
  then show ?thesis by simp
qed

end
