(* ===== verification/Store.thy ===== *)
theory Store
  imports Prelude
begin

text \<open>
  The database the message bus keeps its whole state in: the five entities of
  \<open>ent/schema/message-bus.go\<close> as records, the statements the generated client issues against
  them (create, update, delete) with the constraints of the schema, and the invariant that the
  constraints and the hook \<open>checkLiveOrDeleted\<close> maintain.

  The \<open>id\<close> of a row is drawn by \<open>uuid.New\<close> in the code and the timestamps by \<open>time.Now\<close>; here
  they are arguments, so an operation that draws several has several arguments. The column of
  the payload holds JSON; a message whose payload is not JSON is refused by the driver, and only
  payloads that are JSON texts are considered.
\<close>

subsection \<open>Entities\<close>

record topic =
  tID :: uuid
  tName :: string
  tCreatedAt :: time
  tLive :: "bool option"
  tDeletedAt :: "time option"
  tLabels :: attrs

record subscription =
  sID :: uuid
  sTopicID :: uuid
  sName :: string
  sCreatedAt :: time
  sExpiresAt :: time
  sLive :: "bool option"
  sDeletedAt :: "time option"
  sTTL :: duration
  sMessageTTL :: duration
  sOrderedDelivery :: bool
  sLabels :: attrs
  sMinBackoff :: "duration option"
  sMaxBackoff :: "duration option"
  sPushEndpoint :: "string option"
  sMessageFilter :: "string option"
  sMaxDeliveryAttempts :: "int option"
  sDeadLetterTopicID :: "uuid option"
  sDeliveryDelay :: duration

record message =
  mID :: uuid
  mTopicID :: uuid
  mPayload :: string
  mAttributes :: attrs
  mPublishedAt :: time
  mOrderKey :: "string option"

record delivery =
  dID :: uuid
  dMessageID :: uuid
  dSubscriptionID :: uuid
  dPublishedAt :: time
  dAttemptAt :: time
  dLastAttemptedAt :: "time option"
  dAttempts :: int
  dCompletedAt :: "time option"
  dExpiresAt :: time
  dNotBeforeID :: "uuid option"

record snapshot =
  nID :: uuid
  nTopicID :: uuid
  nName :: string
  nCreatedAt :: time
  nExpiresAt :: time
  nLabels :: attrs
  nAckedMessagesBefore :: time
  nAckedMessageIDs :: "uuid list"

record database =
  topics :: "topic list"
  subscriptions :: "subscription list"
  messages :: "message list"
  deliveries :: "delivery list"
  snapshots :: "snapshot list"

definition empty_db :: database where
  "empty_db = \<lparr>topics = [], subscriptions = [], messages = [], deliveries = [], snapshots = []\<rparr>"

subsection \<open>The soft-delete hook\<close>

datatype op = OpCreate | OpUpdate | OpUpdateOne | OpDelete | OpDeleteOne

record mutation =
  muType :: string
  muOp :: op
  muLive :: "bool option"
  muClearedLive :: bool
  muDeletedAt :: "time option"
  muClearedDeletedAt :: bool

definition checkLiveOrDeleted :: "mutation \<Rightarrow> unit res" where
  "checkLiveOrDeleted m =
     (if muOp m = OpDelete \<or> muOp m = OpDeleteOne then Inr ()
      else
        let live = muLive m;
            clearedLive = muClearedLive m;
            setDeletedAt = (muDeletedAt m \<noteq> None);
            clearedDeletedAt =
              (muClearedDeletedAt m \<or> (\<not> setDeletedAt \<and> muOp m = OpCreate))
        in
        if live = Some False then
          Inl (HookError (muType m @ ''.live can only be set to null or true, not false''))
        else if setDeletedAt \<and> \<not> clearedLive then
          Inl (HookError (muType m @ ''.live must be cleared when setting deletedAt''))
        else if clearedLive \<and> \<not> setDeletedAt then
          Inl (HookError (muType m @ ''.deletedAt must be set when clearing live''))
        else if clearedDeletedAt \<and> live \<noteq> Some True then
          Inl (HookError (muType m @ ''.live must be set true when clearing deletedAt''))
        else if live = Some True \<and> \<not> clearedDeletedAt then
          Inl (HookError (muType m @ ''.deletedAt must be cleared when setting live true''))
        else Inr ())"

text \<open>
  What a mutation does to the two columns. A builder call either sets a field or clears it, so
  the later of the two wins: \<open>ClearLive\<close> after \<open>SetLive\<close> leaves the field cleared and not set.
\<close>

definition apply_live :: "mutation \<Rightarrow> bool option \<Rightarrow> bool option" where
  "apply_live m l = (if muClearedLive m then None else case muLive m of Some b \<Rightarrow> Some b | None \<Rightarrow> l)"

definition apply_deletedAt :: "mutation \<Rightarrow> time option \<Rightarrow> time option" where
  "apply_deletedAt m d =
     (if muClearedDeletedAt m then None else case muDeletedAt m of Some t \<Rightarrow> Some t | None \<Rightarrow> d)"

definition live_consistent :: "bool option \<Rightarrow> time option \<Rightarrow> bool" where
  "live_consistent l d \<longleftrightarrow> (l = Some True \<and> d = None) \<or> (l = None \<and> d \<noteq> None)"

definition mutation_wf :: "mutation \<Rightarrow> bool" where
  "mutation_wf m \<longleftrightarrow>
     \<not> (muClearedLive m \<and> muLive m \<noteq> None) \<and> \<not> (muClearedDeletedAt m \<and> muDeletedAt m \<noteq> None)"

lemma live_consistent_simps [simp]:
  "live_consistent (Some True) None"
  "live_consistent None (Some t)"
  "\<not> live_consistent (Some False) d"
  "\<not> live_consistent None None"
  "\<not> live_consistent (Some b) (Some t)"
  by (simp_all add: live_consistent_def)

text \<open>
  What the hook lets through, without the texts of its refusals.
\<close>

lemma checkLiveOrDeleted_ok_iff:
  assumes "muOp m \<noteq> OpDelete" and "muOp m \<noteq> OpDeleteOne"
  shows "checkLiveOrDeleted m = Inr () \<longleftrightarrow>
    muLive m \<noteq> Some False \<and> (muDeletedAt m \<noteq> None \<longleftrightarrow> muClearedLive m) \<and>
    ((muClearedDeletedAt m \<or> (muDeletedAt m = None \<and> muOp m = OpCreate)) \<longleftrightarrow> muLive m = Some True)"
  using assms by (simp add: checkLiveOrDeleted_def Let_def)

text \<open>
  The hook stands in for a check constraint: a create or an update that it lets through leaves
  the two columns consistent.
\<close>

lemma hook_create_consistent:
  assumes "mutation_wf m" and "muOp m = OpCreate" and "checkLiveOrDeleted m = Inr ()"
  shows "live_consistent (apply_live m None) (apply_deletedAt m None)"
  using assms by (cases "muDeletedAt m"; cases "muLive m")
    (simp_all add: checkLiveOrDeleted_ok_iff apply_live_def apply_deletedAt_def mutation_wf_def)

lemma hook_update_consistent:
  assumes "mutation_wf m" and "muOp m = OpUpdate \<or> muOp m = OpUpdateOne"
    and "checkLiveOrDeleted m = Inr ()" and "live_consistent l d"
  shows "live_consistent (apply_live m l) (apply_deletedAt m d)"
proof -
  have "muLive m \<noteq> Some False" and "(muDeletedAt m \<noteq> None) = muClearedLive m"
    and "muClearedDeletedAt m = (muLive m = Some True)"
    using assms(2,3) checkLiveOrDeleted_ok_iff[of m] by auto
  then show ?thesis using assms(1,4)
    by (cases "muDeletedAt m"; cases "muLive m")
      (simp_all add: apply_live_def apply_deletedAt_def mutation_wf_def)
qed

subsection \<open>Constraints\<close>

text \<open>
  The unique index over \<open>(name, live)\<close>: nulls are distinct in it, so it binds the rows whose
  \<open>live\<close> is set. The functions take the columns as arguments because topics and subscriptions
  share the construction.
\<close>

definition unique_live :: "('r \<Rightarrow> string) \<Rightarrow> ('r \<Rightarrow> bool option) \<Rightarrow> 'r list \<Rightarrow> bool" where
  "unique_live nm lv rs \<longleftrightarrow>
     distinct (map (\<lambda>r. (nm r, lv r)) (filter (\<lambda>r. lv r \<noteq> None) rs))"

lemma unique_live_Nil [simp]: "unique_live nm lv []"
  by (simp add: unique_live_def)

lemma keyed_image:
  "(n, Some a) \<in> (\<lambda>r. (nm r, lv r)) ` {x \<in> S. \<exists>y. lv x = Some y} \<longleftrightarrow>
     (\<exists>q\<in>S. nm q = n \<and> lv q = Some a)"
  by force

lemma unique_live_Cons:
  "unique_live nm lv (r # rs) \<longleftrightarrow>
     unique_live nm lv rs \<and> (lv r \<noteq> None \<longrightarrow> (\<forall>q\<in>set rs. nm q = nm r \<longrightarrow> lv q \<noteq> lv r))"
  by (cases "lv r") (auto simp: unique_live_def keyed_image)

lemma unique_live_snoc:
  "unique_live nm lv (rs @ [r]) \<longleftrightarrow>
     unique_live nm lv rs \<and> (lv r \<noteq> None \<longrightarrow> (\<forall>q\<in>set rs. nm q = nm r \<longrightarrow> lv q \<noteq> lv r))"
  by (cases "lv r") (auto simp: unique_live_def keyed_image)

lemma unique_live_filter: "unique_live nm lv rs \<Longrightarrow> unique_live nm lv (filter P rs)"
  by (induction rs) (auto simp: unique_live_Cons)

definition all_consistent :: "('r \<Rightarrow> bool option) \<Rightarrow> ('r \<Rightarrow> time option) \<Rightarrow> 'r list \<Rightarrow> bool" where
  "all_consistent lv del rs \<longleftrightarrow> list_all (\<lambda>r. live_consistent (lv r) (del r)) rs"

definition opt_in :: "'a option \<Rightarrow> 'a set \<Rightarrow> bool" where
  "opt_in x A \<longleftrightarrow> (case x of None \<Rightarrow> True | Some a \<Rightarrow> a \<in> A)"

definition topic_ids :: "database \<Rightarrow> uuid set" where
  "topic_ids db = set (map tID (topics db))"

definition sub_ids :: "database \<Rightarrow> uuid set" where
  "sub_ids db = set (map sID (subscriptions db))"

definition message_ids :: "database \<Rightarrow> uuid set" where
  "message_ids db = set (map mID (messages db))"

definition delivery_ids :: "database \<Rightarrow> uuid set" where
  "delivery_ids db = set (map dID (deliveries db))"

definition snapshot_ids :: "database \<Rightarrow> uuid set" where
  "snapshot_ids db = set (map nID (snapshots db))"

definition topics_wf :: "topic list \<Rightarrow> bool" where
  "topics_wf ts \<longleftrightarrow> distinct (map tID ts) \<and> unique_live tName tLive ts \<and>
     all_consistent tLive tDeletedAt ts \<and> list_all (\<lambda>t. tName t \<noteq> []) ts"

definition subs_wf :: "subscription list \<Rightarrow> bool" where
  "subs_wf ss \<longleftrightarrow> distinct (map sID ss) \<and> unique_live sName sLive ss \<and>
     all_consistent sLive sDeletedAt ss \<and> list_all (\<lambda>s. sName s \<noteq> []) ss"

definition snapshots_wf :: "snapshot list \<Rightarrow> bool" where
  "snapshots_wf ns \<longleftrightarrow> distinct (map nID ns) \<and> distinct (map nName ns) \<and>
     list_all (\<lambda>n. nName n \<noteq> []) ns"

definition sub_refs :: "database \<Rightarrow> subscription \<Rightarrow> bool" where
  "sub_refs db s \<longleftrightarrow> sTopicID s \<in> topic_ids db \<and> opt_in (sDeadLetterTopicID s) (topic_ids db)"

definition delivery_refs :: "database \<Rightarrow> delivery \<Rightarrow> bool" where
  "delivery_refs db d \<longleftrightarrow> dMessageID d \<in> message_ids db \<and> dSubscriptionID d \<in> sub_ids db \<and>
     opt_in (dNotBeforeID d) (delivery_ids db)"

definition wf_db :: "database \<Rightarrow> bool" where
  "wf_db db \<longleftrightarrow> topics_wf (topics db) \<and> subs_wf (subscriptions db) \<and>
     distinct (map mID (messages db)) \<and> distinct (map dID (deliveries db)) \<and>
     snapshots_wf (snapshots db) \<and>
     list_all (sub_refs db) (subscriptions db) \<and>
     list_all (\<lambda>m. mTopicID m \<in> topic_ids db) (messages db) \<and>
     list_all (delivery_refs db) (deliveries db) \<and>
     list_all (\<lambda>n. nTopicID n \<in> topic_ids db) (snapshots db)"

subsection \<open>Statements\<close>

text \<open>
  A create applies the defaults, runs the hook, then the validators, then the insert with its
  constraints, in the order of the generated builders.
\<close>

definition create_mutation :: "string \<Rightarrow> bool option \<Rightarrow> time option \<Rightarrow> mutation" where
  "create_mutation ty lv del = \<lparr>muType = ty, muOp = OpCreate,
     muLive = (case lv of None \<Rightarrow> Some True | Some b \<Rightarrow> Some b), muClearedLive = False,
     muDeletedAt = del, muClearedDeletedAt = False\<rparr>"

definition insert_topic :: "topic \<Rightarrow> database \<Rightarrow> database res" where
  "insert_topic t db =
     (let m = create_mutation ''Topic'' (tLive t) (tDeletedAt t) in
      bind_res (checkLiveOrDeleted m) (\<lambda>_.
      if tName t = [] then Inl (ValidationError ''name'')
      else let ts = topics db @ [t\<lparr>tLive := apply_live m None\<rparr>] in
        if \<not> distinct (map tID ts) \<or> \<not> unique_live tName tLive ts then Inl UniqueViolation
        else Inr (db\<lparr>topics := ts\<rparr>)))"

definition insert_subscription :: "subscription \<Rightarrow> database \<Rightarrow> database res" where
  "insert_subscription s db =
     (let m = create_mutation ''Subscription'' (sLive s) (sDeletedAt s) in
      bind_res (checkLiveOrDeleted m) (\<lambda>_.
      if sName s = [] then Inl (ValidationError ''name'')
      else let ss = subscriptions db @ [s\<lparr>sLive := apply_live m None\<rparr>] in
        if \<not> distinct (map sID ss) \<or> \<not> unique_live sName sLive ss then Inl UniqueViolation
        else if \<not> sub_refs db s then Inl ForeignKeyViolation
        else Inr (db\<lparr>subscriptions := ss\<rparr>)))"

definition insert_message :: "message \<Rightarrow> database \<Rightarrow> database res" where
  "insert_message m db =
     (if mID m \<in> message_ids db then Inl UniqueViolation
      else if mTopicID m \<notin> topic_ids db then Inl ForeignKeyViolation
      else Inr (db\<lparr>messages := messages db @ [m]\<rparr>))"

definition insert_delivery :: "delivery \<Rightarrow> database \<Rightarrow> database res" where
  "insert_delivery d db =
     (if dID d \<in> delivery_ids db then Inl UniqueViolation
      else let db' = db\<lparr>deliveries := deliveries db @ [d]\<rparr> in
        if \<not> delivery_refs db' d then Inl ForeignKeyViolation else Inr db')"

definition insert_snapshot :: "snapshot \<Rightarrow> database \<Rightarrow> database res" where
  "insert_snapshot n db =
     (if nName n = [] then Inl (ValidationError ''name'')
      else if nID n \<in> snapshot_ids db \<or> nName n \<in> set (map nName (snapshots db))
        then Inl UniqueViolation
      else if nTopicID n \<notin> topic_ids db then Inl ForeignKeyViolation
      else Inr (db\<lparr>snapshots := snapshots db @ [n]\<rparr>))"

text \<open>
  Deletes. A foreign key is either \<open>NoAction\<close>, so that the delete of a row that is still
  referred to fails, or \<open>SetNull\<close>, so that the referring column is cleared.
\<close>

definition set_null :: "uuid list \<Rightarrow> uuid option \<Rightarrow> uuid option" where
  "set_null gone r = (case r of None \<Rightarrow> None | Some i \<Rightarrow> if i \<in> set gone then None else Some i)"

definition delete_topics :: "(topic \<Rightarrow> bool) \<Rightarrow> database \<Rightarrow> database res" where
  "delete_topics P db =
     (let gone = map tID (filter P (topics db)) in
      if list_ex (\<lambda>s. sTopicID s \<in> set gone) (subscriptions db) \<or>
         list_ex (\<lambda>m. mTopicID m \<in> set gone) (messages db) \<or>
         list_ex (\<lambda>n. nTopicID n \<in> set gone) (snapshots db)
      then Inl ForeignKeyViolation
      else Inr (db\<lparr>topics := delete_where P (topics db),
        subscriptions := map (\<lambda>s. s\<lparr>sDeadLetterTopicID := set_null gone (sDeadLetterTopicID s)\<rparr>)
          (subscriptions db)\<rparr>))"

definition delete_subscriptions :: "(subscription \<Rightarrow> bool) \<Rightarrow> database \<Rightarrow> database res" where
  "delete_subscriptions P db =
     (let gone = map sID (filter P (subscriptions db)) in
      if list_ex (\<lambda>d. dSubscriptionID d \<in> set gone) (deliveries db) then Inl ForeignKeyViolation
      else Inr (db\<lparr>subscriptions := delete_where P (subscriptions db)\<rparr>))"

definition delete_messages :: "(message \<Rightarrow> bool) \<Rightarrow> database \<Rightarrow> database res" where
  "delete_messages P db =
     (let gone = map mID (filter P (messages db)) in
      if list_ex (\<lambda>d. dMessageID d \<in> set gone) (deliveries db) then Inl ForeignKeyViolation
      else Inr (db\<lparr>messages := delete_where P (messages db)\<rparr>))"

definition delete_deliveries :: "(delivery \<Rightarrow> bool) \<Rightarrow> database \<Rightarrow> database" where
  "delete_deliveries P db =
     (let gone = map dID (filter P (deliveries db)) in
      db\<lparr>deliveries := map (\<lambda>d. d\<lparr>dNotBeforeID := set_null gone (dNotBeforeID d)\<rparr>)
        (delete_where P (deliveries db))\<rparr>)"

definition delete_snapshots :: "(snapshot \<Rightarrow> bool) \<Rightarrow> database \<Rightarrow> database" where
  "delete_snapshots P db = db\<lparr>snapshots := delete_where P (snapshots db)\<rparr>"

definition update_deliveries :: "(delivery \<Rightarrow> bool) \<Rightarrow> (delivery \<Rightarrow> delivery) \<Rightarrow> database \<Rightarrow> database" where
  "update_deliveries P f db = db\<lparr>deliveries := update_where P f (deliveries db)\<rparr>"

text \<open>
  Updates of topics and subscriptions go through the hook. The first two definitions are the
  update with \<open>SetDeletedAt\<close> and \<open>ClearLive\<close>; the last two are updates of other columns.
\<close>

definition update_mutation :: "string \<Rightarrow> time option \<Rightarrow> bool \<Rightarrow> mutation" where
  "update_mutation ty del clear = \<lparr>muType = ty, muOp = OpUpdate, muLive = None,
     muClearedLive = clear, muDeletedAt = del, muClearedDeletedAt = False\<rparr>"

definition mark_topic :: "mutation \<Rightarrow> topic \<Rightarrow> topic" where
  "mark_topic m t = t\<lparr>tLive := apply_live m (tLive t), tDeletedAt := apply_deletedAt m (tDeletedAt t)\<rparr>"

definition mark_subscription :: "mutation \<Rightarrow> subscription \<Rightarrow> subscription" where
  "mark_subscription m s =
     s\<lparr>sLive := apply_live m (sLive s), sDeletedAt := apply_deletedAt m (sDeletedAt s)\<rparr>"

definition soft_delete_topics :: "time \<Rightarrow> (topic \<Rightarrow> bool) \<Rightarrow> database \<Rightarrow> database res" where
  "soft_delete_topics now P db =
     (let m = update_mutation ''Topic'' (Some now) True in
      bind_res (checkLiveOrDeleted m) (\<lambda>_.
        Inr (db\<lparr>topics := update_where P (mark_topic m) (topics db)\<rparr>)))"

definition soft_delete_subscriptions ::
    "time \<Rightarrow> (subscription \<Rightarrow> bool) \<Rightarrow> database \<Rightarrow> database res" where
  "soft_delete_subscriptions now P db =
     (let m = update_mutation ''Subscription'' (Some now) True in
      bind_res (checkLiveOrDeleted m) (\<lambda>_.
        Inr (db\<lparr>subscriptions := update_where P (mark_subscription m) (subscriptions db)\<rparr>)))"

definition update_topics :: "(topic \<Rightarrow> bool) \<Rightarrow> (topic \<Rightarrow> topic) \<Rightarrow> database \<Rightarrow> database res" where
  "update_topics P f db =
     bind_res (checkLiveOrDeleted (update_mutation ''Topic'' None False)) (\<lambda>_.
       Inr (db\<lparr>topics := update_where P f (topics db)\<rparr>))"

definition update_subscriptions ::
    "(subscription \<Rightarrow> bool) \<Rightarrow> (subscription \<Rightarrow> subscription) \<Rightarrow> database \<Rightarrow> database res" where
  "update_subscriptions P f db =
     bind_res (checkLiveOrDeleted (update_mutation ''Subscription'' None False)) (\<lambda>_.
       let ss = update_where P f (subscriptions db) in
       if \<not> list_all (sub_refs db) ss then Inl ForeignKeyViolation
       else Inr (db\<lparr>subscriptions := ss\<rparr>))"

subsection \<open>Rows that are deleted by marking\<close>

text \<open>
  What topics and subscriptions have in common, and what follows for the lookups by name: the
  marking changes the two columns the way the mutation says and nothing else, hence at most one
  row of a name is not marked as deleted.
\<close>

locale soft_deletable =
  fixes ident :: "'r \<Rightarrow> uuid" and rname :: "'r \<Rightarrow> string" and live :: "'r \<Rightarrow> bool option"
    and deletedAt :: "'r \<Rightarrow> time option" and mark :: "mutation \<Rightarrow> 'r \<Rightarrow> 'r"
  assumes mark_ident: "ident (mark m r) = ident r"
    and mark_name: "rname (mark m r) = rname r"
    and mark_live: "live (mark m r) = apply_live m (live r)"
    and mark_deletedAt: "deletedAt (mark m r) = apply_deletedAt m (deletedAt r)"
begin

lemma mark_idents: "map ident (update_where P (mark m) rs) = map ident rs"
  by (rule map_update_where) (simp add: mark_ident)

lemma unique_live_mark:
  assumes "unique_live rname live rs" and "muClearedLive m"
  shows "unique_live rname live (update_where P (mark m) rs)"
proof -
  have "filter (\<lambda>r. live r \<noteq> None) (update_where P (mark m) rs) =
      filter (\<lambda>r. \<not> P r) (filter (\<lambda>r. live r \<noteq> None) rs)"
    using assms(2) by (induction rs) (auto simp: mark_live apply_live_def)
  with assms(1) show ?thesis
    unfolding unique_live_def by (simp add: distinct_map_filter del: filter_filter)
qed

lemma all_consistent_mark:
  assumes "all_consistent live deletedAt rs" and "mutation_wf m" and "muOp m = OpUpdate"
    and "checkLiveOrDeleted m = Inr ()"
  shows "all_consistent live deletedAt (update_where P (mark m) rs)"
  using assms(1) hook_update_consistent[OF assms(2) _ assms(4)] assms(3)
  by (auto simp: all_consistent_def list_all_iff set_update_where mark_live mark_deletedAt)

lemma names_mark: "map rname (update_where P (mark m) rs) = map rname rs"
  by (rule map_update_where) (simp add: mark_name)

lemma live_row_unique:
  assumes "unique_live rname live rs" and "all_consistent live deletedAt rs"
  shows "length (filter (\<lambda>r. rname r = n \<and> deletedAt r = None) rs) \<le> 1"
  using assms
proof (induction rs)
  case (Cons r rs)
  have "filter (\<lambda>r. rname r = n \<and> deletedAt r = None) rs = []"
    if "rname r = n" "deletedAt r = None"
    using Cons.prems that
    by (fastforce simp: unique_live_Cons all_consistent_def list_all_iff live_consistent_def
        filter_empty_conv)
  moreover have "length (filter (\<lambda>r. rname r = n \<and> deletedAt r = None) rs) \<le> 1"
    using Cons by (simp add: unique_live_Cons all_consistent_def)
  ultimately show ?case by auto
qed simp

lemma only_live_singular:
  assumes "unique_live rname live rs" and "all_consistent live deletedAt rs"
  shows "only (filter (\<lambda>r. rname r = n \<and> deletedAt r = None) rs) \<noteq> Inl EntNotSingular"
  using live_row_unique[OF assms, of n] by (auto simp: only_def split: list.splits)

lemma only_live_found:
  assumes "unique_live rname live rs" and "all_consistent live deletedAt rs"
    and "r \<in> set rs" and "deletedAt r = None" and "rname r = n"
  shows "only (filter (\<lambda>r. rname r = n \<and> deletedAt r = None) rs) = Inr r"
proof -
  have "r \<in> set (filter (\<lambda>r. rname r = n \<and> deletedAt r = None) rs)" using assms by simp
  with live_row_unique[OF assms(1,2), of n] show ?thesis
    by (cases "filter (\<lambda>r. rname r = n \<and> deletedAt r = None) rs") auto
qed

end

interpretation topic_rows: soft_deletable tID tName tLive tDeletedAt mark_topic
  by unfold_locales (simp_all add: mark_topic_def)

interpretation sub_rows: soft_deletable sID sName sLive sDeletedAt mark_subscription
  by unfold_locales (simp_all add: mark_subscription_def)

subsection \<open>The invariant under the statements\<close>

lemmas wf_defs = wf_db_def topics_wf_def subs_wf_def snapshots_wf_def sub_refs_def
  delivery_refs_def

lemmas id_defs = topic_ids_def sub_ids_def message_ids_def delivery_ids_def snapshot_ids_def

lemma opt_in_simps [simp]:
  "opt_in None A"
  "opt_in (Some a) A \<longleftrightarrow> a \<in> A"
  by (simp_all add: opt_in_def)

lemma opt_in_mono: "opt_in x A \<Longrightarrow> A \<subseteq> B \<Longrightarrow> opt_in x B"
  by (cases x) auto

lemma set_null_simps [simp]:
  "set_null g None = None"
  "set_null [] x = x"
  "set_null g (Some i) = (if i \<in> set g then None else Some i)"
  by (simp_all add: set_null_def split: option.splits)

lemma wf_empty_db: "wf_db empty_db"
  by (simp add: empty_db_def wf_db_def topics_wf_def subs_wf_def snapshots_wf_def unique_live_def
      all_consistent_def)

lemma wf_db_distinct:
  assumes "wf_db db"
  shows "distinct (map tID (topics db))" and "distinct (map sID (subscriptions db))"
    and "distinct (map mID (messages db))" and "distinct (map dID (deliveries db))"
    and "distinct (map nID (snapshots db))" and "distinct (map nName (snapshots db))"
  using assms by (simp_all add: wf_db_def topics_wf_def subs_wf_def snapshots_wf_def)

lemma wf_db_live:
  assumes "wf_db db"
  shows "unique_live tName tLive (topics db)" and "all_consistent tLive tDeletedAt (topics db)"
    and "unique_live sName sLive (subscriptions db)"
    and "all_consistent sLive sDeletedAt (subscriptions db)"
  using assms by (simp_all add: wf_db_def topics_wf_def subs_wf_def)

lemma wf_db_refs:
  assumes "wf_db db"
  shows "s \<in> set (subscriptions db) \<Longrightarrow> sTopicID s \<in> topic_ids db"
    and "s \<in> set (subscriptions db) \<Longrightarrow> opt_in (sDeadLetterTopicID s) (topic_ids db)"
    and "m \<in> set (messages db) \<Longrightarrow> mTopicID m \<in> topic_ids db"
    and "d \<in> set (deliveries db) \<Longrightarrow> dMessageID d \<in> message_ids db"
    and "d \<in> set (deliveries db) \<Longrightarrow> dSubscriptionID d \<in> sub_ids db"
    and "d \<in> set (deliveries db) \<Longrightarrow> opt_in (dNotBeforeID d) (delivery_ids db)"
    and "n \<in> set (snapshots db) \<Longrightarrow> nTopicID n \<in> topic_ids db"
  using assms by (simp_all add: wf_db_def list_all_iff sub_refs_def delivery_refs_def)

text \<open>The hook on the mutations the statements build.\<close>

lemma hook_simps [simp]:
  "checkLiveOrDeleted (create_mutation ty None None) = Inr ()"
  "checkLiveOrDeleted (update_mutation ty (Some t) True) = Inr ()"
  "checkLiveOrDeleted (update_mutation ty None False) = Inr ()"
  by (simp_all add: checkLiveOrDeleted_def create_mutation_def update_mutation_def)

lemma mutation_effects [simp]:
  "apply_live (create_mutation ty None del) l = Some True"
  "apply_live (update_mutation ty del True) l = None"
  "apply_deletedAt (update_mutation ty (Some t) c) d = Some t"
  by (simp_all add: apply_live_def apply_deletedAt_def create_mutation_def update_mutation_def)

lemma create_mutation_live: "create_mutation ty (Some True) del = create_mutation ty None del"
  by (simp add: create_mutation_def)

lemma insert_topic_iff:
  assumes "tLive t \<noteq> Some False" and "tDeletedAt t = None"
  shows "insert_topic t db = Inr db' \<longleftrightarrow> tName t \<noteq> [] \<and> tID t \<notin> topic_ids db \<and>
    distinct (map tID (topics db)) \<and> unique_live tName tLive (topics db @ [t\<lparr>tLive := Some True\<rparr>]) \<and>
    db' = db\<lparr>topics := topics db @ [t\<lparr>tLive := Some True\<rparr>]\<rparr>"
  using assms
  by (cases "tLive t") (auto simp: insert_topic_def create_mutation_live Let_def topic_ids_def)

lemma insert_subscription_iff:
  assumes "sLive s \<noteq> Some False" and "sDeletedAt s = None"
  shows "insert_subscription s db = Inr db' \<longleftrightarrow> sName s \<noteq> [] \<and> sID s \<notin> sub_ids db \<and>
    distinct (map sID (subscriptions db)) \<and> sub_refs db s \<and>
    unique_live sName sLive (subscriptions db @ [s\<lparr>sLive := Some True\<rparr>]) \<and>
    db' = db\<lparr>subscriptions := subscriptions db @ [s\<lparr>sLive := Some True\<rparr>]\<rparr>"
  using assms
  by (cases "sLive s") (auto simp: insert_subscription_def create_mutation_live Let_def sub_ids_def)

lemma wf_db_topics:
  assumes "wf_db db" and "topics_wf ts" and "topic_ids db \<subseteq> set (map tID ts)"
  shows "wf_db (db\<lparr>topics := ts\<rparr>)"
  using assms
  by (auto simp: wf_db_def sub_refs_def delivery_refs_def id_defs list_all_iff
      intro: opt_in_mono)

lemma wf_insert_topic [wf_intros]:
  assumes "wf_db db" and "insert_topic t db = Inr db'" and "tLive t \<noteq> Some False" and "tDeletedAt t = None"
  shows "wf_db db'"
proof -
  have "topics_wf (topics db @ [t\<lparr>tLive := Some True\<rparr>])"
    using assms by (auto simp: insert_topic_iff wf_db_def topics_wf_def all_consistent_def topic_ids_def)
  then show ?thesis
    using assms by (auto simp: insert_topic_iff topic_ids_def intro!: wf_db_topics)
qed

lemma wf_db_subscriptions:
  assumes "wf_db db" and "subs_wf ss" and "list_all (sub_refs db) ss"
    and "sub_ids db \<subseteq> set (map sID ss)"
  shows "wf_db (db\<lparr>subscriptions := ss\<rparr>)"
  using assms
  by (auto simp: wf_db_def sub_refs_def delivery_refs_def id_defs list_all_iff)

lemma wf_insert_subscription [wf_intros]:
  assumes "wf_db db" and "insert_subscription s db = Inr db'"
    and "sLive s \<noteq> Some False" and "sDeletedAt s = None"
  shows "wf_db db'"
proof -
  let ?ss = "subscriptions db @ [s\<lparr>sLive := Some True\<rparr>]"
  have "subs_wf ?ss"
    using assms
    by (auto simp: insert_subscription_iff wf_db_def subs_wf_def all_consistent_def sub_ids_def)
  moreover have "list_all (sub_refs db) ?ss"
    using assms by (auto simp: insert_subscription_iff wf_db_def sub_refs_def)
  ultimately show ?thesis
    using assms by (auto simp: insert_subscription_iff sub_ids_def intro!: wf_db_subscriptions)
qed

lemma insert_message_iff:
  "insert_message m db = Inr db' \<longleftrightarrow> mID m \<notin> message_ids db \<and> mTopicID m \<in> topic_ids db \<and>
     db' = db\<lparr>messages := messages db @ [m]\<rparr>"
  by (auto simp: insert_message_def)

lemma wf_insert_message [wf_intros]:
  assumes "wf_db db" and "insert_message m db = Inr db'"
  shows "wf_db db'"
  using assms
  by (auto simp: insert_message_iff wf_db_def sub_refs_def delivery_refs_def id_defs list_all_iff)

lemma insert_delivery_iff:
  "insert_delivery d db = Inr db' \<longleftrightarrow> dID d \<notin> delivery_ids db \<and>
     dMessageID d \<in> message_ids db \<and> dSubscriptionID d \<in> sub_ids db \<and>
     opt_in (dNotBeforeID d) (insert (dID d) (delivery_ids db)) \<and>
     db' = db\<lparr>deliveries := deliveries db @ [d]\<rparr>"
  by (auto simp: insert_delivery_def delivery_refs_def id_defs Let_def)

lemma wf_insert_delivery [wf_intros]:
  assumes "wf_db db" and "insert_delivery d db = Inr db'"
  shows "wf_db db'"
  using assms
  by (auto simp: insert_delivery_iff wf_db_def sub_refs_def delivery_refs_def id_defs list_all_iff
      intro: opt_in_mono[OF _ subset_insertI])

lemma insert_snapshot_iff:
  "insert_snapshot n db = Inr db' \<longleftrightarrow> nName n \<noteq> [] \<and> nID n \<notin> snapshot_ids db \<and>
     nName n \<notin> nName ` set (snapshots db) \<and> nTopicID n \<in> topic_ids db \<and>
     db' = db\<lparr>snapshots := snapshots db @ [n]\<rparr>"
  by (auto simp: insert_snapshot_def)

lemma wf_insert_snapshot [wf_intros]:
  assumes "wf_db db" and "insert_snapshot n db = Inr db'"
  shows "wf_db db'"
  using assms
  by (auto simp: insert_snapshot_iff wf_db_def snapshots_wf_def sub_refs_def delivery_refs_def id_defs
      list_all_iff)

lemma wf_delete_topics [wf_intros]:
  assumes "wf_db db" and "delete_topics P db = Inr db'"
  shows "wf_db db'"
proof -
  let ?gone = "map tID (filter P (topics db))"
  let ?ss = "map (\<lambda>s. s\<lparr>sDeadLetterTopicID := set_null ?gone (sDeadLetterTopicID s)\<rparr>) (subscriptions db)"
  have db': "db' = db\<lparr>topics := delete_where P (topics db), subscriptions := ?ss\<rparr>"
    and free: "\<forall>s\<in>set (subscriptions db). sTopicID s \<notin> set ?gone"
      "\<forall>m\<in>set (messages db). mTopicID m \<notin> set ?gone"
      "\<forall>n\<in>set (snapshots db). nTopicID n \<notin> set ?gone"
    using assms(2) by (auto simp: delete_topics_def Let_def list_ex_iff simp del: set_map split: if_splits)
  have kept: "i \<in> topic_ids db' \<longleftrightarrow> i \<in> topic_ids db \<and> i \<notin> set ?gone" for i
    using wf_db_distinct(1)[OF assms(1)]
    by (auto simp: db' topic_ids_def dest: distinct_map_eqD)
  have ss: "subs_wf ?ss"
    using assms(1)
    by (auto simp: wf_db_def subs_wf_def unique_live_def all_consistent_def list_all_iff filter_map
        comp_def)
  have ts: "topics_wf (delete_where P (topics db))"
    using assms(1)
    by (auto simp: wf_db_def topics_wf_def distinct_map_filter delete_where_def
        unique_live_filter all_consistent_def list_all_iff)
  have "list_all (sub_refs db') ?ss"
  proof (unfold list_all_iff, safe)
    fix s' assume "s' \<in> set ?ss"
    then obtain s where "s \<in> set (subscriptions db)"
      and s': "s' = s\<lparr>sDeadLetterTopicID := set_null ?gone (sDeadLetterTopicID s)\<rparr>" by auto
    with free(1) wf_db_refs(1,2)[OF assms(1)] show "sub_refs db' s'"
      by (cases "sDeadLetterTopicID s") (force simp: sub_refs_def kept)+
  qed
  moreover have "sub_ids db' = sub_ids db" "message_ids db' = message_ids db"
    "delivery_ids db' = delivery_ids db"
    by (auto simp: db' id_defs image_iff)
  ultimately show ?thesis
    using assms(1) ss ts free(2,3) kept unfolding wf_db_def
    by (auto simp: db' delivery_refs_def list_all_iff)
qed

lemma wf_delete_subscriptions [wf_intros]:
  assumes "wf_db db" and "delete_subscriptions P db = Inr db'"
  shows "wf_db db'"
proof -
  let ?gone = "map sID (filter P (subscriptions db))"
  have db': "db' = db\<lparr>subscriptions := delete_where P (subscriptions db)\<rparr>"
    and free: "\<forall>d\<in>set (deliveries db). dSubscriptionID d \<notin> set ?gone"
    using assms(2)
    by (auto simp: delete_subscriptions_def Let_def list_ex_iff simp del: set_map split: if_splits)
  have kept: "i \<in> sub_ids db' \<longleftrightarrow> i \<in> sub_ids db \<and> i \<notin> set ?gone" for i
    using wf_db_distinct(2)[OF assms(1)] by (auto simp: db' sub_ids_def dest: distinct_map_eqD)
  have "subs_wf (delete_where P (subscriptions db))"
    using assms(1)
    by (auto simp: wf_db_def subs_wf_def distinct_map_filter delete_where_def
        unique_live_filter all_consistent_def list_all_iff)
  moreover have "topic_ids db' = topic_ids db" "message_ids db' = message_ids db"
    "delivery_ids db' = delivery_ids db"
    by (simp_all add: db' id_defs)
  ultimately show ?thesis
    using assms(1) free kept unfolding wf_db_def
    by (auto simp: db' delivery_refs_def sub_refs_def list_all_iff)
qed

lemma wf_delete_messages [wf_intros]:
  assumes "wf_db db" and "delete_messages P db = Inr db'"
  shows "wf_db db'"
proof -
  let ?gone = "map mID (filter P (messages db))"
  have db': "db' = db\<lparr>messages := delete_where P (messages db)\<rparr>"
    and free: "\<forall>d\<in>set (deliveries db). dMessageID d \<notin> set ?gone"
    using assms(2)
    by (auto simp: delete_messages_def Let_def list_ex_iff simp del: set_map split: if_splits)
  have kept: "i \<in> message_ids db' \<longleftrightarrow> i \<in> message_ids db \<and> i \<notin> set ?gone" for i
    using wf_db_distinct(3)[OF assms(1)] by (auto simp: db' message_ids_def dest: distinct_map_eqD)
  have "topic_ids db' = topic_ids db" "sub_ids db' = sub_ids db" "delivery_ids db' = delivery_ids db"
    by (simp_all add: db' id_defs)
  then show ?thesis
    using assms(1) free kept unfolding wf_db_def
    by (auto simp: db' delivery_refs_def sub_refs_def list_all_iff distinct_map_delete_where)
qed

lemma wf_delete_deliveries [wf_intros]:
  assumes "wf_db db"
  shows "wf_db (delete_deliveries P db)"
proof -
  let ?gone = "map dID (filter P (deliveries db))"
  let ?db' = "delete_deliveries P db"
  have kept: "i \<in> delivery_ids ?db' \<longleftrightarrow> i \<in> delivery_ids db \<and> i \<notin> set ?gone" for i
    using wf_db_distinct(4)[OF assms(1)]
    by (auto simp: delete_deliveries_def Let_def delivery_ids_def image_iff dest: distinct_map_eqD)
  have same: "topic_ids ?db' = topic_ids db" "sub_ids ?db' = sub_ids db" "message_ids ?db' = message_ids db"
    by (simp_all add: delete_deliveries_def Let_def id_defs)
  have "distinct (map dID (deliveries ?db'))"
    using wf_db_distinct(4)[OF assms]
    by (simp add: delete_deliveries_def Let_def comp_def distinct_map_delete_where)
  moreover have "list_all (delivery_refs ?db') (deliveries ?db')"
  proof (unfold list_all_iff, safe)
    fix d' assume "d' \<in> set (deliveries ?db')"
    then obtain d where d: "d \<in> set (deliveries db)"
      and d': "d' = d\<lparr>dNotBeforeID := set_null ?gone (dNotBeforeID d)\<rparr>"
      by (auto simp: delete_deliveries_def Let_def)
    then show "delivery_refs ?db' d'"
      using wf_db_refs(4,5,6)[OF assms d] kept
      by (cases "dNotBeforeID d") (auto simp: delivery_refs_def same simp del: set_map)
  qed
  ultimately show ?thesis
    using assms same unfolding wf_db_def sub_refs_def
    by (simp add: delete_deliveries_def Let_def)
qed

lemma wf_delete_snapshots [wf_intros]: "wf_db db \<Longrightarrow> wf_db (delete_snapshots P db)"
  by (auto simp: delete_snapshots_def wf_db_def snapshots_wf_def distinct_map_delete_where
      list_all_iff sub_refs_def delivery_refs_def id_defs)

text \<open>
  An update of deliveries keeps the invariant when it leaves the identifier and the references
  of every row it changes alone, or drops the predecessor.
\<close>

definition keeps_delivery_refs :: "(delivery \<Rightarrow> delivery) \<Rightarrow> bool" where
  "keeps_delivery_refs f \<longleftrightarrow> (\<forall>d. dID (f d) = dID d \<and> dMessageID (f d) = dMessageID d \<and>
     dSubscriptionID (f d) = dSubscriptionID d \<and> dNotBeforeID (f d) \<in> {dNotBeforeID d, None})"

lemma wf_update_deliveries [wf_intros]:
  assumes "wf_db db" and "keeps_delivery_refs f"
  shows "wf_db (update_deliveries P f db)"
proof -
  have ids: "map dID (update_where P f (deliveries db)) = map dID (deliveries db)"
    using assms(2) by (intro map_update_where) (simp add: keeps_delivery_refs_def)
  then have same: "delivery_ids (update_deliveries P f db) = delivery_ids db"
    unfolding delivery_ids_def update_deliveries_def by simp
  have "delivery_refs (update_deliveries P f db) d'"
    if "d' \<in> set (update_where P f (deliveries db))" for d'
  proof -
    from that obtain d where "d \<in> set (deliveries db)" and "d' = (if P d then f d else d)"
      by (rule in_update_whereE)
    then show ?thesis
      using wf_db_refs(4,5,6)[OF assms(1), of d] assms(2)[unfolded keeps_delivery_refs_def, rule_format, of d] same
      by (auto simp: delivery_refs_def) (simp_all add: update_deliveries_def id_defs)
  qed
  then show ?thesis
    using assms(1) ids unfolding wf_db_def
    by (auto simp: update_deliveries_def list_all_iff sub_refs_def topic_ids_def)
qed

lemma soft_delete_topics_eq:
  "soft_delete_topics now P db = Inr (db\<lparr>topics :=
     update_where P (\<lambda>t. t\<lparr>tLive := None, tDeletedAt := Some now\<rparr>) (topics db)\<rparr>)"
  by (simp add: soft_delete_topics_def Let_def mark_topic_def update_where_def)

lemma soft_delete_subscriptions_eq:
  "soft_delete_subscriptions now P db = Inr (db\<lparr>subscriptions :=
     update_where P (\<lambda>s. s\<lparr>sLive := None, sDeletedAt := Some now\<rparr>) (subscriptions db)\<rparr>)"
  by (simp add: soft_delete_subscriptions_def Let_def mark_subscription_def update_where_def)

lemma update_mutation_wf [simp]:
  "mutation_wf (update_mutation ty del c)" "muOp (update_mutation ty del c) = OpUpdate"
  "muClearedLive (update_mutation ty del c) = c"
  by (simp_all add: mutation_wf_def update_mutation_def)

lemma wf_soft_delete_topics [wf_intros]:
  assumes "wf_db db" and "soft_delete_topics now P db = Inr db'"
  shows "wf_db db'"
proof -
  let ?m = "update_mutation ''Topic'' (Some now) True"
  let ?ts = "update_where P (mark_topic ?m) (topics db)"
  have names: "list_all (\<lambda>n. n \<noteq> []) (map tName ?ts)"
    using assms(1) unfolding topic_rows.names_mark by (simp add: wf_db_def topics_wf_def list_all_iff)
  have "topics_wf ?ts"
    using wf_db_live(1,2)[OF assms(1)] wf_db_distinct(1)[OF assms(1)] names
    by (auto simp: topics_wf_def topic_rows.mark_idents list.pred_map comp_def
        intro!: topic_rows.unique_live_mark topic_rows.all_consistent_mark)
  moreover have "topic_ids db = set (map tID ?ts)"
    unfolding topic_rows.mark_idents topic_ids_def ..
  ultimately show ?thesis
    using assms by (auto simp: soft_delete_topics_def Let_def intro!: wf_db_topics)
qed

lemma wf_soft_delete_subscriptions [wf_intros]:
  assumes "wf_db db" and "soft_delete_subscriptions now P db = Inr db'"
  shows "wf_db db'"
proof -
  let ?m = "update_mutation ''Subscription'' (Some now) True"
  let ?ss = "update_where P (mark_subscription ?m) (subscriptions db)"
  have names: "list_all (\<lambda>n. n \<noteq> []) (map sName ?ss)"
    using assms(1) unfolding sub_rows.names_mark by (simp add: wf_db_def subs_wf_def list_all_iff)
  have "subs_wf ?ss"
    using wf_db_live(3,4)[OF assms(1)] wf_db_distinct(2)[OF assms(1)] names
    by (auto simp: subs_wf_def sub_rows.mark_idents list.pred_map comp_def
        intro!: sub_rows.unique_live_mark sub_rows.all_consistent_mark)
  moreover have "list_all (sub_refs db) ?ss"
    using wf_db_refs(1,2)[OF assms(1)]
    by (auto simp: list_all_iff set_update_where sub_refs_def mark_subscription_def)
  moreover have "sub_ids db = set (map sID ?ss)"
    unfolding sub_rows.mark_idents sub_ids_def ..
  ultimately show ?thesis
    using assms by (auto simp: soft_delete_subscriptions_def Let_def intro!: wf_db_subscriptions)
qed

text \<open>
  The same for updates of the other columns of topics and subscriptions.
\<close>

definition keeps_topic :: "(topic \<Rightarrow> topic) \<Rightarrow> bool" where
  "keeps_topic f \<longleftrightarrow> (\<forall>t. tID (f t) = tID t \<and> tName (f t) = tName t \<and> tLive (f t) = tLive t \<and>
     tDeletedAt (f t) = tDeletedAt t)"

definition keeps_subscription :: "(subscription \<Rightarrow> subscription) \<Rightarrow> bool" where
  "keeps_subscription f \<longleftrightarrow> (\<forall>s. sID (f s) = sID s \<and> sName (f s) = sName s \<and> sLive (f s) = sLive s \<and>
     sDeletedAt (f s) = sDeletedAt s)"

lemma unique_live_update_where:
  assumes "\<And>r. nm (f r) = nm r" and "\<And>r. lv (f r) = lv r"
  shows "unique_live nm lv (update_where P f rs) \<longleftrightarrow> unique_live nm lv rs"
proof -
  have "map (\<lambda>r. (nm r, lv r)) (filter (\<lambda>r. lv r \<noteq> None) (update_where P f rs)) =
      map (\<lambda>r. (nm r, lv r)) (filter (\<lambda>r. lv r \<noteq> None) rs)"
    by (induction rs) (auto simp: assms)
  then show ?thesis by (simp add: unique_live_def)
qed

lemma all_consistent_update_where:
  assumes "\<And>r. del (f r) = del r" and "\<And>r. lv (f r) = lv r"
  shows "all_consistent lv del (update_where P f rs) \<longleftrightarrow> all_consistent lv del rs"
  by (induction rs) (auto simp: all_consistent_def assms)

lemma wf_update_topics [wf_intros]:
  assumes "wf_db db" and "update_topics P f db = Inr db'" and "keeps_topic f"
  shows "wf_db db'"
proof -
  let ?ts = "update_where P f (topics db)"
  have ids: "map tID ?ts = map tID (topics db)" and names: "map tName ?ts = map tName (topics db)"
    using assms(3) by (auto intro!: map_update_where simp: keeps_topic_def)
  have "list_all (\<lambda>n. n \<noteq> []) (map tName ?ts)"
    using assms(1) unfolding names by (simp add: wf_db_def topics_wf_def list_all_iff)
  with assms(1,3) ids have "topics_wf ?ts"
    by (auto simp: wf_db_def topics_wf_def keeps_topic_def unique_live_update_where
        all_consistent_update_where list.pred_map comp_def)
  moreover have "topic_ids db = set (map tID ?ts)" unfolding ids topic_ids_def ..
  ultimately show ?thesis
    using assms(1,2) by (auto simp: update_topics_def intro!: wf_db_topics)
qed

lemma wf_update_subscriptions [wf_intros]:
  assumes "wf_db db" and "update_subscriptions P f db = Inr db'" and "keeps_subscription f"
  shows "wf_db db'"
proof -
  let ?ss = "update_where P f (subscriptions db)"
  have ids: "map sID ?ss = map sID (subscriptions db)"
    and names: "map sName ?ss = map sName (subscriptions db)"
    using assms(3) by (auto intro!: map_update_where simp: keeps_subscription_def)
  have "list_all (\<lambda>n. n \<noteq> []) (map sName ?ss)"
    using assms(1) unfolding names by (simp add: wf_db_def subs_wf_def list_all_iff)
  with assms(1,3) ids have "subs_wf ?ss"
    by (auto simp: wf_db_def subs_wf_def keeps_subscription_def unique_live_update_where
        all_consistent_update_where list.pred_map comp_def)
  moreover have "sub_ids db = set (map sID ?ss)" unfolding ids sub_ids_def ..
  ultimately show ?thesis
    using assms(1,2)
    by (auto simp: update_subscriptions_def Let_def intro!: wf_db_subscriptions split: if_splits)
qed

end
