(* ===== verification/Notify.thy ===== *)
theory Notify
  imports Prelude "HOL-Library.AList" "HOL-Library.Multiset"
begin

text \<open>
  The in-process notifications of \<open>actions/notify.go\<close>: readers wait on a channel that is closed
  when something was published to a subscription, or when a topic or subscription was modified.

  A channel is the number it was made with, so a fresh channel is the successor of the last.
  The Go maps are association lists with distinct keys; a key that is absent and a key with an
  empty wait set are different, as they are in the code. A hook handle is a number too; what a
  hook does is its owner's code, the state records that it was called and with what. Closing a
  closed channel panics in Go, so the state records every close and the invariant says that no
  wait set holds a closed channel.
\<close>

type_synonym chan = nat
type_synonym modifyKey = "uuid \<times> string"

datatype hookCall = PublishHookCall nat uuid | TopicHookCall nat uuid string | SubHookCall nat uuid string

record modify_table =
  hooks :: "nat list"
  waiters :: "(modifyKey \<times> chan list) list"
  anyWaiters :: "chan list"

record notify_state =
  nextChan :: chan
  closed :: "chan list"
  hookLog :: "hookCall list"
  pubNotifyHooks :: "nat list"
  pubWaiters :: "(uuid \<times> chan list) list"
  topicModify :: modify_table
  subModify :: modify_table

definition empty_modify_table :: modify_table where
  "empty_modify_table = \<lparr>hooks = [], waiters = [], anyWaiters = []\<rparr>"

definition init_notify :: notify_state where
  "init_notify = \<lparr>nextChan = 0, closed = [], hookLog = [], pubNotifyHooks = [], pubWaiters = [],
     topicModify = empty_modify_table, subModify = empty_modify_table\<rparr>"

subsection \<open>Hooks\<close>

definition AddPublishHook :: "nat \<Rightarrow> notify_state \<Rightarrow> notify_state" where
  "AddPublishHook h st = st\<lparr>pubNotifyHooks := List.insert h (pubNotifyHooks st)\<rparr>"

definition RemovePublishHook :: "nat \<Rightarrow> notify_state \<Rightarrow> bool \<times> notify_state" where
  "RemovePublishHook h st =
     (h \<in> set (pubNotifyHooks st), st\<lparr>pubNotifyHooks := removeAll h (pubNotifyHooks st)\<rparr>)"

definition add_hook :: "nat \<Rightarrow> modify_table \<Rightarrow> modify_table" where
  "add_hook h t = t\<lparr>hooks := List.insert h (hooks t)\<rparr>"

definition remove_hook :: "nat \<Rightarrow> modify_table \<Rightarrow> modify_table" where
  "remove_hook h t = t\<lparr>hooks := removeAll h (hooks t)\<rparr>"

definition AddTopicModifyHook :: "nat \<Rightarrow> notify_state \<Rightarrow> notify_state" where
  "AddTopicModifyHook h st = st\<lparr>topicModify := add_hook h (topicModify st)\<rparr>"

definition RemoveTopicModifyHook :: "nat \<Rightarrow> notify_state \<Rightarrow> bool \<times> notify_state" where
  "RemoveTopicModifyHook h st =
     (h \<in> set (hooks (topicModify st)), st\<lparr>topicModify := remove_hook h (topicModify st)\<rparr>)"

definition AddSubscriptionModifyHook :: "nat \<Rightarrow> notify_state \<Rightarrow> notify_state" where
  "AddSubscriptionModifyHook h st = st\<lparr>subModify := add_hook h (subModify st)\<rparr>"

definition RemoveSubscriptionModifyHook :: "nat \<Rightarrow> notify_state \<Rightarrow> bool \<times> notify_state" where
  "RemoveSubscriptionModifyHook h st =
     (h \<in> set (hooks (subModify st)), st\<lparr>subModify := remove_hook h (subModify st)\<rparr>)"

subsection \<open>Wake-ups\<close>

text \<open>
  The loop over the subscriptions: it stops at the first one that has no entry. A wait set is
  emptied by the loop over it, so its entry is always removed.
\<close>

fun wake_subs :: "uuid list \<Rightarrow> (uuid \<times> chan list) list \<Rightarrow> chan list \<Rightarrow>
    (uuid \<times> chan list) list \<times> chan list" where
  "wake_subs [] ws cl = (ws, cl)"
| "wake_subs (s # ss) ws cl =
     (case map_of ws s of
        None \<Rightarrow> (ws, cl)
      | Some cs \<Rightarrow> wake_subs ss (AList.delete s ws) (cl @ cs))"

definition WakePublishListeners :: "bool \<Rightarrow> uuid list \<Rightarrow> notify_state \<Rightarrow> notify_state" where
  "WakePublishListeners onlyInternal subIDs st =
     (let st1 = (if onlyInternal then st else
        st\<lparr>hookLog := hookLog st @
          concat (map (\<lambda>h. map (PublishHookCall h) subIDs) (pubNotifyHooks st))\<rparr>)
      in if \<not> onlyInternal \<and> pubNotifyHooks st \<noteq> [] then st1
      else let (ws, cl) = wake_subs subIDs (pubWaiters st1) (closed st1)
        in st1\<lparr>pubWaiters := ws, closed := cl\<rparr>)"

fun wake_keys :: "modifyKey list \<Rightarrow> (modifyKey \<times> chan list) list \<Rightarrow> chan list \<Rightarrow>
    (modifyKey \<times> chan list) list \<times> chan list" where
  "wake_keys [] ws cl = (ws, cl)"
| "wake_keys (k # ks) ws cl =
     (case map_of ws k of
        None \<Rightarrow> wake_keys ks ws cl
      | Some cs \<Rightarrow> wake_keys ks (AList.delete k ws) (cl @ cs))"

definition wakeModifyListeners ::
    "(nat \<Rightarrow> uuid \<Rightarrow> string \<Rightarrow> hookCall) \<Rightarrow> modify_table \<Rightarrow> bool \<Rightarrow> uuid \<Rightarrow> string \<Rightarrow>
     hookCall list \<times> modify_table \<times> chan list" where
  "wakeModifyListeners call t onlyInternal i n =
     (let log = (if onlyInternal then [] else map (\<lambda>h. call h i n) (hooks t)) in
      if \<not> onlyInternal \<and> hooks t \<noteq> [] then (log, t, [])
      else let (ws, cl) = wake_keys [(i, n), (i, []), (0, n)] (waiters t) []
        in (log, t\<lparr>waiters := ws, anyWaiters := []\<rparr>, cl @ anyWaiters t))"

definition WakeTopicListeners :: "bool \<Rightarrow> uuid \<Rightarrow> string \<Rightarrow> notify_state \<Rightarrow> notify_state" where
  "WakeTopicListeners onlyInternal i n st =
     (let (log, t, cl) = wakeModifyListeners TopicHookCall (topicModify st) onlyInternal i n in
      st\<lparr>hookLog := hookLog st @ log, topicModify := t, closed := closed st @ cl\<rparr>)"

definition WakeSubscriptionListeners :: "bool \<Rightarrow> uuid \<Rightarrow> string \<Rightarrow> notify_state \<Rightarrow> notify_state" where
  "WakeSubscriptionListeners onlyInternal i n st =
     (let (log, t, cl) = wakeModifyListeners SubHookCall (subModify st) onlyInternal i n in
      st\<lparr>hookLog := hookLog st @ log, subModify := t, closed := closed st @ cl\<rparr>)"

definition WakeAllInternal :: "notify_state \<Rightarrow> notify_state" where
  "WakeAllInternal st =
     (let t = topicModify st; s = subModify st in
      st\<lparr>closed := closed st @ concat (map snd (pubWaiters st)) @ concat (map snd (waiters t)) @
           concat (map snd (waiters s)) @ anyWaiters t @ anyWaiters s,
         pubWaiters := [],
         topicModify := t\<lparr>waiters := [], anyWaiters := []\<rparr>,
         subModify := s\<lparr>waiters := [], anyWaiters := []\<rparr>\<rparr>)"

subsection \<open>Awaiters\<close>

definition add_waiter :: "'k \<Rightarrow> chan \<Rightarrow> ('k \<times> chan list) list \<Rightarrow> ('k \<times> chan list) list" where
  "add_waiter k c ws =
     AList.update k (case map_of ws k of None \<Rightarrow> [c] | Some cs \<Rightarrow> cs @ [c]) ws"

definition cancel_waiter :: "'k \<Rightarrow> chan \<Rightarrow> ('k \<times> chan list) list \<Rightarrow> ('k \<times> chan list) list" where
  "cancel_waiter k c ws =
     (case map_of ws k of None \<Rightarrow> ws | Some cs \<Rightarrow> AList.update k (removeAll c cs) ws)"

definition PublishAwaiter :: "uuid \<Rightarrow> notify_state \<Rightarrow> chan \<times> notify_state" where
  "PublishAwaiter subID st =
     (let c = nextChan st in
      (c, st\<lparr>nextChan := Suc c, pubWaiters := add_waiter subID c (pubWaiters st)\<rparr>))"

definition CancelPublishAwaiter :: "uuid \<Rightarrow> chan \<Rightarrow> notify_state \<Rightarrow> notify_state" where
  "CancelPublishAwaiter subID c st = st\<lparr>pubWaiters := cancel_waiter subID c (pubWaiters st)\<rparr>"

definition SubModifiedAwaiter :: "uuid \<Rightarrow> string \<Rightarrow> notify_state \<Rightarrow> chan \<times> notify_state" where
  "SubModifiedAwaiter i n st =
     (let c = nextChan st; t = subModify st in
      (c, st\<lparr>nextChan := Suc c, subModify := t\<lparr>waiters := add_waiter (i, n) c (waiters t)\<rparr>\<rparr>))"

definition CancelSubModifiedAwaiter :: "uuid \<Rightarrow> string \<Rightarrow> chan \<Rightarrow> notify_state \<Rightarrow> notify_state" where
  "CancelSubModifiedAwaiter i n c st =
     (let t = subModify st in st\<lparr>subModify := t\<lparr>waiters := cancel_waiter (i, n) c (waiters t)\<rparr>\<rparr>)"

definition AnySubModifiedAwaiter :: "notify_state \<Rightarrow> chan \<times> notify_state" where
  "AnySubModifiedAwaiter st =
     (let c = nextChan st; t = subModify st in
      (c, st\<lparr>nextChan := Suc c, subModify := t\<lparr>anyWaiters := anyWaiters t @ [c]\<rparr>\<rparr>))"

definition CancelAnySubModifiedAwaiter :: "chan \<Rightarrow> notify_state \<Rightarrow> notify_state" where
  "CancelAnySubModifiedAwaiter c st =
     (let t = subModify st in st\<lparr>subModify := t\<lparr>anyWaiters := removeAll c (anyWaiters t)\<rparr>\<rparr>)"

definition TopicModifiedAwaiter :: "uuid \<Rightarrow> string \<Rightarrow> notify_state \<Rightarrow> chan \<times> notify_state" where
  "TopicModifiedAwaiter i n st =
     (let c = nextChan st; t = topicModify st in
      (c, st\<lparr>nextChan := Suc c, topicModify := t\<lparr>waiters := add_waiter (i, n) c (waiters t)\<rparr>\<rparr>))"

definition CancelTopicModifiedAwaiter :: "uuid \<Rightarrow> string \<Rightarrow> chan \<Rightarrow> notify_state \<Rightarrow> notify_state" where
  "CancelTopicModifiedAwaiter i n c st =
     (let t = topicModify st in
      st\<lparr>topicModify := t\<lparr>waiters := cancel_waiter (i, n) c (waiters t)\<rparr>\<rparr>)"

definition AnyTopicModifiedAwaiter :: "notify_state \<Rightarrow> chan \<times> notify_state" where
  "AnyTopicModifiedAwaiter st =
     (let c = nextChan st; t = topicModify st in
      (c, st\<lparr>nextChan := Suc c, topicModify := t\<lparr>anyWaiters := anyWaiters t @ [c]\<rparr>\<rparr>))"

definition CancelAnyTopicModifiedAwaiter :: "chan \<Rightarrow> notify_state \<Rightarrow> notify_state" where
  "CancelAnyTopicModifiedAwaiter c st =
     (let t = topicModify st in st\<lparr>topicModify := t\<lparr>anyWaiters := removeAll c (anyWaiters t)\<rparr>\<rparr>)"

subsection \<open>The invariant: a channel waits once and is closed once\<close>

definition open_chans :: "('k \<times> chan list) list \<Rightarrow> chan list" where
  "open_chans ws = concat (map snd ws)"

definition table_chans :: "modify_table \<Rightarrow> chan list" where
  "table_chans t = open_chans (waiters t) @ anyWaiters t"

definition all_chans :: "notify_state \<Rightarrow> chan list" where
  "all_chans st = closed st @ open_chans (pubWaiters st) @ table_chans (topicModify st) @
     table_chans (subModify st)"

definition wf_notify :: "notify_state \<Rightarrow> bool" where
  "wf_notify st \<longleftrightarrow> distinct (map fst (pubWaiters st)) \<and> distinct (map fst (waiters (topicModify st))) \<and>
     distinct (map fst (waiters (subModify st))) \<and> distinct (all_chans st) \<and>
     (\<forall>c\<in>set (all_chans st). c < nextChan st)"

lemma open_chans_simps [simp]:
  "open_chans [] = []"
  "open_chans ((k, cs) # ws) = cs @ open_chans ws"
  by (simp_all add: open_chans_def)

lemma map_of_None_delete: "map_of ws k = None \<Longrightarrow> AList.delete k ws = ws"
  by (induction ws) auto

text \<open>Removing an entry removes its channels, and adding a waiter adds one channel.\<close>

lemma mset_open_delete:
  assumes "distinct (map fst ws)" and "map_of ws k = Some cs"
  shows "mset (open_chans (AList.delete k ws)) + mset cs = mset (open_chans ws)"
  using assms
proof (induction ws)
  case (Cons w ws)
  obtain k' cs' where w: "w = (k', cs')" by (cases w)
  show ?case
  proof (cases "k' = k")
    case True
    then have "AList.delete k ws = ws"
      using Cons.prems w by (intro map_of_None_delete) (auto simp: map_of_eq_None_iff)
    then show ?thesis using True Cons.prems w by simp
  next
    case False
    then show ?thesis using Cons w by (simp add: ac_simps)
  qed
qed simp

lemma mset_open_update:
  assumes "distinct (map fst ws)"
  shows "mset (open_chans (AList.update k cs ws)) + (case map_of ws k of None \<Rightarrow> {#} | Some cs' \<Rightarrow> mset cs')
    = mset (open_chans ws) + mset cs"
  using assms
proof (induction ws)
  case (Cons w ws)
  obtain k' cs' where w: "w = (k', cs')" by (cases w)
  show ?case
  proof (cases "k' = k")
    case True
    then show ?thesis using Cons.prems w by simp
  next
    case False
    then show ?thesis using Cons w by (simp add: ac_simps)
  qed
qed simp

lemma mset_add_waiter:
  assumes "distinct (map fst ws)"
  shows "mset (open_chans (add_waiter k c ws)) = add_mset c (mset (open_chans ws))"
  using mset_open_update[OF assms, of k "case map_of ws k of None \<Rightarrow> [c] | Some cs \<Rightarrow> cs @ [c]"]
  by (cases "map_of ws k") (simp_all add: add_waiter_def)

lemma mset_cancel_waiter:
  assumes "distinct (map fst ws)"
  shows "mset (open_chans (cancel_waiter k c ws)) \<subseteq># mset (open_chans ws)"
proof (cases "map_of ws k")
  case (Some cs)
  have "mset (open_chans (AList.update k (removeAll c cs) ws)) + mset cs
      \<subseteq># mset (open_chans ws) + mset cs"
    using mset_open_update[OF assms, of k "removeAll c cs"] Some
    by (simp add: removeAll_filter_not_eq)
  then show ?thesis using Some by (simp add: cancel_waiter_def)
qed (simp add: cancel_waiter_def)

lemma distinct_fst_waiters:
  assumes "distinct (map fst ws)"
  shows "distinct (map fst (AList.delete k ws))" and "distinct (map fst (AList.update k cs ws))"
    and "distinct (map fst (add_waiter k c ws))" and "distinct (map fst (cancel_waiter k c ws))"
  using assms
  by (auto simp: add_waiter_def cancel_waiter_def distinct_delete distinct_update split: option.splits)

lemma wake_subs_conserves:
  assumes "distinct (map fst ws)" and "wake_subs ss ws cl = (ws', cl')"
  shows "distinct (map fst ws') \<and> mset cl' + mset (open_chans ws') = mset cl + mset (open_chans ws)"
  using assms
proof (induction ss ws cl rule: wake_subs.induct)
  case (2 s ss ws cl)
  show ?case
  proof (cases "map_of ws s")
    case (Some cs)
    with 2 have "distinct (map fst ws') \<and>
        mset cl' + mset (open_chans ws') = mset (cl @ cs) + mset (open_chans (AList.delete s ws))"
      by (intro "2.IH") (simp_all add: distinct_fst_waiters)
    with mset_open_delete[OF 2(2) Some] show ?thesis by (simp add: ac_simps)
  qed (use 2 in simp)
qed simp

lemma wake_keys_conserves:
  assumes "distinct (map fst ws)" and "wake_keys ks ws cl = (ws', cl')"
  shows "distinct (map fst ws') \<and> mset cl' + mset (open_chans ws') = mset cl + mset (open_chans ws)"
  using assms
proof (induction ks ws cl rule: wake_keys.induct)
  case (2 k ks ws cl)
  show ?case
  proof (cases "map_of ws k")
    case (Some cs)
    with 2 have "distinct (map fst ws') \<and>
        mset cl' + mset (open_chans ws') = mset (cl @ cs) + mset (open_chans (AList.delete k ws))"
      by (intro "2.IH"(2)) (simp_all add: distinct_fst_waiters)
    with mset_open_delete[OF 2(3) Some] show ?thesis by (simp add: ac_simps)
  qed (use 2 in simp)
qed simp

lemma distinct_submset:
  assumes "mset ys \<subseteq># mset xs" and "distinct xs"
  shows "distinct ys"
proof -
  obtain zs where "mset xs = mset (ys @ zs)"
    using assms(1) by (metis ex_mset mset_append mset_subset_eq_exists_conv)
  then have "distinct (ys @ zs)" using assms(2) mset_eq_imp_distinct_iff by blast
  then show ?thesis by simp
qed

text \<open>Two states with the same channels, or the second with fewer, are equally well formed.\<close>

lemma wf_notify_fewer:
  assumes "wf_notify st" and "mset (all_chans st') \<subseteq># mset (all_chans st)"
    and "nextChan st \<le> nextChan st'"
    and "distinct (map fst (pubWaiters st'))" and "distinct (map fst (waiters (topicModify st')))"
    and "distinct (map fst (waiters (subModify st')))"
  shows "wf_notify st'"
proof -
  have "distinct (all_chans st')"
    using assms(1,2) by (auto simp: wf_notify_def intro: distinct_submset)
  moreover have "set (all_chans st') \<subseteq> set (all_chans st)"
    using assms(2) by (metis set_mset_mono set_mset_mset)
  ultimately show ?thesis using assms by (force simp: wf_notify_def)
qed

lemma wf_notify_fresh:
  assumes "wf_notify st" and "mset (all_chans st') = add_mset (nextChan st) (mset (all_chans st))"
    and "nextChan st' = Suc (nextChan st)"
    and "distinct (map fst (pubWaiters st'))" and "distinct (map fst (waiters (topicModify st')))"
    and "distinct (map fst (waiters (subModify st')))"
  shows "wf_notify st'"
proof -
  have eq: "mset (all_chans st') = mset (nextChan st # all_chans st)" using assms(2) by simp
  have s: "set (all_chans st') = insert (nextChan st) (set (all_chans st))"
    using mset_eq_setD[OF eq] by simp
  have d: "distinct (all_chans st') = distinct (nextChan st # all_chans st)"
    using eq by (rule mset_eq_imp_distinct_iff)
  show ?thesis using assms s d by (auto simp: wf_notify_def less_Suc_eq)
qed

lemma wakeModify_conserves:
  assumes "distinct (map fst (waiters t))" and "wakeModifyListeners call t oi i n = (log, t', cl)"
  shows "distinct (map fst (waiters t')) \<and> mset cl + mset (table_chans t') = mset (table_chans t)"
proof (cases "\<not> oi \<and> hooks t \<noteq> []")
  case False
  obtain ws cl' where w: "wake_keys [(i, n), (i, []), (0, n)] (waiters t) [] = (ws, cl')"
    by (meson surj_pair)
  with False assms(2) have "t' = t\<lparr>waiters := ws, anyWaiters := []\<rparr>" and "cl = cl' @ anyWaiters t"
    by (auto simp: wakeModifyListeners_def Let_def simp del: wake_keys.simps)
  with wake_keys_conserves[OF assms(1) w] show ?thesis by (simp add: table_chans_def ac_simps)
qed (use assms in \<open>auto simp: wakeModifyListeners_def Let_def\<close>)

lemma wf_WakePublishListeners [wf_intros]:
  assumes "wf_notify st"
  shows "wf_notify (WakePublishListeners oi subIDs st)"
proof -
  obtain ws cl where w: "wake_subs subIDs (pubWaiters st) (closed st) = (ws, cl)" by (meson surj_pair)
  have d: "distinct (map fst (pubWaiters st))" using assms by (simp add: wf_notify_def)
  from wake_subs_conserves[OF d w] show ?thesis
    using assms w
    by (intro wf_notify_fewer[OF assms])
      (auto simp: WakePublishListeners_def Let_def all_chans_def wf_notify_def union_assoc[symmetric])
qed

lemma wf_WakeTopicListeners [wf_intros]:
  assumes "wf_notify st"
  shows "wf_notify (WakeTopicListeners oi i n st)"
proof -
  obtain log t cl where w: "wakeModifyListeners TopicHookCall (topicModify st) oi i n = (log, t, cl)"
    by (rule prod_cases3)
  have "distinct (map fst (waiters (topicModify st)))" using assms by (simp add: wf_notify_def)
  from wakeModify_conserves[OF this w] show ?thesis
    using assms w
    by (intro wf_notify_fewer[OF assms])
      (auto simp: WakeTopicListeners_def Let_def all_chans_def wf_notify_def ac_simps)
qed

lemma wf_WakeSubscriptionListeners [wf_intros]:
  assumes "wf_notify st"
  shows "wf_notify (WakeSubscriptionListeners oi i n st)"
proof -
  obtain log t cl where w: "wakeModifyListeners SubHookCall (subModify st) oi i n = (log, t, cl)"
    by (rule prod_cases3)
  have "distinct (map fst (waiters (subModify st)))" using assms by (simp add: wf_notify_def)
  from wakeModify_conserves[OF this w] show ?thesis
    using assms w
    by (intro wf_notify_fewer[OF assms])
      (auto simp: WakeSubscriptionListeners_def Let_def all_chans_def wf_notify_def ac_simps)
qed

lemma wf_WakeAllInternal [wf_intros]:
  assumes "wf_notify st"
  shows "wf_notify (WakeAllInternal st)"
  using assms
  by (intro wf_notify_fewer[OF assms])
    (auto simp: WakeAllInternal_def Let_def all_chans_def table_chans_def open_chans_def wf_notify_def
      ac_simps)

lemma wf_PublishAwaiter [wf_intros]:
  "wf_notify st \<Longrightarrow> wf_notify (snd (PublishAwaiter s st))"
  by (rule wf_notify_fresh, assumption)
    (simp_all add: PublishAwaiter_def Let_def all_chans_def wf_notify_def mset_add_waiter
      distinct_fst_waiters)

lemma wf_SubModifiedAwaiter [wf_intros]:
  "wf_notify st \<Longrightarrow> wf_notify (snd (SubModifiedAwaiter i n st))"
  by (rule wf_notify_fresh, assumption)
    (simp_all add: SubModifiedAwaiter_def Let_def all_chans_def table_chans_def wf_notify_def
      mset_add_waiter distinct_fst_waiters)

lemma wf_TopicModifiedAwaiter [wf_intros]:
  "wf_notify st \<Longrightarrow> wf_notify (snd (TopicModifiedAwaiter i n st))"
  by (rule wf_notify_fresh, assumption)
    (simp_all add: TopicModifiedAwaiter_def Let_def all_chans_def table_chans_def wf_notify_def
      mset_add_waiter distinct_fst_waiters)

lemma wf_AnySubModifiedAwaiter [wf_intros]:
  "wf_notify st \<Longrightarrow> wf_notify (snd (AnySubModifiedAwaiter st))"
  by (rule wf_notify_fresh, assumption)
    (simp_all add: AnySubModifiedAwaiter_def Let_def all_chans_def table_chans_def wf_notify_def)

lemma wf_AnyTopicModifiedAwaiter [wf_intros]:
  "wf_notify st \<Longrightarrow> wf_notify (snd (AnyTopicModifiedAwaiter st))"
  by (rule wf_notify_fresh, assumption)
    (simp_all add: AnyTopicModifiedAwaiter_def Let_def all_chans_def table_chans_def wf_notify_def)

lemma wf_CancelPublishAwaiter [wf_intros]:
  "wf_notify st \<Longrightarrow> wf_notify (CancelPublishAwaiter s c st)"
  by (rule wf_notify_fewer, assumption)
    (simp_all add: CancelPublishAwaiter_def all_chans_def wf_notify_def mset_cancel_waiter
      distinct_fst_waiters)

lemma wf_CancelSubModifiedAwaiter [wf_intros]:
  "wf_notify st \<Longrightarrow> wf_notify (CancelSubModifiedAwaiter i n c st)"
  by (rule wf_notify_fewer, assumption)
    (simp_all add: CancelSubModifiedAwaiter_def Let_def all_chans_def table_chans_def wf_notify_def
      mset_cancel_waiter distinct_fst_waiters)

lemma wf_CancelTopicModifiedAwaiter [wf_intros]:
  "wf_notify st \<Longrightarrow> wf_notify (CancelTopicModifiedAwaiter i n c st)"
  by (rule wf_notify_fewer, assumption)
    (simp_all add: CancelTopicModifiedAwaiter_def Let_def all_chans_def table_chans_def wf_notify_def
      mset_cancel_waiter distinct_fst_waiters)

lemma wf_CancelAnySubModifiedAwaiter [wf_intros]:
  "wf_notify st \<Longrightarrow> wf_notify (CancelAnySubModifiedAwaiter c st)"
  by (rule wf_notify_fewer, assumption)
    (simp_all add: CancelAnySubModifiedAwaiter_def Let_def all_chans_def table_chans_def wf_notify_def
      removeAll_filter_not_eq)

lemma wf_CancelAnyTopicModifiedAwaiter [wf_intros]:
  "wf_notify st \<Longrightarrow> wf_notify (CancelAnyTopicModifiedAwaiter c st)"
  by (rule wf_notify_fewer, assumption)
    (simp_all add: CancelAnyTopicModifiedAwaiter_def Let_def all_chans_def table_chans_def wf_notify_def
      removeAll_filter_not_eq)

lemma wf_hooks [wf_intros]:
  assumes "wf_notify st"
  shows "wf_notify (AddPublishHook h st)" and "wf_notify (snd (RemovePublishHook h st))"
    and "wf_notify (AddTopicModifyHook h st)" and "wf_notify (snd (RemoveTopicModifyHook h st))"
    and "wf_notify (AddSubscriptionModifyHook h st)"
    and "wf_notify (snd (RemoveSubscriptionModifyHook h st))"
  using assms
  by (auto simp: wf_notify_def all_chans_def table_chans_def AddPublishHook_def RemovePublishHook_def
      AddTopicModifyHook_def RemoveTopicModifyHook_def AddSubscriptionModifyHook_def
      RemoveSubscriptionModifyHook_def add_hook_def remove_hook_def)

subsection \<open>Every sequence of calls\<close>

inductive notify_step :: "notify_state \<Rightarrow> notify_state \<Rightarrow> bool" where
  add_pub_hook: "notify_step st (AddPublishHook h st)"
| remove_pub_hook: "notify_step st (snd (RemovePublishHook h st))"
| add_topic_hook: "notify_step st (AddTopicModifyHook h st)"
| remove_topic_hook: "notify_step st (snd (RemoveTopicModifyHook h st))"
| add_sub_hook: "notify_step st (AddSubscriptionModifyHook h st)"
| remove_sub_hook: "notify_step st (snd (RemoveSubscriptionModifyHook h st))"
| wake_publish: "notify_step st (WakePublishListeners oi subIDs st)"
| wake_topic: "notify_step st (WakeTopicListeners oi i n st)"
| wake_sub: "notify_step st (WakeSubscriptionListeners oi i n st)"
| wake_all: "notify_step st (WakeAllInternal st)"
| await_publish: "notify_step st (snd (PublishAwaiter s st))"
| await_sub: "notify_step st (snd (SubModifiedAwaiter i n st))"
| await_any_sub: "notify_step st (snd (AnySubModifiedAwaiter st))"
| await_topic: "notify_step st (snd (TopicModifiedAwaiter i n st))"
| await_any_topic: "notify_step st (snd (AnyTopicModifiedAwaiter st))"
| cancel_publish: "notify_step st (CancelPublishAwaiter s c st)"
| cancel_sub: "notify_step st (CancelSubModifiedAwaiter i n c st)"
| cancel_any_sub: "notify_step st (CancelAnySubModifiedAwaiter c st)"
| cancel_topic: "notify_step st (CancelTopicModifiedAwaiter i n c st)"
| cancel_any_topic: "notify_step st (CancelAnyTopicModifiedAwaiter c st)"

lemma notify_step_wf: "notify_step st st' \<Longrightarrow> wf_notify st \<Longrightarrow> wf_notify st'"
  by (induction rule: notify_step.induct) (simp_all add: wf_intros)

lemma wf_init_notify: "wf_notify init_notify"
  by (simp add: init_notify_def wf_notify_def all_chans_def table_chans_def empty_modify_table_def)

lemma notify_steps_wf: "notify_step\<^sup>*\<^sup>* st st' \<Longrightarrow> wf_notify st \<Longrightarrow> wf_notify st'"
  by (induction rule: rtranclp_induct) (auto intro: notify_step_wf)

text \<open>
  Whatever sequence of registrations, cancellations and wake-ups is made, no
  channel is closed twice, no wait set holds a closed channel or the same channel as another
  wait set, and so no wake-up can panic on a closed channel.
\<close>

theorem notify_never_closes_twice:
  assumes "notify_step\<^sup>*\<^sup>* init_notify st"
  shows "distinct (closed st @ open_chans (pubWaiters st) @ table_chans (topicModify st) @
    table_chans (subModify st))"
  using notify_steps_wf[OF assms wf_init_notify] by (simp add: wf_notify_def all_chans_def)

theorem notify_never_closes_twice_witness:
  "distinct (closed (WakeAllInternal (snd (PublishAwaiter 7 init_notify))))"
proof -
  have "notify_step\<^sup>*\<^sup>* init_notify (WakeAllInternal (snd (PublishAwaiter 7 init_notify)))"
    by (meson await_publish r_into_rtranclp rtranclp.rtrancl_into_rtrancl wake_all)
  from notify_never_closes_twice[OF this] show ?thesis by simp
qed

lemma wake_subs_mono:
  "set cl \<subseteq> set (snd (wake_subs ss ws cl))"
  "map_of ws s = None \<Longrightarrow> map_of (fst (wake_subs ss ws cl)) s = None"
  by (induction ss ws cl rule: wake_subs.induct) (auto simp: delete_conv split: option.splits)

lemma wake_subs_reaches:
  assumes "distinct pre" and "\<forall>x\<in>set pre. map_of ws x \<noteq> None" and "s \<notin> set pre"
    and "map_of ws s = Some cs"
  shows "set cs \<subseteq> set (snd (wake_subs (pre @ s # post) ws cl))"
    and "map_of (fst (wake_subs (pre @ s # post) ws cl)) s = None"
  using assms
proof (induction pre arbitrary: ws cl)
  case Nil
  { case 1 with wake_subs_mono(1)[of "cl @ cs" post "AList.delete s ws"] show ?case by auto
  next
    case 2 then show ?case by (auto intro!: wake_subs_mono(2) simp: delete_conv) }
next
  case (Cons p pre)
  { case 1
    then have "\<forall>x\<in>set pre. map_of (AList.delete p ws) x \<noteq> None"
      and "map_of (AList.delete p ws) s = Some cs" by (auto simp: delete_conv)
    with 1 Cons.IH(1)[of "AList.delete p ws" "cl @ the (map_of ws p)"] show ?case by auto
  next
    case 2
    then have "\<forall>x\<in>set pre. map_of (AList.delete p ws) x \<noteq> None"
      and "map_of (AList.delete p ws) s = Some cs" by (auto simp: delete_conv)
    with 2 Cons.IH(2)[of "AList.delete p ws"] show ?case by auto }
qed

text \<open>
  A publish wakes the readers: when the notification is not handed to an external
  hook, every channel that waits on a listed subscription is closed and its wait set is gone,
  provided the subscriptions listed before it are distinct and have wait sets themselves.
\<close>

theorem WakePublishListeners_wakes:
  assumes "oi \<or> pubNotifyHooks st = []" and "distinct pre" and "s \<notin> set pre"
    and "\<forall>x\<in>set pre. map_of (pubWaiters st) x \<noteq> None"
    and "map_of (pubWaiters st) s = Some cs"
  shows "set cs \<subseteq> set (closed (WakePublishListeners oi (pre @ s # post) st)) \<and>
    map_of (pubWaiters (WakePublishListeners oi (pre @ s # post) st)) s = None"
  using wake_subs_reaches[OF assms(2,4,3,5), of post "closed st"] assms(1)
  by (auto simp: WakePublishListeners_def Let_def split: prod.splits)

theorem WakePublishListeners_wakes_witness:
  "closed (WakePublishListeners False [7] (snd (PublishAwaiter 7 init_notify))) = [0] \<and>
   set [0] \<subseteq> set (closed (WakePublishListeners False ([] @ 7 # []) (snd (PublishAwaiter 7 init_notify))))"
  using WakePublishListeners_wakes
    [of False "snd (PublishAwaiter 7 init_notify)" "[]" 7 "[0]" "[]"]
  by (simp add: PublishAwaiter_def init_notify_def add_waiter_def WakePublishListeners_def Let_def)

text \<open>
  The loop returns at the first subscription without a wait set, so a notification
  for several subscriptions can leave readers of the later ones waiting.
\<close>

theorem WakePublishListeners_stops_early:
  assumes "oi \<or> pubNotifyHooks st = []" and "map_of (pubWaiters st) s = None"
  shows "WakePublishListeners oi (s # ss) st = st"
  using assms by (auto simp: WakePublishListeners_def Let_def)

theorem WakePublishListeners_stops_early_witness:
  "closed (WakePublishListeners False [3, 7] (snd (PublishAwaiter 7 init_notify))) = []"
  using WakePublishListeners_stops_early[of False "snd (PublishAwaiter 7 init_notify)" 3 "[7]"]
  by (simp add: PublishAwaiter_def init_notify_def add_waiter_def)

end
