(* ===== verification/Tx.thy ===== *)
theory Tx
  imports Store Notify
begin

text \<open>
  Transactions: the commit hooks of \<open>ent/tx.go\<close>, the wrappers \<open>DoTx\<close>, \<open>DoCtxTx\<close> and
  \<open>DoCtxTxRetry\<close> of \<open>ent/client-addons.go\<close>, and the action timer of \<open>actions/action.go\<close>
  that reports an action's outcome when its transaction ends.

  An action runs inside a transaction: it either fails, or returns its results with the
  database it leaves behind and the commit hooks it registered, in the order it registered
  them. What the SQL driver answers to \<open>Begin\<close>, \<open>Commit\<close> and \<open>Rollback\<close> is an argument; a commit
  that is reported as failed may or may not have taken effect, as the driver says.
\<close>

datatype notice =
    NotifyPublish "uuid list"
  | WakeEach "uuid list"
  | NotifyModifyTopic uuid string
  | NotifyModifySubscription uuid string

type_synonym 'r exec = "database \<Rightarrow> ('r \<times> notice list \<times> database) res"

text \<open>What a registered hook does after the commit went through.\<close>

fun run_notice :: "notice \<Rightarrow> notify_state \<Rightarrow> notify_state" where
  "run_notice (NotifyPublish subIDs) st = WakePublishListeners False subIDs st"
| "run_notice (WakeEach subIDs) st = fold (\<lambda>s. WakePublishListeners False [s]) subIDs st"
| "run_notice (NotifyModifyTopic i n) st = WakeTopicListeners False i n st"
| "run_notice (NotifyModifySubscription i n) st =
     WakePublishListeners True [i] (WakeSubscriptionListeners False i n st)"

text \<open>
  \<open>Tx.Commit\<close> wraps the driver's commit in the hooks from the last to the first, so the first
  hook is the outermost one and its work after the commit comes last.
\<close>

fun run_commit :: "notice list \<Rightarrow> err option \<Rightarrow> notify_state \<Rightarrow> err option \<times> notify_state" where
  "run_commit [] commit st = (commit, st)"
| "run_commit (h # hs) commit st =
     (let (e, st') = run_commit hs commit st in
      if e = None then (None, run_notice h st') else (e, st'))"

record driver =
  drvBegin :: "err option"
  drvCommit :: "err option"
  drvCommitApplied :: bool
  drvRollback :: "err option"

definition good_driver :: driver where
  "good_driver = \<lparr>drvBegin = None, drvCommit = None, drvCommitApplied = True, drvRollback = None\<rparr>"

record world =
  wDb :: database
  wNotify :: notify_state

fun is_panic :: "err \<Rightarrow> bool" where
  "is_panic (Panic m) = True"
| "is_panic e = False"

definition finish_error :: "string \<Rightarrow> err option \<Rightarrow> err \<Rightarrow> err" where
  "finish_error opname e finalErr =
     (case e of
        None \<Rightarrow> finalErr
      | Some e' \<Rightarrow>
          if errors_Is e' ErrTxDone \<and>
             (errors_Is finalErr ContextCanceled \<or> errors_Is finalErr ContextDeadlineExceeded)
          then finalErr
          else During opname e' finalErr)"

definition DoTx :: "driver \<Rightarrow> 'r exec \<Rightarrow> world \<Rightarrow> 'r res \<times> world" where
  "DoTx drv inner w =
     (case drvBegin drv of
        Some e \<Rightarrow> (Inl e, w)
      | None \<Rightarrow>
          (case inner (wDb w) of
             Inl e \<Rightarrow>
               (Inl (if is_panic e then e else finish_error ''Rollback'' (drvRollback drv) e), w)
           | Inr (r, hs, db') \<Rightarrow>
               (let (e, st) = run_commit hs (drvCommit drv) (wNotify w);
                    w' = w\<lparr>wDb := (if drvCommit drv = None \<or> drvCommitApplied drv then db' else wDb w),
                      wNotify := st\<rparr>
                in (case e of None \<Rightarrow> Inr r | Some e' \<Rightarrow> Inl e', w'))))"

definition DoCtxTx :: "driver \<Rightarrow> ('c \<Rightarrow> 'r exec) \<Rightarrow> 'c \<Rightarrow> world \<Rightarrow> 'r res \<times> world" where
  "DoCtxTx drv inner ctx w = DoTx drv (inner ctx) w"

text \<open>
  The retry loop runs until the transaction succeeds or the caller does not want to retry. Each
  attempt has its own driver answers, and other transactions may have committed before it: the
  second component of an attempt is what they did to the world. \<open>None\<close> means that the listed
  attempts did not bring the loop to its end.
\<close>

fun DoCtxTxRetry :: "(err \<Rightarrow> bool) \<Rightarrow> 'r exec \<Rightarrow> (driver \<times> (world \<Rightarrow> world)) list \<Rightarrow> world \<Rightarrow>
    ('r res \<times> world) option" where
  "DoCtxTxRetry retry inner [] w = None"
| "DoCtxTxRetry retry inner ((drv, others) # rest) w =
     (case DoTx drv inner (others w) of
        (Inr r, w') \<Rightarrow> Some (Inr r, w')
      | (Inl e, w') \<Rightarrow>
          if retry e \<and> \<not> is_panic e then DoCtxTxRetry retry inner rest w' else Some (Inl e, w'))"

subsection \<open>The errors of PostgreSQL\<close>

text \<open>The codes of \<open>db/postgres/error-codes.go\<close>, and the predicate that callers give to the retry loop.\<close>

fun pg_code :: "err \<Rightarrow> string option" where
  "pg_code (PgError c) = Some c"
| "pg_code (During op e e') = pg_code e'"
| "pg_code e = None"

definition SerializationFailure :: string where "SerializationFailure = ''40001''"
definition DeadlockDetected :: string where "DeadlockDetected = ''40P01''"

definition IsPostgreSQLErrorCode :: "err \<Rightarrow> string \<Rightarrow> bool" where
  "IsPostgreSQLErrorCode e code \<longleftrightarrow> pg_code e = Some code"

definition RetryOnErrorCode :: "string \<Rightarrow> string list \<Rightarrow> err \<Rightarrow> bool" where
  "RetryOnErrorCode code codes e =
     (case pg_code e of None \<Rightarrow> False | Some c \<Rightarrow> list_ex (\<lambda>x. c = x) (code # codes))"

definition retry_deadlocks :: "err \<Rightarrow> bool" where
  "retry_deadlocks = RetryOnErrorCode DeadlockDetected []"

subsection \<open>Properties of transactions\<close>

lemma run_commit_result: "fst (run_commit hs c st) = c"
  by (induction hs) (auto split: prod.splits)

text \<open>The hooks run in the reverse of the order they were registered in.\<close>

lemma run_commit_ok: "run_commit hs None st = (None, fold run_notice (rev hs) st)"
  by (induction hs) auto

lemma run_commit_failed: "run_commit hs (Some e) st = (Some e, st)"
  by (induction hs) auto

lemma wf_fold_wake: "wf_notify st \<Longrightarrow> wf_notify (fold (\<lambda>s. WakePublishListeners False [s]) ss st)"
  by (induction ss arbitrary: st) (auto intro!: wf_intros)

lemma wf_run_notice [wf_intros]: "wf_notify st \<Longrightarrow> wf_notify (run_notice n st)"
  by (cases n) (auto intro!: wf_intros wf_fold_wake)

lemma wf_fold_notices: "wf_notify st \<Longrightarrow> wf_notify (fold run_notice ns st)"
  by (induction ns arbitrary: st) (auto intro!: wf_intros)

lemma DoTx_ok:
  assumes "drvBegin drv = None" and "drvCommit drv = None" and "inner (wDb w) = Inr (r, hs, db')"
  shows "DoTx drv inner w =
    (Inr r, w\<lparr>wDb := db', wNotify := fold run_notice (rev hs) (wNotify w)\<rparr>)"
  using assms by (simp add: DoTx_def run_commit_ok)

lemma DoTx_atomic_world:
  assumes "DoTx drv inner w = (Inl e, w')"
  shows "w' = w \<or> (drvCommit drv = Some e \<and> drvCommitApplied drv)"
  using assms by (cases "drvCommit drv")
    (auto simp: DoTx_def run_commit_ok run_commit_failed Let_def split: option.splits sum.splits if_splits)

text \<open>
  Property C12. A transaction is atomic: its error, or a panic inside it, leaves both the database
  and the listeners untouched unless the driver applied a commit that it reports as failed; when
  it succeeds, the database is the one the action built and exactly the hooks the action
  registered have run.
\<close>

theorem DoTx_atomic:
  "case DoTx drv inner w of
     (Inr r, w') \<Rightarrow> (\<exists>hs db'. inner (wDb w) = Inr (r, hs, db') \<and>
        w' = w\<lparr>wDb := db', wNotify := fold run_notice (rev hs) (wNotify w)\<rparr>)
   | (Inl e, w') \<Rightarrow> w' = w \<or>
       (drvCommit drv = Some e \<and> drvCommitApplied drv \<and>
        (\<exists>r hs db'. inner (wDb w) = Inr (r, hs, db') \<and> w' = w\<lparr>wDb := db'\<rparr>))"
  by (cases "drvCommit drv")
    (auto simp: DoTx_def run_commit_ok run_commit_failed split: option.splits sum.splits)

text \<open>
  The error of a failed action survives the rollback: whatever the driver answers,
  \<open>errors.Is\<close> finds the action's error in the one that \<open>DoTx\<close> returns.
\<close>

theorem DoTx_keeps_error:
  assumes "drvBegin drv = None" and "inner (wDb w) = Inl e" and "errors_Is e target"
  shows "\<exists>e'. DoTx drv inner w = (Inl e', w) \<and> errors_Is e' target"
  using assms by (auto simp: DoTx_def finish_error_def split: option.splits)

theorem DoTx_keeps_error_witness:
  "\<exists>e'. DoTx \<lparr>drvBegin = None, drvCommit = None, drvCommitApplied = True, drvRollback = Some ErrTxDone\<rparr>
      (\<lambda>db. Inl ErrNotFound :: (unit \<times> notice list \<times> database) res)
      \<lparr>wDb = empty_db, wNotify = init_notify\<rparr>
    = (Inl e', \<lparr>wDb = empty_db, wNotify = init_notify\<rparr>) \<and> errors_Is e' ErrNotFound"
  by (rule DoTx_keeps_error[where e = ErrNotFound]) simp_all

subsection \<open>The contract of an action\<close>

text \<open>
  What every action promises: run on a well-formed database it leaves a well-formed one. The
  wrappers then keep the world well formed, however often they retry and whatever other
  transactions that keep it do in between. \<open>ok\<close> is what the caller knows of the parameters.
\<close>

definition wf_world :: "world \<Rightarrow> bool" where
  "wf_world w \<longleftrightarrow> wf_db (wDb w) \<and> wf_notify (wNotify w)"

locale db_action =
  fixes act :: "'p \<Rightarrow> 'r exec" and ok :: "'p \<Rightarrow> bool"
  assumes act_wf: "ok p \<Longrightarrow> wf_db db \<Longrightarrow> act p db = Inr (r, ns, db') \<Longrightarrow> wf_db db'"
begin

lemma DoTx_wf:
  assumes "ok p" and "wf_world w"
  shows "wf_world (snd (DoTx drv (act p) w))"
proof (cases "drvBegin drv")
  case None
  show ?thesis
  proof (cases "act p (wDb w)")
    case (Inr x)
    obtain r ns db' where x: "x = (r, ns, db')" by (rule prod_cases3)
    with Inr None assms act_wf[OF assms(1), of "wDb w" r ns db'] show ?thesis
      by (cases "drvCommit drv")
        (auto simp: DoTx_def run_commit_ok run_commit_failed wf_world_def wf_fold_notices)
  qed (use assms None in \<open>simp add: DoTx_def\<close>)
qed (use assms in \<open>simp add: DoTx_def\<close>)

lemma DoCtxTxRetry_wf:
  assumes "ok p" and "wf_world w" and "\<And>a v. a \<in> set tries \<Longrightarrow> wf_world v \<Longrightarrow> wf_world (snd a v)"
    and "DoCtxTxRetry retry (act p) tries w = Some (res, w')"
  shows "wf_world w'"
  using assms(2-)
proof (induction tries arbitrary: w)
  case (Cons a tries)
  obtain drv others where a: "a = (drv, others)" by (cases a)
  have w: "wf_world (snd (DoTx drv (act p) (others w)))"
    using Cons.prems(1) Cons.prems(2)[of a w] a by (intro DoTx_wf[OF assms(1)]) simp
  obtain o' v where d: "DoTx drv (act p) (others w) = (o', v)" by (meson surj_pair)
  show ?case
  proof (cases o')
    case (Inl e)
    with Cons.prems(3) d a w show ?thesis
      using Cons.IH[of v] Cons.prems(2) by (auto split: if_splits)
  qed (use Cons.prems(3) d a w in auto)
qed simp

end

subsection \<open>The action timer\<close>

text \<open>
  \<open>startActionTimer\<close> registers a rollback hook and a commit hook; the action calls \<open>Succeeded\<close>
  or \<open>Failed\<close> and, when it returns, \<open>Ended\<close>. The timer reports once. Times are the readings of
  the clock at each call, \<open>None\<close> being the zero time.
\<close>

datatype outcome = OutcomeSuccess | OutcomeFailure | OutcomeCanceled

record actionTimer =
  atBegin :: time
  atEnd :: "time option"
  atSucceeded :: bool
  atReported :: bool
  atOnSuccess :: bool
  atObserved :: "(outcome \<times> duration) list"
  atCounted :: nat

definition startActionTimer :: "time \<Rightarrow> actionTimer" where
  "startActionTimer now = \<lparr>atBegin = now, atEnd = None, atSucceeded = False, atReported = False,
     atOnSuccess = False, atObserved = [], atCounted = 0\<rparr>"

definition Succeeded :: "time \<Rightarrow> bool \<Rightarrow> actionTimer \<Rightarrow> actionTimer" where
  "Succeeded now onSuccess at = at\<lparr>atEnd := Some now, atSucceeded := True, atOnSuccess := onSuccess\<rparr>"

definition Failed :: "time \<Rightarrow> actionTimer \<Rightarrow> actionTimer" where
  "Failed now at = at\<lparr>atEnd := Some now, atSucceeded := False\<rparr>"

definition Ended :: "time \<Rightarrow> actionTimer \<Rightarrow> actionTimer" where
  "Ended now at = (if atEnd at = None then at\<lparr>atEnd := Some now\<rparr> else at)"

definition ReportRollback :: "time \<Rightarrow> actionTimer \<Rightarrow> actionTimer" where
  "ReportRollback now at =
     (if atReported at then at
      else let at' = Ended now at;
               outc = (if atSucceeded at' then OutcomeCanceled else OutcomeFailure)
        in at'\<lparr>atObserved := atObserved at' @ [(outc, the (atEnd at') - atBegin at')],
             atReported := True\<rparr>)"

definition ReportCommit :: "time \<Rightarrow> actionTimer \<Rightarrow> actionTimer" where
  "ReportCommit now at =
     (if atReported at then at
      else let at' = Ended now at;
               outc = (if atSucceeded at' then OutcomeSuccess else OutcomeFailure)
        in at'\<lparr>atObserved := atObserved at' @ [(outc, the (atEnd at') - atBegin at')],
             atCounted := atCounted at' + (if atSucceeded at' \<and> atOnSuccess at' then 1 else 0),
             atReported := True\<rparr>)"

text \<open>How a transaction ends for the timer, as the two hooks have it.\<close>

datatype tx_end = RolledBack | CommitOk | CommitFailed

fun report :: "time \<Rightarrow> tx_end \<Rightarrow> actionTimer \<Rightarrow> actionTimer" where
  "report now RolledBack at = ReportRollback now at"
| "report now CommitOk at = ReportCommit now at"
| "report now CommitFailed at = ReportRollback now at"

lemma report_stuck: "atReported at \<Longrightarrow> report t e at = at"
  by (cases e) (simp_all add: ReportRollback_def ReportCommit_def)

text \<open>
  However the transaction of a finished action ends, and if further reports follow,
  the timer observes exactly one outcome: success, with the counter advanced once, if and only if
  the action succeeded and its commit went through; cancelled if it succeeded and the transaction
  did not commit; failure otherwise.
\<close>

theorem actionTimer_reports_once:
  "let at = Ended t2 ((if ok then Succeeded t1 True else id) (startActionTimer t0));
       at' = fold (\<lambda>(t, e). report t e) ((t3, e) # later) at
   in atObserved at' =
        [(if ok then (if e = CommitOk then OutcomeSuccess else OutcomeCanceled) else OutcomeFailure,
          (if ok then t1 else t2) - t0)] \<and>
      atCounted at' = (if ok \<and> e = CommitOk then 1 else 0)"
proof -
  have stuck: "fold (\<lambda>(t, e). report t e) later at = at" if "atReported at" for at
    using that by (induction later) (auto simp: report_stuck)
  show ?thesis
    by (cases e) (simp_all add: Let_def stuck ReportRollback_def ReportCommit_def Ended_def
        Succeeded_def startActionTimer_def)
qed

end
