(* ===== verification/Sample.thy ===== *)
theory Sample
  imports Store
begin

text \<open>
  A small concrete database on which the theorems of the development are instantiated: a topic
  with an ordered subscription that dead-letters to a second topic, which has a plain
  subscription of its own, two messages of one order key with their deliveries, and a snapshot.
\<close>

definition sample_topic :: topic where
  "sample_topic = \<lparr>tID = 1, tName = ''t'', tCreatedAt = 0, tLive = Some True, tDeletedAt = None,
     tLabels = Map.empty\<rparr>"

definition sample_dl_topic :: topic where
  "sample_dl_topic = \<lparr>tID = 2, tName = ''dl'', tCreatedAt = 0, tLive = Some True, tDeletedAt = None,
     tLabels = Map.empty\<rparr>"

definition sample_sub :: subscription where
  "sample_sub = \<lparr>sID = 11, sTopicID = 1, sName = ''s'', sCreatedAt = 0, sExpiresAt = 10 * hour,
     sLive = Some True, sDeletedAt = None, sTTL = 10 * hour, sMessageTTL = hour,
     sOrderedDelivery = True, sLabels = Map.empty, sMinBackoff = None, sMaxBackoff = None,
     sPushEndpoint = None, sMessageFilter = None, sMaxDeliveryAttempts = Some 2,
     sDeadLetterTopicID = Some 2, sDeliveryDelay = 0\<rparr>"

definition sample_dl_sub :: subscription where
  "sample_dl_sub = \<lparr>sID = 12, sTopicID = 2, sName = ''u'', sCreatedAt = 0, sExpiresAt = 10 * hour,
     sLive = Some True, sDeletedAt = None, sTTL = 10 * hour, sMessageTTL = hour,
     sOrderedDelivery = False, sLabels = Map.empty, sMinBackoff = None, sMaxBackoff = None,
     sPushEndpoint = None, sMessageFilter = None, sMaxDeliveryAttempts = None,
     sDeadLetterTopicID = None, sDeliveryDelay = 0\<rparr>"

definition sample_msg1 :: message where
  "sample_msg1 = \<lparr>mID = 21, mTopicID = 1, mPayload = ''one'', mAttributes = Map.empty,
     mPublishedAt = 10, mOrderKey = Some ''k''\<rparr>"

definition sample_msg2 :: message where
  "sample_msg2 = \<lparr>mID = 22, mTopicID = 1, mPayload = ''two'', mAttributes = Map.empty,
     mPublishedAt = 20, mOrderKey = Some ''k''\<rparr>"

definition sample_del1 :: delivery where
  "sample_del1 = \<lparr>dID = 31, dMessageID = 21, dSubscriptionID = 11, dPublishedAt = 10, dAttemptAt = 10,
     dLastAttemptedAt = None, dAttempts = 0, dCompletedAt = None, dExpiresAt = 10 + hour,
     dNotBeforeID = None\<rparr>"

definition sample_del2 :: delivery where
  "sample_del2 = \<lparr>dID = 32, dMessageID = 22, dSubscriptionID = 11, dPublishedAt = 20, dAttemptAt = 20,
     dLastAttemptedAt = None, dAttempts = 0, dCompletedAt = None, dExpiresAt = 20 + hour,
     dNotBeforeID = Some 31\<rparr>"

definition sample_snap :: snapshot where
  "sample_snap = \<lparr>nID = 41, nTopicID = 1, nName = ''n'', nCreatedAt = 5, nExpiresAt = hour,
     nLabels = Map.empty, nAckedMessagesBefore = 5, nAckedMessageIDs = []\<rparr>"

definition sample_db :: database where
  "sample_db = \<lparr>topics = [sample_topic, sample_dl_topic], subscriptions = [sample_sub, sample_dl_sub],
     messages = [sample_msg1, sample_msg2], deliveries = [sample_del1, sample_del2],
     snapshots = [sample_snap]\<rparr>"

lemmas sample_defs = sample_db_def sample_topic_def sample_dl_topic_def sample_sub_def
  sample_dl_sub_def sample_msg1_def sample_msg2_def sample_del1_def sample_del2_def sample_snap_def

lemma wf_sample_db: "wf_db sample_db"
  by (simp add: sample_defs wf_db_def topics_wf_def subs_wf_def snapshots_wf_def unique_live_def
      all_consistent_def sub_refs_def delivery_refs_def id_defs)

end
