(* ===== verification/Topics.thy ===== *)
theory Topics
  imports Tx Sample
begin

text \<open>
  The actions on topics: \<open>actions/create-topic.go\<close> and \<open>actions/delete-topic.go\<close>, with the
  error sentinels of \<open>actions/errors.go\<close>. A constructor that panics on bad parameters returns
  \<open>Panic\<close>; the identifier the create draws and the clock readings are arguments.
\<close>

fun isSqlDuplicateKeyError :: "err \<Rightarrow> bool" where
  "isSqlDuplicateKeyError UniqueViolation = True"
| "isSqlDuplicateKeyError (During op e e') = isSqlDuplicateKeyError e'"
| "isSqlDuplicateKeyError e = False"

definition live_topics :: "string \<Rightarrow> database \<Rightarrow> topic list" where
  "live_topics n db = filter (\<lambda>t. tName t = n \<and> tDeletedAt t = None) (topics db)"

subsection \<open>CreateTopic\<close>

record createTopicParams =
  ctName :: string
  ctLabels :: attrs

record createTopicResults =
  ctrID :: uuid

definition NewCreateTopic :: "createTopicParams \<Rightarrow> createTopicParams res" where
  "NewCreateTopic p =
     (if ctName p = [] then Inl (Panic ''topic must have a non-empty name'') else Inr p)"

definition CreateTopic_Execute :: "uuid \<Rightarrow> time \<Rightarrow> createTopicParams \<Rightarrow> createTopicResults exec" where
  "CreateTopic_Execute i now p db =
     (if live_topics (ctName p) db \<noteq> [] then Inl ErrExists
      else
        (case insert_topic \<lparr>tID = i, tName = ctName p, tCreatedAt = now, tLive = Some True,
             tDeletedAt = None, tLabels = ctLabels p\<rparr> db of
           Inl e \<Rightarrow> Inl (if isSqlDuplicateKeyError e then ErrExists else e)
         | Inr db' \<Rightarrow> Inr (\<lparr>ctrID = i\<rparr>, [NotifyModifyTopic i (ctName p)], db')))"

subsection \<open>DeleteTopic\<close>

record deleteTopicResults =
  dtrNumDeleted :: nat

definition DeleteTopic_Execute :: "time \<Rightarrow> string \<Rightarrow> deleteTopicResults exec" where
  "DeleteTopic_Execute now n db =
     (let ts = live_topics n db in
      if ts = [] then Inl ErrNotFound
      else let ids = map tID ts in
        bind_res (soft_delete_topics now (\<lambda>t. tID t \<in> set ids) db) (\<lambda>db1.
          Inr (\<lparr>dtrNumDeleted = count_where (\<lambda>t. tID t \<in> set ids) (topics db)\<rparr>,
            map (\<lambda>t. NotifyModifyTopic (tID t) (tName t)) ts,
            delete_snapshots (\<lambda>n. nTopicID n \<in> set ids) db1)))"

subsection \<open>Properties\<close>

lemma live_topics_le_1: "wf_db db \<Longrightarrow> length (live_topics n db) \<le> 1"
  unfolding live_topics_def using wf_db_live(1,2) by (rule topic_rows.live_row_unique)

lemma live_topics_singleton:
  assumes "wf_db db" and "t \<in> set (topics db)" and "tName t = n" and "tDeletedAt t = None"
  shows "live_topics n db = [t]"
proof -
  have "t \<in> set (live_topics n db)" using assms by (simp add: live_topics_def)
  with live_topics_le_1[OF assms(1), of n] show ?thesis by (cases "live_topics n db") auto
qed

lemma live_topics_empty_unique:
  assumes "wf_db db" and "live_topics n db = []"
  shows "unique_live tName tLive (topics db @ [t\<lparr>tName := n, tLive := Some True\<rparr>])"
  using wf_db_live(1,2)[OF assms(1)] assms(2)
  by (fastforce simp: unique_live_snoc live_topics_def filter_empty_conv all_consistent_def
      list_all_iff live_consistent_def)

lemma wf_CreateTopic [wf_intros]:
  assumes "wf_db db" and "CreateTopic_Execute i now p db = Inr (r, ns, db')"
  shows "wf_db db'"
  using assms
  by (auto simp: CreateTopic_Execute_def split: if_splits sum.splits intro: wf_insert_topic)

lemma wf_DeleteTopic [wf_intros]:
  assumes "wf_db db" and "DeleteTopic_Execute now n db = Inr (r, ns, db')"
  shows "wf_db db'"
  using assms
  by (auto simp: DeleteTopic_Execute_def Let_def bind_res_Inr_iff split: if_splits
      intro!: wf_delete_snapshots elim: wf_soft_delete_topics)

interpretation create_topic: db_action "\<lambda>(i, now, p). CreateTopic_Execute i now p" "\<lambda>_. True"
  by unfold_locales (auto intro: wf_intros)

interpretation delete_topic: db_action "\<lambda>(now, n). DeleteTopic_Execute now n" "\<lambda>_. True"
  by unfold_locales (auto intro: wf_intros)

lemma CreateTopic_ok:
  assumes "wf_db db" and "ctName p \<noteq> []" and "i \<notin> topic_ids db" and "live_topics (ctName p) db = []"
  shows "CreateTopic_Execute i now p db = Inr (\<lparr>ctrID = i\<rparr>, [NotifyModifyTopic i (ctName p)],
    db\<lparr>topics := topics db @ [\<lparr>tID = i, tName = ctName p, tCreatedAt = now, tLive = Some True,
      tDeletedAt = None, tLabels = ctLabels p\<rparr>]\<rparr>)"
proof -
  let ?t = "\<lparr>tID = i, tName = ctName p, tCreatedAt = now, tLive = Some True, tDeletedAt = None,
    tLabels = ctLabels p\<rparr>"
  have "insert_topic ?t db = Inr (db\<lparr>topics := topics db @ [?t]\<rparr>)"
    using live_topics_empty_unique[OF assms(1,4), of ?t] assms wf_db_distinct(1)[OF assms(1)]
    by (subst insert_topic_iff) auto
  then show ?thesis using assms(4) by (simp add: CreateTopic_Execute_def)
qed

text \<open>
  Creating a topic on a well-formed database, with a fresh identifier and a name
  that is not empty: it fails with \<open>ErrExists\<close> exactly when a topic of that name is live, and
  otherwise adds one live row, which is then the one the lookup by name finds, changes nothing
  else, and asks for one notification.
\<close>

theorem CreateTopic_correct:
  assumes "wf_db db" and "ctName p \<noteq> []" and "i \<notin> topic_ids db"
  shows "case CreateTopic_Execute i now p db of
      Inl e \<Rightarrow> e = ErrExists \<and> live_topics (ctName p) db \<noteq> []
    | Inr (r, ns, db') \<Rightarrow> live_topics (ctName p) db = [] \<and> ctrID r = i \<and>
        ns = [NotifyModifyTopic i (ctName p)] \<and>
        (\<exists>t. topics db' = topics db @ [t] \<and> live_topics (ctName p) db' = [t] \<and> tID t = i \<and>
          tLabels t = ctLabels p \<and> tCreatedAt t = now) \<and>
        db' = db\<lparr>topics := topics db'\<rparr> \<and>
        (\<forall>n. n \<noteq> ctName p \<longrightarrow> live_topics n db' = live_topics n db)"
proof (cases "live_topics (ctName p) db = []")
  case True
  from CreateTopic_ok[OF assms True, of now] True show ?thesis by (auto simp: live_topics_def)
next
  case False
  then show ?thesis by (simp add: CreateTopic_Execute_def)
qed

theorem CreateTopic_correct_witness:
  "\<exists>r db'. CreateTopic_Execute 5 100 \<lparr>ctName = ''t'', ctLabels = Map.empty\<rparr> empty_db =
     Inr (r, [NotifyModifyTopic 5 ''t''], db') \<and> map tID (live_topics ''t'' db') = [5]"
  using CreateTopic_correct[of empty_db "\<lparr>ctName = ''t'', ctLabels = Map.empty\<rparr>" 5 100] wf_empty_db
  by (auto simp: empty_db_def topic_ids_def live_topics_def split: sum.splits prod.splits)

lemma DeleteTopic_eq:
  assumes "wf_db db" and "live_topics n db = [t]"
  shows "DeleteTopic_Execute now n db = Inr (\<lparr>dtrNumDeleted = 1\<rparr>, [NotifyModifyTopic (tID t) n],
    db\<lparr>topics := update_where (\<lambda>x. tID x = tID t) (\<lambda>x. x\<lparr>tLive := None, tDeletedAt := Some now\<rparr>) (topics db),
       snapshots := delete_where (\<lambda>s. nTopicID s = tID t) (snapshots db)\<rparr>)"
proof -
  have t: "t \<in> set (topics db)" "tName t = n"
    using assms(2) by (auto simp: live_topics_def dest: filter_eq_ConsD)
  have "filter (\<lambda>x. tID x = tID t) (topics db) = [t]"
    using wf_db_distinct(1)[OF assms(1)] t(1) by (rule filter_key_eq)
  then show ?thesis
    using assms(2) t(2)
    by (simp add: DeleteTopic_Execute_def soft_delete_topics_eq delete_snapshots_def count_where_def)
qed

text \<open>
  Deleting a topic of a well-formed database: it fails with \<open>ErrNotFound\<close> exactly
  when no topic of that name is live, and otherwise marks that one row as deleted, removes the
  snapshots of the topic and nothing else, so that the name is free again while every other
  name still resolves as before.
\<close>

theorem DeleteTopic_correct:
  assumes "wf_db db"
  shows "case DeleteTopic_Execute now n db of
      Inl e \<Rightarrow> e = ErrNotFound \<and> live_topics n db = []
    | Inr (r, ns, db') \<Rightarrow> (\<exists>t. live_topics n db = [t] \<and> dtrNumDeleted r = 1 \<and>
        ns = [NotifyModifyTopic (tID t) n] \<and> live_topics n db' = [] \<and>
        (\<forall>m. m \<noteq> n \<longrightarrow> live_topics m db' = live_topics m db) \<and>
        snapshots db' = filter (\<lambda>s. nTopicID s \<noteq> tID t) (snapshots db) \<and>
        map tID (topics db') = map tID (topics db) \<and>
        subscriptions db' = subscriptions db \<and> messages db' = messages db \<and>
        deliveries db' = deliveries db)"
proof (cases "live_topics n db")
  case Nil
  then show ?thesis by (simp add: DeleteTopic_Execute_def)
next
  case (Cons t ts)
  with live_topics_le_1[OF assms, of n] have one: "live_topics n db = [t]" by simp
  then have t: "t \<in> set (topics db)" "tName t = n"
    by (auto simp: live_topics_def dest: filter_eq_ConsD)
  let ?f = "\<lambda>x. x\<lparr>tLive := None, tDeletedAt := Some now\<rparr>"
  let ?ts = "update_where (\<lambda>x. tID x = tID t) ?f (topics db)"
  have same: "x = t" if "x \<in> set (topics db)" "tID x = tID t" for x
    using wf_db_distinct(1)[OF assms] that t(1) by (auto dest: distinct_map_eqD)
  have "filter (\<lambda>x. tName x = n \<and> tDeletedAt x = None) ?ts = []"
    using one by (auto simp: filter_empty_conv set_update_where live_topics_def
        dest!: arg_cong[of _ _ set])
  moreover have "filter (\<lambda>x. tName x = m \<and> tDeletedAt x = None) ?ts =
      filter (\<lambda>x. tName x = m \<and> tDeletedAt x = None) (topics db)" if "m \<noteq> n" for m
    using same t(2) that by (intro filter_update_where_other) auto
  moreover have "map tID ?ts = map tID (topics db)" by (rule map_update_where) simp
  ultimately show ?thesis
    using DeleteTopic_eq[OF assms one, of now] one
    by (auto simp: live_topics_def delete_where_def)
qed

theorem DeleteTopic_correct_witness:
  "\<exists>r db'. DeleteTopic_Execute 100 ''t'' sample_db = Inr (r, [NotifyModifyTopic 1 ''t''], db') \<and>
     live_topics ''t'' db' = [] \<and> snapshots db' = []"
  using DeleteTopic_correct[OF wf_sample_db, where now = 100 and n = "''t''"]
  by (auto simp: live_topics_def sample_defs split: sum.splits prod.splits)

end
