(* ===== verification/MessageFilter.thy ===== *)
theory MessageFilter
  imports Prelude
begin

text \<open>
  Message filters, the package \<open>filter\<close>: the syntax tree of \<open>grammar.go\<close>, its evaluation on a
  message's attributes (\<open>evaluate.go\<close>) and its printing (\<open>as-filter.go\<close>). The parser is built
  from the struct tags by a third-party package; the components that parse a filter take it as
  an argument.

  A pointer that may be nil and a slice that may be nil are options, so every branch the code
  takes on a partially filled tree is a branch here: the errors it returns are values of
  \<open>InvalidFilter\<close>, and the call of a method that reads through a nil pointer is \<open>Panic\<close>. A
  character of a string stands for a code point up to 255, for which the tables of the package
  \<open>unicode\<close> are written out.
\<close>

type_synonym AttributeOperator = string
type_synonym AttributePredicate = string

abbreviation OpEqual :: AttributeOperator where "OpEqual \<equiv> ''=''"
abbreviation OpNotEqual :: AttributeOperator where "OpNotEqual \<equiv> ''!=''"
abbreviation PredicateHasPrefix :: AttributePredicate where "PredicateHasPrefix \<equiv> ''hasPrefix''"

record hasAttribute =
  haName :: string

record hasAttributeValue =
  hvName :: string
  hvOp :: AttributeOperator
  hvValue :: string

record hasAttributePredicate =
  hpPredicate :: AttributePredicate
  hpName :: string
  hpValue :: string

record basicExpression =
  beHas :: "hasAttribute option"
  beValue :: "hasAttributeValue option"
  bePredicate :: "hasAttributePredicate option"

datatype condition =
    Condition "cterm option" "cterm option list option" "cterm option list option"
and cterm =
    Term bool "basicExpression option" "condition option"

subsection \<open>Evaluation\<close>

definition nil_deref :: err where
  "nil_deref = Panic ''invalid memory address or nil pointer dereference''"

definition HasAttribute_Evaluate :: "hasAttribute \<Rightarrow> attrs \<Rightarrow> bool res" where
  "HasAttribute_Evaluate e as = Inr (as (haName e) \<noteq> None)"

definition HasAttributeValue_Evaluate :: "hasAttributeValue \<Rightarrow> attrs \<Rightarrow> bool res" where
  "HasAttributeValue_Evaluate e as =
     (case as (hvName e) of
        None \<Rightarrow> Inr False
      | Some v \<Rightarrow>
          if hvOp e = OpEqual then Inr (v = hvValue e)
          else if hvOp e = OpNotEqual then Inr (v \<noteq> hvValue e)
          else Inl (InvalidFilter (''invalid Op '' @ hvOp e)))"

definition HasAttributePredicate_Evaluate :: "hasAttributePredicate \<Rightarrow> attrs \<Rightarrow> bool res" where
  "HasAttributePredicate_Evaluate e as =
     (case as (hpName e) of
        None \<Rightarrow> Inr False
      | Some v \<Rightarrow>
          if hpPredicate e = PredicateHasPrefix then Inr (prefix (hpValue e) v)
          else Inl (InvalidFilter (''invalid predicate '' @ hpPredicate e)))"

definition BasicExpression_Evaluate :: "basicExpression \<Rightarrow> attrs \<Rightarrow> bool res" where
  "BasicExpression_Evaluate e as =
     (case beHas e of Some h \<Rightarrow> HasAttribute_Evaluate h as | None \<Rightarrow>
      (case beValue e of Some v \<Rightarrow> HasAttributeValue_Evaluate v as | None \<Rightarrow>
       (case bePredicate e of Some p \<Rightarrow> HasAttributePredicate_Evaluate p as
        | None \<Rightarrow> Inl (InvalidFilter ''unpopulated BasicExpression''))))"

fun Condition_Evaluate :: "condition \<Rightarrow> attrs \<Rightarrow> bool res"
  and Term_Evaluate :: "cterm option \<Rightarrow> attrs \<Rightarrow> bool res"
  and andTerms :: "attrs \<Rightarrow> cterm option list \<Rightarrow> bool res"
  and orTerms :: "attrs \<Rightarrow> cterm option list \<Rightarrow> bool res" where
  "Condition_Evaluate (Condition t And Or) as =
     bind_res (Term_Evaluate t as) (\<lambda>result.
       (case And of
          Some ts \<Rightarrow> if result then andTerms as ts else Inr result
        | None \<Rightarrow>
            (case Or of
               Some ts \<Rightarrow> if \<not> result then orTerms as ts else Inr result
             | None \<Rightarrow> Inr result)))"
| "Term_Evaluate None as = Inl nil_deref"
| "Term_Evaluate (Some (Term neg basic sub)) as =
     (case basic of
        Some e \<Rightarrow> bind_res (BasicExpression_Evaluate e as) (\<lambda>result. Inr (result \<noteq> neg))
      | None \<Rightarrow>
          (case sub of
             Some c \<Rightarrow> bind_res (Condition_Evaluate c as) (\<lambda>result. Inr (result \<noteq> neg))
           | None \<Rightarrow> Inl (InvalidFilter ''unpopulated Term'')))"
| "andTerms as [] = Inl (InvalidFilter ''AND requires a non-empty term list'')"
| "andTerms as (t # ts) =
     bind_res (Term_Evaluate t as) (\<lambda>result.
       if \<not> result \<or> ts = [] then Inr result else andTerms as ts)"
| "orTerms as [] = Inl (InvalidFilter ''OR requires a non-empty term list'')"
| "orTerms as (t # ts) =
     bind_res (Term_Evaluate t as) (\<lambda>result.
       if result \<or> ts = [] then Inr result else orTerms as ts)"

subsection \<open>What a filter means\<close>

text \<open>
  The populated trees are the ones the grammar can produce. On them a filter is a boolean
  expression over three kinds of atoms.
\<close>

definition wf_basic :: "basicExpression \<Rightarrow> bool" where
  "wf_basic e \<longleftrightarrow>
     (case (beHas e, beValue e, bePredicate e) of
        (Some h, None, None) \<Rightarrow> True
      | (None, Some v, None) \<Rightarrow> hvOp v = OpEqual \<or> hvOp v = OpNotEqual
      | (None, None, Some p) \<Rightarrow> hpPredicate p = PredicateHasPrefix
      | _ \<Rightarrow> False)"

fun wf_condition :: "condition \<Rightarrow> bool"
  and wf_term :: "cterm option \<Rightarrow> bool"
  and wf_terms :: "cterm option list \<Rightarrow> bool" where
  "wf_condition (Condition t And Or) \<longleftrightarrow> wf_term t \<and>
     (case (And, Or) of
        (None, None) \<Rightarrow> True
      | (Some ts, None) \<Rightarrow> ts \<noteq> [] \<and> wf_terms ts
      | (None, Some ts) \<Rightarrow> ts \<noteq> [] \<and> wf_terms ts
      | (Some _, Some _) \<Rightarrow> False)"
| "wf_term None \<longleftrightarrow> False"
| "wf_term (Some (Term n b s)) \<longleftrightarrow>
     (case (b, s) of
        (Some e, None) \<Rightarrow> wf_basic e
      | (None, Some c) \<Rightarrow> wf_condition c
      | _ \<Rightarrow> False)"
| "wf_terms [] \<longleftrightarrow> True"
| "wf_terms (t # ts) \<longleftrightarrow> wf_term t \<and> wf_terms ts"

definition sem_basic :: "attrs \<Rightarrow> basicExpression \<Rightarrow> bool" where
  "sem_basic as e \<longleftrightarrow>
     (\<exists>h. beHas e = Some h \<and> haName h \<in> dom as) \<or>
     (\<exists>v x. beValue e = Some v \<and> as (hvName v) = Some x \<and> (x = hvValue v) = (hvOp v = OpEqual)) \<or>
     (\<exists>p x. bePredicate e = Some p \<and> as (hpName p) = Some x \<and> (\<exists>rest. x = hpValue p @ rest))"

fun sem_condition :: "attrs \<Rightarrow> condition \<Rightarrow> bool"
  and sem_term :: "attrs \<Rightarrow> cterm option \<Rightarrow> bool"
  and sem_all :: "attrs \<Rightarrow> cterm option list \<Rightarrow> bool"
  and sem_ex :: "attrs \<Rightarrow> cterm option list \<Rightarrow> bool" where
  "sem_condition as (Condition t And Or) \<longleftrightarrow>
     (case And of
        Some ts \<Rightarrow> sem_term as t \<and> sem_all as ts
      | None \<Rightarrow> (case Or of Some ts \<Rightarrow> sem_term as t \<or> sem_ex as ts | None \<Rightarrow> sem_term as t))"
| "sem_term as None \<longleftrightarrow> False"
| "sem_term as (Some (Term n b s)) \<longleftrightarrow>
     (case b of Some e \<Rightarrow> sem_basic as e | None \<Rightarrow>
        (case s of Some c \<Rightarrow> sem_condition as c | None \<Rightarrow> False)) \<noteq> n"
| "sem_all as [] \<longleftrightarrow> True"
| "sem_all as (t # ts) \<longleftrightarrow> sem_term as t \<and> sem_all as ts"
| "sem_ex as [] \<longleftrightarrow> False"
| "sem_ex as (t # ts) \<longleftrightarrow> sem_term as t \<or> sem_ex as ts"

lemma BasicExpression_Evaluate_sem:
  "wf_basic e \<Longrightarrow> BasicExpression_Evaluate e as = Inr (sem_basic as e)"
  by (auto simp: wf_basic_def BasicExpression_Evaluate_def sem_basic_def HasAttribute_Evaluate_def
      HasAttributeValue_Evaluate_def HasAttributePredicate_Evaluate_def prefix_def domIff
      split: option.splits)

lemma Evaluate_sem:
  "wf_condition c \<Longrightarrow> Condition_Evaluate c as = Inr (sem_condition as c)"
  "wf_term t \<Longrightarrow> Term_Evaluate t as = Inr (sem_term as t)"
  "wf_terms ts \<Longrightarrow> ts \<noteq> [] \<Longrightarrow> andTerms as ts = Inr (sem_all as ts)"
  "wf_terms ts \<Longrightarrow> ts \<noteq> [] \<Longrightarrow> orTerms as ts = Inr (sem_ex as ts)"
proof (induction c as and t as and as ts and as ts
    rule: Condition_Evaluate_Term_Evaluate_andTerms_orTerms.induct)
  case (1 t And Or as)
  then show ?case by (auto split: option.splits)
next
  case (3 n b s as)
  then show ?case by (auto simp: BasicExpression_Evaluate_sem split: option.splits)
next
  case (5 as t ts)
  then show ?case by (cases "ts = []") auto
next
  case (7 as t ts)
  then show ?case by (cases "ts = []") auto
qed simp_all

text \<open>
  Property C30. Evaluating a filter never fails on a tree that the grammar can produce, and its
  value is the boolean value of the expression: the short-circuit loops compute the conjunction
  or disjunction of all terms, and an attribute that is absent satisfies neither \<open>=\<close> nor \<open>!=\<close>
  nor a prefix.
\<close>

theorem filter_Evaluate_sem:
  assumes "wf_condition c"
  shows "Condition_Evaluate c as = Inr (sem_condition as c)"
  using Evaluate_sem(1)[OF assms] .

definition example_filter :: condition where
  "example_filter = Condition
     (Some (Term False (Some \<lparr>beHas = Some \<lparr>haName = ''a''\<rparr>, beValue = None, bePredicate = None\<rparr>) None))
     (Some [Some (Term True (Some \<lparr>beHas = None,
        beValue = Some \<lparr>hvName = ''b'', hvOp = ''='', hvValue = ''x''\<rparr>, bePredicate = None\<rparr>) None)])
     None"

theorem filter_Evaluate_sem_witness:
  "Condition_Evaluate example_filter [''a'' \<mapsto> ''1'', ''b'' \<mapsto> ''y''] =
     Inr (sem_condition [''a'' \<mapsto> ''1'', ''b'' \<mapsto> ''y''] example_filter) \<and>
   sem_condition [''a'' \<mapsto> ''1'', ''b'' \<mapsto> ''y''] example_filter"
proof -
  have "wf_condition example_filter" by (simp add: example_filter_def wf_basic_def)
  from filter_Evaluate_sem[OF this] show ?thesis
    by (simp add: example_filter_def sem_basic_def)
qed

subsection \<open>Printing\<close>

text \<open>
  \<open>strconv.Quote\<close>: a printable character stands for itself, apart from the quote and the
  backslash; the usual control characters have short escapes, the other ones below 128 a two
  digit and the rest a four digit hexadecimal escape.
\<close>

definition hexdigit :: "nat \<Rightarrow> char" where
  "hexdigit n = char_of (if n < 10 then 48 + n else 87 + n)"

definition unicode_IsPrint :: "nat \<Rightarrow> bool" where
  "unicode_IsPrint r \<longleftrightarrow> (0x20 \<le> r \<and> r < 0x7F) \<or> (0xA1 \<le> r \<and> r \<noteq> 0xAD)"

definition unicode_IsLetter :: "nat \<Rightarrow> bool" where
  "unicode_IsLetter r \<longleftrightarrow> (65 \<le> r \<and> r \<le> 90) \<or> (97 \<le> r \<and> r \<le> 122) \<or> r \<in> {0xAA, 0xB5, 0xBA} \<or>
     (0xC0 \<le> r \<and> r \<noteq> 0xD7 \<and> r \<noteq> 0xF7)"

definition unicode_IsDigit :: "nat \<Rightarrow> bool" where
  "unicode_IsDigit r \<longleftrightarrow> 48 \<le> r \<and> r \<le> 57"

definition quote_char :: "char \<Rightarrow> string" where
  "quote_char c =
     (let r = (of_char c :: nat); bs = CHR 0x5C in
      if c = CHR 0x22 \<or> c = bs then [bs, c]
      else if unicode_IsPrint r then [c]
      else if r = 7 then [bs, CHR ''a'']
      else if r = 8 then [bs, CHR ''b'']
      else if r = 12 then [bs, CHR ''f'']
      else if r = 10 then [bs, CHR ''n'']
      else if r = 13 then [bs, CHR ''r'']
      else if r = 9 then [bs, CHR ''t'']
      else if r = 11 then [bs, CHR ''v'']
      else if r < 0x20 \<or> r = 0x7F then [bs, CHR ''x'', hexdigit (r div 16), hexdigit (r mod 16)]
      else [bs, CHR ''u'', CHR ''0'', CHR ''0'', hexdigit (r div 16), hexdigit (r mod 16)])"

definition strconv_Quote :: "string \<Rightarrow> string" where
  "strconv_Quote s = CHR 0x22 # concat (map quote_char s) @ [CHR 0x22]"

definition formatAttrName :: "string \<Rightarrow> string" where
  "formatAttrName name =
     (if \<forall>(i, ch) \<in> set (enumerate 0 name).
           ch = CHR ''_'' \<or> unicode_IsLetter (of_char ch) \<or> (unicode_IsDigit (of_char ch) \<and> i > 0)
      then name else strconv_Quote name)"

text \<open>
  The printers append to a writer. The writers the code uses do not fail, so what is printed is
  the text appended; an error of a printer is one the code raises itself.
\<close>

definition HasAttribute_AsFilter :: "hasAttribute \<Rightarrow> string" where
  "HasAttribute_AsFilter e = ''attributes:'' @ formatAttrName (haName e)"

definition HasAttributeValue_AsFilter :: "hasAttributeValue \<Rightarrow> string" where
  "HasAttributeValue_AsFilter e =
     ''attributes.'' @ formatAttrName (hvName e) @ hvOp e @ strconv_Quote (hvValue e)"

definition HasAttributePredicate_AsFilter :: "hasAttributePredicate \<Rightarrow> string" where
  "HasAttributePredicate_AsFilter e =
     hpPredicate e @ ''(attributes.'' @ formatAttrName (hpName e) @ '','' @
     strconv_Quote (hpValue e) @ '')''"

definition BasicExpression_AsFilter :: "basicExpression \<Rightarrow> string res" where
  "BasicExpression_AsFilter e =
     (case beHas e of Some h \<Rightarrow> Inr (HasAttribute_AsFilter h) | None \<Rightarrow>
      (case beValue e of Some v \<Rightarrow> Inr (HasAttributeValue_AsFilter v) | None \<Rightarrow>
       (case bePredicate e of Some p \<Rightarrow> Inr (HasAttributePredicate_AsFilter p)
        | None \<Rightarrow> Inl (InvalidFilter ''unpopulated BasicExpression''))))"

fun Condition_AsFilter :: "condition \<Rightarrow> string res"
  and Term_AsFilter :: "cterm option \<Rightarrow> string res"
  and append_each :: "string \<Rightarrow> cterm option list \<Rightarrow> string res" where
  "Condition_AsFilter (Condition t And Or) =
     bind_res (Term_AsFilter t) (\<lambda>w.
       case And of
         Some ts \<Rightarrow> if ts = [] then Inl (InvalidFilter ''unpopulated AND sequence'')
           else bind_res (append_each ''AND'' ts) (\<lambda>w'. Inr (w @ w'))
       | None \<Rightarrow>
           (case Or of
              Some ts \<Rightarrow> if ts = [] then Inl (InvalidFilter ''unpopulated OR sequence'')
                else bind_res (append_each ''OR'' ts) (\<lambda>w'. Inr (w @ w'))
            | None \<Rightarrow> Inr w))"
| "Term_AsFilter None = Inl nil_deref"
| "Term_AsFilter (Some (Term neg basic sub)) =
     bind_res
       (case basic of
          Some e \<Rightarrow> BasicExpression_AsFilter e
        | None \<Rightarrow>
            (case sub of
               Some c \<Rightarrow> bind_res (Condition_AsFilter c) (\<lambda>w. Inr (''('' @ w @ '')''))
             | None \<Rightarrow> Inl (InvalidFilter ''unpopulated Term'')))
       (\<lambda>w. Inr ((if neg then ''NOT '' else []) @ w))"
| "append_each op [] = Inr []"
| "append_each op (t # ts) =
     bind_res (Term_AsFilter t) (\<lambda>w. bind_res (append_each op ts) (\<lambda>w'.
       Inr ('' '' @ op @ '' '' @ w @ w')))"

lemma BasicExpression_AsFilter_ok: "wf_basic e \<Longrightarrow> \<exists>w. BasicExpression_AsFilter e = Inr w"
  by (auto simp: wf_basic_def BasicExpression_AsFilter_def split: option.splits)

lemma AsFilter_ok:
  "wf_condition c \<Longrightarrow> \<exists>w. Condition_AsFilter c = Inr w"
  "wf_term t \<Longrightarrow> \<exists>w. Term_AsFilter t = Inr w"
  "wf_terms ts \<Longrightarrow> \<exists>w. append_each op ts = Inr w"
proof (induction c and t and op ts rule: Condition_AsFilter_Term_AsFilter_append_each.induct)
  case (1 t And Or)
  then obtain w where "Term_AsFilter t = Inr w" by auto
  then show ?case using 1 by (auto split: option.splits)
next
  case (5 op t ts)
  then obtain w w' where "Term_AsFilter t = Inr w" and "append_each op ts = Inr w'" by auto
  then show ?case by simp
next
  case (3 n b s)
  then show ?case
    using BasicExpression_AsFilter_ok by (fastforce split: option.splits)
qed simp_all

text \<open>
  The reading of a quoted text, as \<open>strconv.Unquote\<close> has it for the escapes that occur.
\<close>

definition unhex :: "char \<Rightarrow> nat" where
  "unhex c = (let r = (of_char c :: nat) in if r < 58 then r - 48 else r - 87)"

definition unescape :: "char \<Rightarrow> char option" where
  "unescape c =
     (if c = CHR 0x22 \<or> c = CHR 0x5C then Some c
      else if c = CHR ''a'' then Some (char_of (7 :: nat))
      else if c = CHR ''b'' then Some (char_of (8 :: nat))
      else if c = CHR ''f'' then Some (char_of (12 :: nat))
      else if c = CHR ''n'' then Some (char_of (10 :: nat))
      else if c = CHR ''r'' then Some (char_of (13 :: nat))
      else if c = CHR ''t'' then Some (char_of (9 :: nat))
      else if c = CHR ''v'' then Some (char_of (11 :: nat))
      else None)"

function unquote_body :: "string \<Rightarrow> string option" where
  "unquote_body s =
     (case s of
        [] \<Rightarrow> None
      | c # rest \<Rightarrow>
          if c = CHR 0x22 then (if rest = [] then Some [] else None)
          else if c \<noteq> CHR 0x5C then map_option (Cons c) (unquote_body rest)
          else
            (case rest of
               [] \<Rightarrow> None
             | e # rest' \<Rightarrow>
                 if e = CHR ''x'' then
                   (if length rest' < 2 then None
                    else map_option (Cons (char_of (16 * unhex (rest' ! 0) + unhex (rest' ! 1))))
                      (unquote_body (drop 2 rest')))
                 else if e = CHR ''u'' then
                   (if length rest' < 4 then None
                    else map_option (Cons (char_of (16 * unhex (rest' ! 2) + unhex (rest' ! 3))))
                      (unquote_body (drop 4 rest')))
                 else
                   (case unescape e of
                      None \<Rightarrow> None
                    | Some x \<Rightarrow> map_option (Cons x) (unquote_body rest'))))"
  by pat_completeness auto
termination by (relation "measure length") auto

declare unquote_body.simps [simp del]

lemma unhex_hexdigit [simp]: "n < 16 \<Longrightarrow> unhex (hexdigit n) = n"
  by (simp add: unhex_def hexdigit_def Let_def)

lemma of_char_nat_less: "(of_char c :: nat) < 256"
  by (metis nat_of_char_less_256)

lemma char_of_eq: "(of_char c :: nat) = n \<Longrightarrow> char_of n = c"
  by auto

lemma unquote_escape:
  assumes "e \<noteq> CHR ''x''" and "e \<noteq> CHR ''u''" and "unescape e = Some c"
  shows "unquote_body (CHR 0x5C # e # rest) = map_option (Cons c) (unquote_body rest)"
  using assms by (subst unquote_body.simps) simp

lemma unquote_plain:
  "c \<noteq> CHR 0x22 \<Longrightarrow> c \<noteq> CHR 0x5C \<Longrightarrow> unquote_body (c # rest) = map_option (Cons c) (unquote_body rest)"
  by (subst unquote_body.simps) simp

lemma unquote_hex:
  assumes "r < 256" and "c = char_of r"
  shows "unquote_body (CHR 0x5C # CHR ''x'' # hexdigit (r div 16) # hexdigit (r mod 16) # rest) =
      map_option (Cons c) (unquote_body rest)"
    and "unquote_body (CHR 0x5C # CHR ''u'' # CHR ''0'' # CHR ''0'' # hexdigit (r div 16) #
      hexdigit (r mod 16) # rest) = map_option (Cons c) (unquote_body rest)"
proof -
  have "r div 16 < 16" using assms(1) by simp
  then show "unquote_body (CHR 0x5C # CHR ''x'' # hexdigit (r div 16) # hexdigit (r mod 16) # rest) =
      map_option (Cons c) (unquote_body rest)"
    and "unquote_body (CHR 0x5C # CHR ''u'' # CHR ''0'' # CHR ''0'' # hexdigit (r div 16) #
      hexdigit (r mod 16) # rest) = map_option (Cons c) (unquote_body rest)"
    using assms(2) by (subst unquote_body.simps, simp)+
qed

lemma unquote_quote_char: "unquote_body (quote_char c @ rest) = map_option (Cons c) (unquote_body rest)"
proof -
  have esc: "unescape (CHR 0x22) = Some (CHR 0x22)" "unescape (CHR 0x5C) = Some (CHR 0x5C)"
    "unescape (CHR ''a'') = Some (char_of (7 :: nat))" "unescape (CHR ''b'') = Some (char_of (8 :: nat))"
    "unescape (CHR ''f'') = Some (char_of (12 :: nat))" "unescape (CHR ''n'') = Some (char_of (10 :: nat))"
    "unescape (CHR ''r'') = Some (char_of (13 :: nat))" "unescape (CHR ''t'') = Some (char_of (9 :: nat))"
    "unescape (CHR ''v'') = Some (char_of (11 :: nat))"
    by (simp_all add: unescape_def)
  show ?thesis
    using of_char_nat_less[of c]
    by (auto simp: quote_char_def Let_def unquote_plain unquote_hex esc
        intro!: unquote_escape) (erule char_of_eq)+
qed

lemma unquote_quote: "unquote_body (tl (strconv_Quote s)) = Some s"
proof (induction s)
  case (Cons c s)
  then show ?case
    by (simp add: strconv_Quote_def unquote_quote_char)
qed (simp add: strconv_Quote_def unquote_body.simps)

text \<open>
  Quoting loses nothing: reading the quoted text back gives the text, for every
  string, including ones with quotes, backslashes and control characters.
\<close>

theorem strconv_Quote_roundtrip: "unquote_body (tl (strconv_Quote s)) = Some s"
  by (rule unquote_quote)

text \<open>
  Printing a tree the grammar can produce succeeds; a name that is not an identifier
  is quoted, so it can be read back, but the empty name passes the identifier loop and is printed
  as nothing.
\<close>

theorem AsFilter_total:
  assumes "wf_condition c"
  shows "(\<exists>w. Condition_AsFilter c = Inr w) \<and>
    (\<forall>n. formatAttrName n = n \<or> unquote_body (tl (formatAttrName n)) = Some n) \<and>
    formatAttrName [] = []"
  using AsFilter_ok(1)[OF assms] unquote_quote
  by (auto simp: formatAttrName_def)

theorem AsFilter_total_witness:
  "(\<exists>w. Condition_AsFilter example_filter = Inr w) \<and> formatAttrName ''a b'' \<noteq> ''a b''"
proof -
  have "wf_condition example_filter" by (simp add: example_filter_def wf_basic_def)
  from AsFilter_total[OF this] show ?thesis
    by (simp add: formatAttrName_def strconv_Quote_def unicode_IsLetter_def unicode_IsDigit_def)
qed

end
