(* ===== verification/Subscriptions.thy ===== *)
theory Subscriptions
  imports Topics MessageFilter
begin

text \<open>
  The actions on subscriptions: \<open>actions/create-subscription.go\<close>,
  \<open>actions/delete-subscription.go\<close> and \<open>actions/delete-expired-subscriptions.go\<close>, with the
  parameters the pruning actions share (\<open>actions/prune-common.go\<close>). The filter parser is an
  argument, \<open>None\<close> being its error.
\<close>

type_synonym filter_parser = "string \<Rightarrow> condition option"

definition live_subs :: "string \<Rightarrow> database \<Rightarrow> subscription list" where
  "live_subs n db = filter (\<lambda>s. sName s = n \<and> sDeletedAt s = None) (subscriptions db)"

subsection \<open>CreateSubscription\<close>

record createSubscriptionParams =
  csTopicName :: string
  csName :: string
  csTTL :: duration
  csMessageTTL :: duration
  csOrderedDelivery :: bool
  csLabels :: attrs
  csPushEndpoint :: string
  csMinBackoff :: duration
  csMaxBackoff :: duration
  csFilter :: string
  csMaxDeliveryAttempts :: int
  csDeadLetterTopic :: string

record createSubscriptionResults =
  csrTopicID :: uuid
  csrID :: uuid
  csrSub :: subscription

definition NewCreateSubscription :: "createSubscriptionParams \<Rightarrow> createSubscriptionParams res" where
  "NewCreateSubscription p =
     (if csTTL p \<le> 0 then Inl (Panic ''TTL must be > 0'')
      else if csMessageTTL p \<le> 0 then Inl (Panic ''messageTTL must be > 0'')
      else if csMaxDeliveryAttempts p < 0 then Inl (Panic ''maxDeliveryAttempts must be >= 0'')
      else if (csMaxDeliveryAttempts p \<noteq> 0) \<noteq> (csDeadLetterTopic p \<noteq> [])
        then Inl (Panic ''must set both or neither of MaxDeliveryAttempts and DeadLetterTopic'')
      else Inr p)"

definition findTopic :: "string \<Rightarrow> database \<Rightarrow> topic res" where
  "findTopic n db =
     (case only (live_topics n db) of
        Inl e \<Rightarrow> Inl (if e = EntNotFound then ErrNotFound else e)
      | Inr t \<Rightarrow> Inr t)"

definition nonempty :: "string \<Rightarrow> string option" where
  "nonempty s = (if s = [] then None else Some s)"

definition positive :: "duration \<Rightarrow> duration option" where
  "positive d = (if d > 0 then Some d else None)"

text \<open>The row that the builder calls of the create put together.\<close>

definition new_subscription ::
    "uuid \<Rightarrow> uuid \<Rightarrow> uuid option \<Rightarrow> time \<Rightarrow> time \<Rightarrow> createSubscriptionParams \<Rightarrow> subscription" where
  "new_subscription i topicID dlTopic now createdAt p =
     \<lparr>sID = i, sTopicID = topicID, sName = csName p, sCreatedAt = createdAt,
      sExpiresAt = now + csTTL p, sLive = Some True, sDeletedAt = None, sTTL = csTTL p,
      sMessageTTL = csMessageTTL p, sOrderedDelivery = csOrderedDelivery p,
      sLabels = csLabels p, sMinBackoff = positive (csMinBackoff p),
      sMaxBackoff = positive (csMaxBackoff p), sPushEndpoint = nonempty (csPushEndpoint p),
      sMessageFilter = nonempty (csFilter p),
      sMaxDeliveryAttempts =
        (if csMaxDeliveryAttempts p \<noteq> 0 then Some (csMaxDeliveryAttempts p) else None),
      sDeadLetterTopicID = dlTopic, sDeliveryDelay = 0\<rparr>"

definition CreateSubscription_Execute ::
    "filter_parser \<Rightarrow> uuid \<Rightarrow> time \<Rightarrow> time \<Rightarrow> createSubscriptionParams \<Rightarrow> createSubscriptionResults exec" where
  "CreateSubscription_Execute parse i now createdAt p db =
     (if live_subs (csName p) db \<noteq> [] then Inl ErrExists
      else
        bind_res (findTopic (csTopicName p) db) (\<lambda>topic.
        if csFilter p \<noteq> [] \<and> parse (csFilter p) = None
          then Inl (InvalidFilter ''invalid message filter'')
        else
          bind_res (if csDeadLetterTopic p \<noteq> []
              then bind_res (findTopic (csDeadLetterTopic p) db) (\<lambda>t. Inr (Some (tID t)))
              else Inr None) (\<lambda>dlTopic.
          let s = new_subscription i (tID topic) dlTopic now createdAt p in
          (case insert_subscription s db of
             Inl e \<Rightarrow> Inl (if isSqlDuplicateKeyError e then ErrExists else e)
           | Inr db' \<Rightarrow>
               Inr (\<lparr>csrTopicID = tID topic, csrID = i, csrSub = s\<rparr>,
                 [NotifyModifySubscription i (csName p)], db')))))"

subsection \<open>DeleteSubscription\<close>

record deleteSubscriptionResults =
  dsrNumDeleted :: nat

definition DeleteSubscription_Execute :: "time \<Rightarrow> string \<Rightarrow> deleteSubscriptionResults exec" where
  "DeleteSubscription_Execute now n db =
     (let ss = live_subs n db in
      if ss = [] then Inl ErrNotFound
      else let ids = map sID ss in
        bind_res (soft_delete_subscriptions now (\<lambda>s. sID s \<in> set ids) db) (\<lambda>db'.
          Inr (\<lparr>dsrNumDeleted = count_where (\<lambda>s. sID s \<in> set ids) (subscriptions db)\<rparr>,
            map (\<lambda>s. NotifyModifySubscription (sID s) (sName s)) ss, db')))"

subsection \<open>DeleteExpiredSubscriptions\<close>

record pruneCommonParams =
  pcMinAge :: duration
  pcMaxDelete :: int

record pruneCommonResults =
  pcNumDeleted :: nat

definition PruneCommonParams_Validate :: "pruneCommonParams \<Rightarrow> err option" where
  "PruneCommonParams_Validate p =
     (if pcMinAge p < 0 then Some (ValidationError ''minAge must be >= 0'')
      else if pcMaxDelete p \<le> 0 then Some (ValidationError ''maxDelete must be > 0'')
      else None)"

definition newPruneAction :: "pruneCommonParams \<Rightarrow> pruneCommonParams res" where
  "newPruneAction p =
     (case PruneCommonParams_Validate p of
        Some (ValidationError m) \<Rightarrow> Inl (Panic m)
      | Some e \<Rightarrow> Inl e
      | None \<Rightarrow> Inr p)"

definition limit :: "pruneCommonParams \<Rightarrow> 'r list \<Rightarrow> 'r list" where
  "limit p rs = take (nat (pcMaxDelete p)) rs"

definition DeleteExpiredSubscriptions_Execute ::
    "time \<Rightarrow> pruneCommonParams \<Rightarrow> pruneCommonResults exec" where
  "DeleteExpiredSubscriptions_Execute now p db =
     (let ss = limit p (filter (\<lambda>s. sExpiresAt s < now \<and> sDeletedAt s = None) (subscriptions db));
          ids = map sID ss in
      bind_res (soft_delete_subscriptions now (\<lambda>s. sID s \<in> set ids) db) (\<lambda>db'.
        Inr (\<lparr>pcNumDeleted = count_where (\<lambda>s. sID s \<in> set ids) (subscriptions db)\<rparr>,
          map (\<lambda>s. NotifyModifySubscription (sID s) (sName s)) ss, db')))"

subsection \<open>Properties\<close>

lemma live_subs_le_1: "wf_db db \<Longrightarrow> length (live_subs n db) \<le> 1"
  unfolding live_subs_def using wf_db_live(3,4) by (rule sub_rows.live_row_unique)

lemma live_subs_singleton:
  assumes "wf_db db" and "s \<in> set (subscriptions db)" and "sName s = n" and "sDeletedAt s = None"
  shows "live_subs n db = [s]"
proof -
  have "s \<in> set (live_subs n db)" using assms by (simp add: live_subs_def)
  with live_subs_le_1[OF assms(1), of n] show ?thesis by (cases "live_subs n db") auto
qed

lemma live_subs_empty_unique:
  assumes "wf_db db" and "live_subs n db = []"
  shows "unique_live sName sLive (subscriptions db @ [s\<lparr>sName := n, sLive := Some True\<rparr>])"
  using wf_db_live(3,4)[OF assms(1)] assms(2)
  by (fastforce simp: unique_live_snoc live_subs_def filter_empty_conv all_consistent_def
      list_all_iff live_consistent_def)

lemma findTopic_Inr:
  "findTopic n db = Inr t \<Longrightarrow> t \<in> set (topics db) \<and> tName t = n \<and> tDeletedAt t = None"
  by (auto simp: findTopic_def live_topics_def split: sum.splits dest: only_filterD)

lemma findTopic_wf:
  assumes "wf_db db"
  shows "findTopic n db = (case live_topics n db of [] \<Rightarrow> Inl ErrNotFound | t # _ \<Rightarrow> Inr t)"
  using live_topics_le_1[OF assms, of n]
  by (auto simp: findTopic_def only_def split: list.splits)

lemma new_subscription_simps [simp]:
  "sID (new_subscription i t dl now c p) = i"
  "sTopicID (new_subscription i t dl now c p) = t"
  "sName (new_subscription i t dl now c p) = csName p"
  "sLive (new_subscription i t dl now c p) = Some True"
  "sDeletedAt (new_subscription i t dl now c p) = None"
  "sDeadLetterTopicID (new_subscription i t dl now c p) = dl"
  "sExpiresAt (new_subscription i t dl now c p) = now + csTTL p"
  by (simp_all add: new_subscription_def)

lemma wf_CreateSubscription [wf_intros]:
  assumes "wf_db db" and "CreateSubscription_Execute parse i now c p db = Inr (r, ns, db')"
  shows "wf_db db'"
proof -
  obtain t dl where "(case insert_subscription (new_subscription i t dl now c p) db of
      Inl e \<Rightarrow> Inl (if isSqlDuplicateKeyError e then ErrExists else e)
    | Inr db' \<Rightarrow> Inr (\<lparr>csrTopicID = t, csrID = i, csrSub = new_subscription i t dl now c p\<rparr>,
        [NotifyModifySubscription i (csName p)], db')) = Inr (r, ns, db')"
    using assms(2) unfolding CreateSubscription_Execute_def Let_def
    by (auto split: if_split_asm elim!: bind_res_InrE)
  then have "insert_subscription (new_subscription i t dl now c p) db = Inr db'"
    by (simp split: sum.split_asm)
  from wf_insert_subscription[OF assms(1) this] show ?thesis by simp
qed

lemma wf_DeleteSubscription [wf_intros]:
  assumes "wf_db db" and "DeleteSubscription_Execute now n db = Inr (r, ns, db')"
  shows "wf_db db'"
  using assms
  by (auto simp: DeleteSubscription_Execute_def Let_def bind_res_Inr_iff split: if_splits
      elim: wf_soft_delete_subscriptions)

lemma wf_DeleteExpiredSubscriptions [wf_intros]:
  assumes "wf_db db" and "DeleteExpiredSubscriptions_Execute now p db = Inr (r, ns, db')"
  shows "wf_db db'"
  using assms
  by (auto simp: DeleteExpiredSubscriptions_Execute_def Let_def bind_res_Inr_iff
      elim: wf_soft_delete_subscriptions)

interpretation create_subscription:
  db_action "\<lambda>(parse, i, now, c, p). CreateSubscription_Execute parse i now c p" "\<lambda>_. True"
  by unfold_locales (auto intro: wf_intros)

interpretation delete_subscription: db_action "\<lambda>(now, n). DeleteSubscription_Execute now n" "\<lambda>_. True"
  by unfold_locales (auto intro: wf_intros)

interpretation delete_expired_subscriptions:
  db_action "\<lambda>(now, p). DeleteExpiredSubscriptions_Execute now p" "\<lambda>_. True"
  by unfold_locales (auto intro: wf_intros)

lemma insert_new_subscription:
  assumes "wf_db db" and "csName p \<noteq> []" and "i \<notin> sub_ids db" and "live_subs (csName p) db = []"
    and "t \<in> topic_ids db" and "opt_in dl (topic_ids db)"
  shows "insert_subscription (new_subscription i t dl now c p) db =
    Inr (db\<lparr>subscriptions := subscriptions db @ [new_subscription i t dl now c p]\<rparr>)"
proof -
  let ?s = "new_subscription i t dl now c p"
  have "?s\<lparr>sLive := Some True\<rparr> = ?s" "?s\<lparr>sName := csName p, sLive := Some True\<rparr> = ?s"
    by (simp_all add: new_subscription_def)
  with live_subs_empty_unique[OF assms(1,4), of ?s] assms wf_db_distinct(2)[OF assms(1)]
  show ?thesis by (subst insert_subscription_iff) (auto simp: sub_refs_def \<open>?s\<lparr>sLive := Some True\<rparr> = ?s\<close>)
qed

text \<open>
  Creating a subscription, on a well-formed database, with a fresh identifier and a
  name that is not empty. The outcome is determined by the first of these that applies: a live
  subscription of that name (\<open>ErrExists\<close>), no live topic of the topic name (\<open>ErrNotFound\<close>), a
  filter that does not parse, a dead letter topic that is named and not live (\<open>ErrNotFound\<close>);
  otherwise exactly one row is added, it is the one the name now resolves to, it belongs to the
  live topic and expires one TTL from now.
\<close>

theorem CreateSubscription_correct:
  assumes "wf_db db" and "csName p \<noteq> []" and "i \<notin> sub_ids db"
  shows "CreateSubscription_Execute parse i now c p db =
    (if live_subs (csName p) db \<noteq> [] then Inl ErrExists
     else case live_topics (csTopicName p) db of [] \<Rightarrow> Inl ErrNotFound | t # _ \<Rightarrow>
       if csFilter p \<noteq> [] \<and> parse (csFilter p) = None then Inl (InvalidFilter ''invalid message filter'')
       else if csDeadLetterTopic p \<noteq> [] \<and> live_topics (csDeadLetterTopic p) db = [] then Inl ErrNotFound
       else let s = new_subscription i (tID t)
             (if csDeadLetterTopic p = [] then None else Some (tID (hd (live_topics (csDeadLetterTopic p) db))))
             now c p
         in Inr (\<lparr>csrTopicID = tID t, csrID = i, csrSub = s\<rparr>,
              [NotifyModifySubscription i (csName p)],
              db\<lparr>subscriptions := subscriptions db @ [s]\<rparr>)) \<and>
    (\<forall>r ns db'. CreateSubscription_Execute parse i now c p db = Inr (r, ns, db') \<longrightarrow>
       live_subs (csName p) db' = [csrSub r] \<and> sExpiresAt (csrSub r) = now + csTTL p)"
proof -
  have top: "tID t \<in> topic_ids db" if "live_topics n db = t # ts" for t n ts
    using arg_cong[OF that, of set] by (auto simp: live_topics_def topic_ids_def)
  show ?thesis (is "?eq \<and> ?live")
  proof
    show ?eq
      by (auto simp: CreateSubscription_Execute_def findTopic_wf[OF assms(1)] Let_def
          insert_new_subscription[OF assms] top split: list.splits)
    then show ?live
      by (auto simp: Let_def live_subs_def split: list.splits if_split_asm)
  qed
qed

definition sample_create_params :: createSubscriptionParams where
  "sample_create_params = \<lparr>csTopicName = ''t'', csName = ''new'', csTTL = hour, csMessageTTL = hour,
     csOrderedDelivery = False, csLabels = Map.empty, csPushEndpoint = [], csMinBackoff = 0,
     csMaxBackoff = 0, csFilter = [], csMaxDeliveryAttempts = 5, csDeadLetterTopic = ''dl''\<rparr>"

theorem CreateSubscription_correct_witness:
  "\<exists>r ns db'. CreateSubscription_Execute (\<lambda>_. None) 13 100 100 sample_create_params sample_db =
     Inr (r, ns, db') \<and> map sID (live_subs ''new'' db') = [13] \<and> csrTopicID r = 1"
proof -
  have "csName sample_create_params \<noteq> []" and "(13 :: uuid) \<notin> sub_ids sample_db"
    by (simp_all add: sample_create_params_def sub_ids_def sample_defs)
  from CreateSubscription_correct[OF wf_sample_db this, of "\<lambda>_. None" 100 100] show ?thesis
    by (auto simp: sample_create_params_def live_subs_def live_topics_def sample_defs Let_def)
qed

text \<open>
  Deleting a subscription of a well-formed database fails with \<open>ErrNotFound\<close> exactly
  when no subscription of that name is live; otherwise it marks that one row as deleted at the
  given instant, leaves every other row of the database as it is, and asks for one notification.
\<close>

theorem DeleteSubscription_correct:
  assumes "wf_db db"
  shows "DeleteSubscription_Execute now n db =
    (case live_subs n db of
       [] \<Rightarrow> Inl ErrNotFound
     | s # _ \<Rightarrow> Inr (\<lparr>dsrNumDeleted = 1\<rparr>, [NotifyModifySubscription (sID s) n],
         db\<lparr>subscriptions := map (\<lambda>x. if x = s then x\<lparr>sLive := None, sDeletedAt := Some now\<rparr> else x)
           (subscriptions db)\<rparr>))"
proof (cases "live_subs n db")
  case (Cons s ss)
  with live_subs_le_1[OF assms, of n] have one: "live_subs n db = [s]" by simp
  then have s: "s \<in> set (subscriptions db)" "sName s = n"
    by (auto simp: live_subs_def dest: filter_eq_ConsD)
  have d: "distinct (map sID (subscriptions db))" using assms by (rule wf_db_distinct(2))
  then have "filter (\<lambda>x. sID x = sID s) (subscriptions db) = [s]" using s(1) by (rule filter_key_eq)
  moreover have "x = s \<longleftrightarrow> sID x = sID s" if "x \<in> set (subscriptions db)" for x
    using d that s(1) by (auto dest: distinct_map_eqD)
  ultimately show ?thesis
    using one s(2)
    by (simp add: DeleteSubscription_Execute_def soft_delete_subscriptions_eq count_where_def
        update_where_def)
qed (simp add: DeleteSubscription_Execute_def)

theorem DeleteSubscription_correct_witness:
  "DeleteSubscription_Execute 100 ''u'' sample_db =
     Inr (\<lparr>dsrNumDeleted = 1\<rparr>, [NotifyModifySubscription 12 ''u''],
       sample_db\<lparr>subscriptions := [sample_sub, sample_dl_sub\<lparr>sLive := None, sDeletedAt := Some 100\<rparr>]\<rparr>)"
  using DeleteSubscription_correct[OF wf_sample_db, of 100 "''u''"]
  by (simp add: live_subs_def sample_defs)

end
