(* ===== verification/Publish.thy ===== *)
theory Publish
  imports Subscriptions
begin

text \<open>
  Publishing: \<open>deliverToSubscription\<close> of \<open>actions/delivery-utils.go\<close>, which decides whether a
  subscription gets a message and builds the delivery, and the action of
  \<open>actions/publish-message.go\<close>.

  The identifiers of the deliveries of one bulk insert are drawn in the order of the builders:
  the supply \<open>newID\<close> gives the k-th of them.
\<close>

subsection \<open>deliverToSubscription\<close>

definition lastDelivery :: "database \<Rightarrow> subscription \<Rightarrow> uuid \<Rightarrow> time \<Rightarrow> delivery option" where
  "lastDelivery db s topicID now =
     first_row (sort_key (\<lambda>d. - dPublishedAt d)
       (filter (\<lambda>d. dSubscriptionID d = sID s \<and> dExpiresAt d > now \<and>
          list_ex (\<lambda>m. mID m = dMessageID d \<and> mTopicID m = topicID) (messages db))
        (deliveries db)))"

definition deliverToSubscription ::
    "filter_parser \<Rightarrow> database \<Rightarrow> subscription \<Rightarrow> message \<Rightarrow> time \<Rightarrow> uuid \<Rightarrow> delivery option res" where
  "deliverToSubscription parse db s m now i =
     bind_res
       (case sMessageFilter s of
          None \<Rightarrow> Inr True
        | Some f \<Rightarrow>
            if f = [] then Inr True
            else
              (case parse f of
                 None \<Rightarrow> Inr False
               | Some c \<Rightarrow>
                   (case Condition_Evaluate c (mAttributes m) of
                      Inr match \<Rightarrow> Inr match
                    | Inl e \<Rightarrow> if is_panic e then Inl e else Inr False)))
       (\<lambda>match.
         if \<not> match then Inr None
         else Inr (Some
           \<lparr>dID = i, dMessageID = mID m, dSubscriptionID = sID s, dPublishedAt = now,
            dAttemptAt = now + sDeliveryDelay s, dLastAttemptedAt = None, dAttempts = 0,
            dCompletedAt = None, dExpiresAt = now + sMessageTTL s,
            dNotBeforeID =
              (if sOrderedDelivery s \<and> mOrderKey m \<noteq> None \<and> mOrderKey m \<noteq> Some []
               then map_option dID (lastDelivery db s (mTopicID m) now) else None)\<rparr>))"

text \<open>The loop over the subscriptions, which both callers have, and the bulk insert.\<close>

fun deliverAll :: "filter_parser \<Rightarrow> database \<Rightarrow> message \<Rightarrow> time \<Rightarrow> (nat \<Rightarrow> uuid) \<Rightarrow> nat \<Rightarrow>
    subscription list \<Rightarrow> delivery list res" where
  "deliverAll parse db m now newID k [] = Inr []"
| "deliverAll parse db m now newID k (s # ss) =
     bind_res (deliverToSubscription parse db s m now (newID k)) (\<lambda>r.
       case r of
         None \<Rightarrow> deliverAll parse db m now newID k ss
       | Some d \<Rightarrow> bind_res (deliverAll parse db m now newID (Suc k) ss) (\<lambda>ds. Inr (d # ds)))"

definition publish_notices :: "delivery list \<Rightarrow> notice list" where
  "publish_notices ds = map (\<lambda>d. NotifyPublish [dSubscriptionID d]) ds"

fun insert_deliveries :: "delivery list \<Rightarrow> database \<Rightarrow> database res" where
  "insert_deliveries [] db = Inr db"
| "insert_deliveries (d # ds) db = bind_res (insert_delivery d db) (insert_deliveries ds)"

definition topic_live_subs :: "uuid \<Rightarrow> database \<Rightarrow> subscription list" where
  "topic_live_subs topicID db =
     filter (\<lambda>s. sTopicID s = topicID \<and> sDeletedAt s = None) (subscriptions db)"

subsection \<open>PublishMessage\<close>

record publishMessageParams =
  pmTopicName :: string
  pmTopicID :: "uuid option"
  pmPayload :: string
  pmAttributes :: attrs
  pmOrderKey :: string

record publishMessageResults =
  pmrID :: uuid
  pmrNumDeliveries :: nat

definition NewPublishMessage :: "publishMessageParams \<Rightarrow> publishMessageParams res" where
  "NewPublishMessage p =
     (if pmTopicName p = [] \<and> pmTopicID p = None then Inl (Panic ''must provide Name or ID'')
      else Inr p)"

definition topicMatch :: "publishMessageParams \<Rightarrow> topic \<Rightarrow> bool" where
  "topicMatch p t \<longleftrightarrow> tDeletedAt t = None \<and>
     (case pmTopicID p of None \<Rightarrow> True | Some i \<Rightarrow> tID t = i) \<and>
     (pmTopicName p = [] \<or> tName t = pmTopicName p)"

definition PublishMessage_Execute ::
    "filter_parser \<Rightarrow> uuid \<Rightarrow> (nat \<Rightarrow> uuid) \<Rightarrow> time \<Rightarrow> publishMessageParams \<Rightarrow> publishMessageResults exec" where
  "PublishMessage_Execute parse i newID now p db =
     (case only (filter (topicMatch p) (topics db)) of
        Inl e \<Rightarrow> Inl (if e = EntNotFound then ErrNotFound else e)
      | Inr t \<Rightarrow>
          let m = \<lparr>mID = i, mTopicID = tID t, mPayload = pmPayload p, mAttributes = pmAttributes p,
            mPublishedAt = now, mOrderKey = nonempty (pmOrderKey p)\<rparr>
          in bind_res (insert_message m db) (\<lambda>db1.
             bind_res (deliverAll parse db1 m now newID 0 (topic_live_subs (tID t) db1)) (\<lambda>ds.
             bind_res (insert_deliveries ds db1) (\<lambda>db2.
               Inr (\<lparr>pmrID = i, pmrNumDeliveries = length ds\<rparr>, publish_notices ds, db2)))))"

subsection \<open>Lemmas on delivering\<close>

definition parse_wf :: "filter_parser \<Rightarrow> bool" where
  "parse_wf parse \<longleftrightarrow> (\<forall>f c. parse f = Some c \<longrightarrow> wf_condition c)"

definition accepts :: "filter_parser \<Rightarrow> subscription \<Rightarrow> attrs \<Rightarrow> bool" where
  "accepts parse s as \<longleftrightarrow>
     (case sMessageFilter s of
        None \<Rightarrow> True
      | Some f \<Rightarrow> f = [] \<or> (\<exists>c. parse f = Some c \<and> sem_condition as c))"

definition new_delivery :: "database \<Rightarrow> subscription \<Rightarrow> message \<Rightarrow> time \<Rightarrow> uuid \<Rightarrow> delivery" where
  "new_delivery db s m now i =
     \<lparr>dID = i, dMessageID = mID m, dSubscriptionID = sID s, dPublishedAt = now,
      dAttemptAt = now + sDeliveryDelay s, dLastAttemptedAt = None, dAttempts = 0,
      dCompletedAt = None, dExpiresAt = now + sMessageTTL s,
      dNotBeforeID =
        (if sOrderedDelivery s \<and> mOrderKey m \<noteq> None \<and> mOrderKey m \<noteq> Some []
         then map_option dID (lastDelivery db s (mTopicID m) now) else None)\<rparr>"

lemma new_delivery_simps [simp]:
  "dID (new_delivery db s m now i) = i"
  "dMessageID (new_delivery db s m now i) = mID m"
  "dSubscriptionID (new_delivery db s m now i) = sID s"
  "dPublishedAt (new_delivery db s m now i) = now"
  "dAttemptAt (new_delivery db s m now i) = now + sDeliveryDelay s"
  "dAttempts (new_delivery db s m now i) = 0"
  "dCompletedAt (new_delivery db s m now i) = None"
  "dExpiresAt (new_delivery db s m now i) = now + sMessageTTL s"
  by (simp_all add: new_delivery_def)

lemma deliverToSubscription_eq:
  assumes "parse_wf parse"
  shows "deliverToSubscription parse db s m now i =
    Inr (if accepts parse s (mAttributes m) then Some (new_delivery db s m now i) else None)"
proof -
  have "Condition_Evaluate c as = Inr (sem_condition as c)" if "parse f = Some c" for f c as
    using assms that by (auto simp: parse_wf_def intro: Evaluate_sem(1))
  then show ?thesis
    by (auto simp: deliverToSubscription_def accepts_def new_delivery_def split: option.splits)
qed

text \<open>Which deliveries the loop builds: one per accepting subscription, in order.\<close>

definition deliveries_for ::
    "filter_parser \<Rightarrow> database \<Rightarrow> message \<Rightarrow> time \<Rightarrow> (nat \<Rightarrow> uuid) \<Rightarrow> nat \<Rightarrow> subscription list \<Rightarrow> delivery list" where
  "deliveries_for parse db m now newID k ss =
     map (\<lambda>(j, s). new_delivery db s m now (newID j))
       (enumerate k (filter (\<lambda>s. accepts parse s (mAttributes m)) ss))"

lemma deliverAll_eq:
  assumes "parse_wf parse"
  shows "deliverAll parse db m now newID k ss = Inr (deliveries_for parse db m now newID k ss)"
  by (induction ss arbitrary: k)
    (simp_all add: deliveries_for_def deliverToSubscription_eq[OF assms])

lemma lastDelivery_in:
  assumes "lastDelivery db s tid now = Some d"
  shows "d \<in> set (deliveries db) \<and> dSubscriptionID d = sID s \<and> dExpiresAt d > now"
  using first_row_SomeD[OF assms[unfolded lastDelivery_def]] by simp

lemma lastDelivery_latest:
  assumes "lastDelivery db s tid now = Some d" and "d' \<in> set (deliveries db)"
    and "dSubscriptionID d' = sID s" and "dExpiresAt d' > now"
    and "m \<in> set (messages db)" and "mID m = dMessageID d'" and "mTopicID m = tid"
  shows "dPublishedAt d' \<le> dPublishedAt d"
proof -
  let ?ds = "filter (\<lambda>d. dSubscriptionID d = sID s \<and> dExpiresAt d > now \<and>
    list_ex (\<lambda>m. mID m = dMessageID d \<and> mTopicID m = tid) (messages db)) (deliveries db)"
  let ?k = "\<lambda>d. - dPublishedAt d"
  obtain rest where r: "sort_key ?k ?ds = d # rest"
    using assms(1) by (cases "sort_key ?k ?ds") (simp_all add: lastDelivery_def)
  have "d' \<in> set (sort_key ?k ?ds)" using assms by (auto simp: list_ex_iff)
  moreover have "sorted (map ?k (sort_key ?k ?ds))" by (rule sorted_sort_key)
  ultimately show ?thesis unfolding r by (auto simp: order_refl)
qed

lemma wf_insert_deliveries [wf_intros]:
  "wf_db db \<Longrightarrow> insert_deliveries ds db = Inr db' \<Longrightarrow> wf_db db'"
  by (induction ds arbitrary: db) (auto elim!: bind_res_InrE dest: wf_insert_delivery)

lemma insert_deliveries_ok:
  assumes "distinct (map dID ds)" and "\<forall>d\<in>set ds. dID d \<notin> delivery_ids db \<and>
      dMessageID d \<in> message_ids db \<and> dSubscriptionID d \<in> sub_ids db \<and>
      opt_in (dNotBeforeID d) (delivery_ids db)"
  shows "insert_deliveries ds db = Inr (db\<lparr>deliveries := deliveries db @ ds\<rparr>)"
  using assms
proof (induction ds arbitrary: db)
  case (Cons d ds)
  let ?db = "db\<lparr>deliveries := deliveries db @ [d]\<rparr>"
  have "insert_delivery d db = Inr ?db"
    using Cons.prems by (auto simp: insert_delivery_iff intro: opt_in_mono)
  moreover have "insert_deliveries ds ?db = Inr (?db\<lparr>deliveries := deliveries ?db @ ds\<rparr>)"
  proof (rule Cons.IH)
    show "distinct (map dID ds)" using Cons.prems by simp
    show "\<forall>x\<in>set ds. dID x \<notin> delivery_ids ?db \<and> dMessageID x \<in> message_ids ?db \<and>
        dSubscriptionID x \<in> sub_ids ?db \<and> opt_in (dNotBeforeID x) (delivery_ids ?db)"
    proof
      fix x assume x: "x \<in> set ds"
      have ids: "delivery_ids ?db = insert (dID d) (delivery_ids db)"
        "message_ids ?db = message_ids db" "sub_ids ?db = sub_ids db"
        by (simp_all add: id_defs)
      have "dID x \<noteq> dID d" using imageI[OF x, of dID] Cons.prems(1) by auto
      then show "dID x \<notin> delivery_ids ?db \<and> dMessageID x \<in> message_ids ?db \<and>
        dSubscriptionID x \<in> sub_ids ?db \<and> opt_in (dNotBeforeID x) (delivery_ids ?db)"
        using x Cons.prems unfolding ids by (auto intro: opt_in_mono[OF _ subset_insertI])
    qed
  qed
  ultimately show ?case by simp
qed simp

text \<open>The first \<open>n\<close> identifiers of a supply are new and distinct.\<close>

definition fresh_ids :: "(nat \<Rightarrow> uuid) \<Rightarrow> nat \<Rightarrow> database \<Rightarrow> bool" where
  "fresh_ids newID n db \<longleftrightarrow> inj_on newID {..<n} \<and> (\<forall>k<n. newID k \<notin> delivery_ids db)"

lemma fresh_ids_fewer: "fresh_ids newID n db \<Longrightarrow> k \<le> n \<Longrightarrow> fresh_ids newID k db"
  by (auto simp: fresh_ids_def intro: inj_on_subset)

lemma deliveries_for_ids:
  "map dID (deliveries_for parse db m now newID 0 ss) =
     map newID [0..<length (filter (\<lambda>s. accepts parse s (mAttributes m)) ss)]"
proof -
  have "map dID (deliveries_for parse db m now newID 0 ss) =
      map newID (map fst (enumerate 0 (filter (\<lambda>s. accepts parse s (mAttributes m)) ss)))"
    by (simp add: deliveries_for_def comp_def case_prod_beta del: map_fst_enumerate)
  then show ?thesis by simp
qed

lemma deliveries_for_fresh:
  assumes "fresh_ids newID (length ss) db'"
  shows "distinct (map dID (deliveries_for parse db m now newID 0 ss))"
    and "d \<in> set (deliveries_for parse db m now newID 0 ss) \<Longrightarrow> dID d \<notin> delivery_ids db'"
proof -
  let ?n = "length (filter (\<lambda>s. accepts parse s (mAttributes m)) ss)"
  have n: "?n \<le> length ss" by simp
  then have "inj_on newID {..<?n}"
    using assms by (auto simp: fresh_ids_def intro: inj_on_subset)
  then show "distinct (map dID (deliveries_for parse db m now newID 0 ss))"
    unfolding deliveries_for_ids by (simp add: distinct_map atLeast_upt[symmetric] lessThan_atLeast0)
  assume "d \<in> set (deliveries_for parse db m now newID 0 ss)"
  then have "dID d \<in> set (map dID (deliveries_for parse db m now newID 0 ss))" by simp
  then obtain x where x: "x < ?n" "dID d = newID x" unfolding deliveries_for_ids by auto
  from less_le_trans[OF x(1) n] show "dID d \<notin> delivery_ids db'"
    using assms x(2) by (simp add: fresh_ids_def)
qed

lemma in_deliveries_for:
  assumes "d \<in> set (deliveries_for parse db m now newID k ss)"
  shows "\<exists>s\<in>set ss. \<exists>j. accepts parse s (mAttributes m) \<and> d = new_delivery db s m now (newID j)"
proof -
  let ?as = "filter (\<lambda>s. accepts parse s (mAttributes m)) ss"
  obtain j s where "(j, s) \<in> set (enumerate k ?as)" and d: "d = new_delivery db s m now (newID j)"
    using assms by (auto simp: deliveries_for_def)
  then have "s \<in> set ?as" by (metis in_set_zip enumerate_eq_zip snd_conv nth_mem)
  with d show ?thesis by auto
qed

lemma insert_deliveries_for:
  assumes "fresh_ids newID (length ss) db" and "mID m \<in> message_ids db"
    and "set ss \<subseteq> set (subscriptions db)"
  shows "insert_deliveries (deliveries_for parse db m now newID 0 ss) db =
    Inr (db\<lparr>deliveries := deliveries db @ deliveries_for parse db m now newID 0 ss\<rparr>)"
proof (rule insert_deliveries_ok)
  show "distinct (map dID (deliveries_for parse db m now newID 0 ss))"
    using assms(1) by (rule deliveries_for_fresh)
  show "\<forall>d\<in>set (deliveries_for parse db m now newID 0 ss). dID d \<notin> delivery_ids db \<and>
      dMessageID d \<in> message_ids db \<and> dSubscriptionID d \<in> sub_ids db \<and>
      opt_in (dNotBeforeID d) (delivery_ids db)"
  proof
    fix d assume d_in: "d \<in> set (deliveries_for parse db m now newID 0 ss)"
    then obtain s j where s: "s \<in> set ss" and d: "d = new_delivery db s m now (newID j)"
      using in_deliveries_for by blast
    have nb: "opt_in (dNotBeforeID d) (delivery_ids db)"
    proof (cases "lastDelivery db s (mTopicID m) now")
      case (Some l)
      from lastDelivery_in[OF this] Some show ?thesis
        by (auto simp: d new_delivery_def delivery_ids_def)
    qed (simp add: d new_delivery_def)
    show "dID d \<notin> delivery_ids db \<and> dMessageID d \<in> message_ids db \<and> dSubscriptionID d \<in> sub_ids db \<and>
      opt_in (dNotBeforeID d) (delivery_ids db)"
      using assms(2,3) s nb deliveries_for_fresh(2)[OF assms(1) d_in] by (auto simp: d sub_ids_def)
  qed
qed

lemma wf_PublishMessage [wf_intros]:
  assumes "wf_db db" and "PublishMessage_Execute parse i newID now p db = Inr (r, ns, db')"
  shows "wf_db db'"
  using assms unfolding PublishMessage_Execute_def Let_def
  by (auto split: sum.split_asm elim!: bind_res_InrE dest: wf_insert_message wf_insert_deliveries)

interpretation publish_message:
  db_action "\<lambda>(parse, i, newID, now, p). PublishMessage_Execute parse i newID now p" "\<lambda>_. True"
  by unfold_locales (auto intro: wf_intros)

lemma topicMatch_unique:
  assumes "wf_db db" and "pmTopicName p \<noteq> [] \<or> pmTopicID p \<noteq> None"
  shows "length (filter (topicMatch p) (topics db)) \<le> 1"
proof (cases "pmTopicName p = []")
  case False
  then have "filter (topicMatch p) (topics db) =
      filter (topicMatch p) (live_topics (pmTopicName p) db)"
    by (auto simp: live_topics_def topicMatch_def intro!: filter_cong)
  then show ?thesis
    using live_topics_le_1[OF assms(1), of "pmTopicName p"] length_filter_le order_trans by metis
next
  case True
  with assms(2) obtain i where i: "pmTopicID p = Some i" by auto
  show ?thesis
  proof (cases "\<exists>t\<in>set (topics db). tID t = i")
    case True
    then obtain t where t: "t \<in> set (topics db)" "tID t = i" by auto
    have "filter (topicMatch p) (topics db) = filter (topicMatch p) (filter (\<lambda>x. tID x = i) (topics db))"
      using i by (auto simp: topicMatch_def intro!: filter_cong)
    also have "\<dots> = filter (topicMatch p) [t]"
      using filter_key_eq[OF wf_db_distinct(1)[OF assms(1)] t(1)] t(2) by simp
    finally show ?thesis by simp
  next
    case False
    then show ?thesis using i by (auto simp: topicMatch_def filter_empty_conv[THEN iffD2])
  qed
qed

definition publish_result ::
    "filter_parser \<Rightarrow> uuid \<Rightarrow> (nat \<Rightarrow> uuid) \<Rightarrow> time \<Rightarrow> publishMessageParams \<Rightarrow> topic \<Rightarrow> database \<Rightarrow>
      message \<times> delivery list \<times> database" where
  "publish_result parse i newID now p t db =
     (let m = \<lparr>mID = i, mTopicID = tID t, mPayload = pmPayload p, mAttributes = pmAttributes p,
            mPublishedAt = now, mOrderKey = nonempty (pmOrderKey p)\<rparr>;
          db1 = db\<lparr>messages := messages db @ [m]\<rparr>;
          ds = deliveries_for parse db1 m now newID 0 (topic_live_subs (tID t) db)
      in (m, ds, db1\<lparr>deliveries := deliveries db @ ds\<rparr>))"

lemma PublishMessage_eq:
  assumes "wf_db db" and "parse_wf parse" and "pmTopicName p \<noteq> [] \<or> pmTopicID p \<noteq> None"
    and "i \<notin> message_ids db" and "fresh_ids newID (length (subscriptions db)) db"
  shows "PublishMessage_Execute parse i newID now p db =
    (case filter (topicMatch p) (topics db) of
       [] \<Rightarrow> Inl ErrNotFound
     | t # _ \<Rightarrow> (case publish_result parse i newID now p t db of (m, ds, db') \<Rightarrow>
         Inr (\<lparr>pmrID = i, pmrNumDeliveries = length ds\<rparr>, publish_notices ds, db')))"
proof (cases "filter (topicMatch p) (topics db)")
  case Nil
  then show ?thesis by (simp add: PublishMessage_Execute_def)
next
  case (Cons t ts)
  with topicMatch_unique[OF assms(1,3)] have one: "filter (topicMatch p) (topics db) = [t]" by simp
  have t: "t \<in> set (topics db)" using arg_cong[OF one, of set] by auto
  let ?m = "\<lparr>mID = i, mTopicID = tID t, mPayload = pmPayload p, mAttributes = pmAttributes p,
            mPublishedAt = now, mOrderKey = nonempty (pmOrderKey p)\<rparr>"
  let ?db1 = "db\<lparr>messages := messages db @ [?m]\<rparr>"
  have m: "insert_message ?m db = Inr ?db1"
    using assms(4) t by (auto simp: insert_message_iff topic_ids_def)
  have subs: "topic_live_subs (tID t) ?db1 = topic_live_subs (tID t) db"
    by (simp add: topic_live_subs_def)
  have "insert_deliveries (deliveries_for parse ?db1 ?m now newID 0 (topic_live_subs (tID t) db)) ?db1 =
      Inr (?db1\<lparr>deliveries := deliveries ?db1 @
        deliveries_for parse ?db1 ?m now newID 0 (topic_live_subs (tID t) db)\<rparr>)"
    using fresh_ids_fewer[OF assms(5), of "length (topic_live_subs (tID t) db)"]
    by (intro insert_deliveries_for) (auto simp: fresh_ids_def id_defs topic_live_subs_def)
  then show ?thesis
    unfolding one by (simp add: PublishMessage_Execute_def one m subs deliverAll_eq[OF assms(2)]
        publish_result_def Let_def)
qed

text \<open>
  Property C4. Publishing to a topic that is live stores the message once, and one delivery for
  every live subscription of that topic whose filter holds of the attributes: a delivery of that
  message, not completed, never attempted, due after the subscription's delivery delay and
  expiring after its message TTL. Every subscription that gets a delivery is notified, no other
  row changes, and the result counts the deliveries. Without such a topic the action fails with
  \<open>ErrNotFound\<close>.
\<close>

theorem PublishMessage_correct:
  assumes "wf_db db" and "parse_wf parse" and "pmTopicName p \<noteq> [] \<or> pmTopicID p \<noteq> None"
    and "i \<notin> message_ids db" and "fresh_ids newID (length (subscriptions db)) db"
  shows "case PublishMessage_Execute parse i newID now p db of
      Inl e \<Rightarrow> e = ErrNotFound \<and> (\<forall>t\<in>set (topics db). \<not> topicMatch p t)
    | Inr (r, ns, db') \<Rightarrow> (\<exists>t m ds. t \<in> set (topics db) \<and> topicMatch p t \<and>
        db' = db\<lparr>messages := messages db @ [m], deliveries := deliveries db @ ds\<rparr> \<and>
        mID m = i \<and> mTopicID m = tID t \<and> mPayload m = pmPayload p \<and> mAttributes m = pmAttributes p \<and>
        mPublishedAt m = now \<and> mOrderKey m = nonempty (pmOrderKey p) \<and>
        map dSubscriptionID ds = map sID (filter (\<lambda>s. sTopicID s = tID t \<and> sDeletedAt s = None \<and>
          accepts parse s (pmAttributes p)) (subscriptions db)) \<and>
        (\<forall>d\<in>set ds. \<exists>s\<in>set (subscriptions db). sID s = dSubscriptionID d \<and> dMessageID d = i \<and>
          dCompletedAt d = None \<and> dAttempts d = 0 \<and> dAttemptAt d = now + sDeliveryDelay s \<and>
          dExpiresAt d = now + sMessageTTL s) \<and>
        ns = map (\<lambda>d. NotifyPublish [dSubscriptionID d]) ds \<and>
        pmrID r = i \<and> pmrNumDeliveries r = length ds)"
proof (cases "filter (topicMatch p) (topics db)")
  case Nil
  then show ?thesis using PublishMessage_eq[OF assms, of now] by (simp add: filter_empty_conv)
next
  case (Cons t ts)
  have t: "t \<in> set (topics db)" "topicMatch p t" using arg_cong[OF Cons, of set] by auto
  obtain m ds db' where r: "publish_result parse i newID now p t db = (m, ds, db')"
    by (rule prod_cases3)
  let ?db1 = "db\<lparr>messages := messages db @ [m]\<rparr>"
  have m: "mID m = i" "mTopicID m = tID t" "mPayload m = pmPayload p" "mAttributes m = pmAttributes p"
      "mPublishedAt m = now" "mOrderKey m = nonempty (pmOrderKey p)"
    and ds: "ds = deliveries_for parse ?db1 m now newID 0 (topic_live_subs (tID t) db)"
    and db': "db' = db\<lparr>messages := messages db @ [m], deliveries := deliveries db @ ds\<rparr>"
    using r by (auto simp: publish_result_def Let_def)
  have "map dSubscriptionID ds = map sID (map snd (enumerate 0
      (filter (\<lambda>s. accepts parse s (mAttributes m)) (topic_live_subs (tID t) db))))"
    by (simp add: ds deliveries_for_def comp_def case_prod_beta del: map_snd_enumerate)
  then have subs: "map dSubscriptionID ds = map sID (filter (\<lambda>s. sTopicID s = tID t \<and>
      sDeletedAt s = None \<and> accepts parse s (pmAttributes p)) (subscriptions db))"
    by (simp add: m topic_live_subs_def conj_assoc cong: filter_cong)
  have each: "\<exists>s\<in>set (subscriptions db). sID s = dSubscriptionID d \<and> dMessageID d = i \<and>
      dCompletedAt d = None \<and> dAttempts d = 0 \<and> dAttemptAt d = now + sDeliveryDelay s \<and>
      dExpiresAt d = now + sMessageTTL s" if "d \<in> set ds" for d
    using in_deliveries_for[OF that[unfolded ds]] m(1) by (force simp: topic_live_subs_def)
  show ?thesis
    using PublishMessage_eq[OF assms, of now] Cons t m db' subs each r
    by (auto simp: publish_notices_def intro!: exI[of _ t] exI[of _ m] exI[of _ ds])
qed

lemma fresh_sample_ids_4: "fresh_ids (\<lambda>k. 33 + of_nat k) 4 sample_db"
proof -
  have four: "{..<4 :: nat} = {0, 1, 2, 3}" "\<And>P. (\<forall>k<4 :: nat. P k) = (P 0 \<and> P 1 \<and> P 2 \<and> P 3)"
    by (auto simp: numeral_eq_Suc less_Suc_eq)
  show ?thesis unfolding fresh_ids_def four by (simp add: delivery_ids_def sample_defs)
qed

lemma fresh_sample_ids: "fresh_ids (\<lambda>k. 33 + of_nat k) (length (subscriptions sample_db)) sample_db"
  using fresh_sample_ids_4 by (rule fresh_ids_fewer) (simp add: sample_db_def)

theorem PublishMessage_correct_witness:
  "\<exists>r db'. PublishMessage_Execute (\<lambda>_. None) 23 (\<lambda>k. 33 + of_nat k) 50
      \<lparr>pmTopicName = ''t'', pmTopicID = None, pmPayload = ''x'', pmAttributes = Map.empty, pmOrderKey = []\<rparr>
      sample_db = Inr (r, [NotifyPublish [11]], db') \<and> length (deliveries db') = 3 \<and> pmrNumDeliveries r = 1"
proof -
  let ?p = "\<lparr>pmTopicName = ''t'', pmTopicID = None, pmPayload = ''x'', pmAttributes = Map.empty, pmOrderKey = []\<rparr>"
  have "fresh_ids (\<lambda>k. 33 + of_nat k) (length (subscriptions sample_db)) sample_db"
    by (rule fresh_sample_ids)
  moreover have "(23 :: uuid) \<notin> message_ids sample_db" by (simp add: message_ids_def sample_defs)
  moreover have "parse_wf (\<lambda>_. None)" by (simp add: parse_wf_def)
  ultimately have "case PublishMessage_Execute (\<lambda>_. None) 23 (\<lambda>k. 33 + of_nat k) 50 ?p sample_db of
      Inl e \<Rightarrow> \<forall>t\<in>set (topics sample_db). \<not> topicMatch ?p t
    | Inr (r, ns, db') \<Rightarrow> (\<exists>t ds. t \<in> set (topics sample_db) \<and> topicMatch ?p t \<and>
        deliveries db' = deliveries sample_db @ ds \<and>
        map dSubscriptionID ds = map sID (filter (\<lambda>s. sTopicID s = tID t \<and> sDeletedAt s = None \<and>
          accepts (\<lambda>_. None) s Map.empty) (subscriptions sample_db)) \<and>
        ns = map (\<lambda>d. NotifyPublish [dSubscriptionID d]) ds \<and> pmrNumDeliveries r = length ds)"
    using PublishMessage_correct[OF wf_sample_db, of "\<lambda>_. None" ?p 23 "\<lambda>k. 33 + of_nat k" 50]
    by (auto split: sum.splits prod.splits)
  then show ?thesis
    by (auto simp: sample_defs topicMatch_def accepts_def split: sum.splits prod.splits)
qed

end
