(* ===== verification/DeadLetter.thy ===== *)
theory DeadLetter
  imports Publish
begin

text \<open>
  Dead-lettering: \<open>deadLetterDelivery\<close> of \<open>actions/delivery-utils.go\<close> and the action of
  \<open>actions/dead-letter-deliveries.go\<close>. A delivery that used up its attempts is completed, and
  its message is delivered to the live subscriptions of the dead letter topic instead.

  Several deliveries may be dead-lettered in one transaction, each with a bulk insert: an
  operation also returns how many identifiers it drew from the supply.
\<close>

definition HasFullDeadLetterConfig :: "subscription \<Rightarrow> bool" where
  "HasFullDeadLetterConfig s \<longleftrightarrow>
     (case sMaxDeliveryAttempts s of None \<Rightarrow> False | Some n \<Rightarrow> sDeadLetterTopicID s \<noteq> None \<and> n > 0)"

record deadLetterData =
  dlDeliveryID :: uuid
  dlSubscriptionID :: uuid
  dlMessageID :: uuid
  dlTopicID :: uuid

definition deadLetterDataFromEntities :: "delivery \<Rightarrow> subscription \<Rightarrow> deadLetterData res" where
  "deadLetterDataFromEntities d s =
     (case sDeadLetterTopicID s of
        None \<Rightarrow> Inl nil_deref
      | Some t \<Rightarrow> Inr \<lparr>dlDeliveryID = dID d, dlSubscriptionID = dSubscriptionID d,
          dlMessageID = dMessageID d, dlTopicID = t\<rparr>)"

definition update_one_delivery :: "uuid \<Rightarrow> (delivery \<Rightarrow> delivery) \<Rightarrow> database \<Rightarrow> database res" where
  "update_one_delivery i f db =
     (if list_ex (\<lambda>d. dID d = i) (deliveries db)
      then Inr (update_deliveries (\<lambda>d. dID d = i) f db) else Inl EntNotFound)"

definition set_completed :: "time \<Rightarrow> delivery \<Rightarrow> delivery" where
  "set_completed now d = d\<lparr>dCompletedAt := Some now\<rparr>"

definition redeliver :: "filter_parser \<Rightarrow> (nat \<Rightarrow> uuid) \<Rightarrow> deadLetterData \<Rightarrow> time \<Rightarrow> topic option \<Rightarrow>
    database \<Rightarrow> (delivery list \<times> database) res" where
  "redeliver parse newID data now dlTopic db =
     (case dlTopic of
        None \<Rightarrow> Inr ([], db)
      | Some t \<Rightarrow>
          let ss = topic_live_subs (tID t) db in
          if ss = [] then Inr ([], db)
          else
            bind_res (only (filter (\<lambda>m. mID m = dlMessageID data) (messages db))) (\<lambda>m.
            bind_res (deliverAll parse db m now newID 0 ss) (\<lambda>ds.
            bind_res (insert_deliveries ds db) (\<lambda>db'. Inr (ds, db')))))"

definition deadLetterDelivery :: "filter_parser \<Rightarrow> (nat \<Rightarrow> uuid) \<Rightarrow> deadLetterData \<Rightarrow> time \<Rightarrow>
    database \<Rightarrow> (nat \<times> notice list \<times> database) res" where
  "deadLetterDelivery parse newID data now db =
     bind_res
       (case only (filter (\<lambda>t. tID t = dlTopicID data \<and> tDeletedAt t = None) (topics db)) of
          Inr t \<Rightarrow> Inr (Some t)
        | Inl e \<Rightarrow> if e = EntNotFound then Inr None else Inl e) (\<lambda>dlTopic.
     bind_res (redeliver parse newID data now dlTopic db) (\<lambda>(ds, db1).
     bind_res (update_one_delivery (dlDeliveryID data) (set_completed now) db1) (\<lambda>db2.
       Inr (length ds, publish_notices ds @ [NotifyPublish [dlSubscriptionID data]], db2))))"

fun deadLetterEach :: "filter_parser \<Rightarrow> (nat \<Rightarrow> uuid) \<Rightarrow> deadLetterData list \<Rightarrow> time \<Rightarrow>
    database \<Rightarrow> (notice list \<times> database) res" where
  "deadLetterEach parse newID [] now db = Inr ([], db)"
| "deadLetterEach parse newID (data # rest) now db =
     bind_res (deadLetterDelivery parse newID data now db) (\<lambda>(k, ns, db1).
     bind_res (deadLetterEach parse (\<lambda>j. newID (k + j)) rest now db1) (\<lambda>(ns', db2).
       Inr (ns @ ns', db2)))"

subsection \<open>DeadLetterDeliveries\<close>

record deadLetterDeliveriesResults =
  dldNumDeadLettered :: nat

definition NewDeadLetterDeliveries :: "int \<Rightarrow> int res" where
  "NewDeadLetterDeliveries maxDeliveries =
     (if maxDeliveries < 1 then Inl (Panic ''maxDeliveries must be > 0'') else Inr maxDeliveries)"

definition dead_letter_due :: "time \<Rightarrow> delivery \<Rightarrow> subscription \<Rightarrow> bool" where
  "dead_letter_due now d s \<longleftrightarrow> sID s = dSubscriptionID d \<and> sDeletedAt s = None \<and>
     (case sMaxDeliveryAttempts s of None \<Rightarrow> False | Some n \<Rightarrow> n > 0 \<and> dAttempts d \<ge> n) \<and>
     sDeadLetterTopicID s \<noteq> None \<and>
     dCompletedAt d = None \<and> dExpiresAt d > now \<and> dAttemptAt d \<le> now"

definition deliveryData :: "time \<Rightarrow> database \<Rightarrow> deadLetterData list" where
  "deliveryData now db =
     concat (map (\<lambda>d. map (\<lambda>s. \<lparr>dlDeliveryID = dID d, dlSubscriptionID = dSubscriptionID d,
         dlMessageID = dMessageID d, dlTopicID = the (sDeadLetterTopicID s)\<rparr>)
       (filter (dead_letter_due now d) (subscriptions db))) (deliveries db))"

definition DeadLetterDeliveries_Execute ::
    "filter_parser \<Rightarrow> (nat \<Rightarrow> uuid) \<Rightarrow> time \<Rightarrow> int \<Rightarrow> deadLetterDeliveriesResults exec" where
  "DeadLetterDeliveries_Execute parse newID now maxDeliveries db =
     (let data = take (nat maxDeliveries) (deliveryData now db) in
      bind_res (deadLetterEach parse newID data now db) (\<lambda>(ns, db').
        Inr (\<lparr>dldNumDeadLettered = length data\<rparr>, ns, db')))"

subsection \<open>Preservation of the invariant\<close>

lemma keeps_set_completed [simp]: "keeps_delivery_refs (set_completed now)"
  by (simp add: keeps_delivery_refs_def set_completed_def)

lemma wf_update_one_delivery [wf_intros]:
  "wf_db db \<Longrightarrow> update_one_delivery i f db = Inr db' \<Longrightarrow> keeps_delivery_refs f \<Longrightarrow> wf_db db'"
  by (auto simp: update_one_delivery_def split: if_splits intro: wf_update_deliveries)

lemma wf_redeliver [wf_intros]:
  "wf_db db \<Longrightarrow> redeliver parse newID data now dl db = Inr (ds, db') \<Longrightarrow> wf_db db'"
  by (auto simp: redeliver_def Let_def split: option.split_asm if_splits elim!: bind_res_InrE
      intro: wf_insert_deliveries)

lemma wf_deadLetterDelivery [wf_intros]:
  assumes "wf_db db" and "deadLetterDelivery parse newID data now db = Inr (k, ns, db')"
  shows "wf_db db'"
  using assms unfolding deadLetterDelivery_def
  by (auto elim!: bind_res_InrE intro: wf_update_one_delivery wf_redeliver)

lemma wf_deadLetterEach [wf_intros]:
  "wf_db db \<Longrightarrow> deadLetterEach parse newID data now db = Inr (ns, db') \<Longrightarrow> wf_db db'"
proof (induction data arbitrary: newID db ns)
  case (Cons x xs)
  then show ?case by (auto elim!: bind_res_InrE dest: wf_deadLetterDelivery)
qed simp

lemma wf_DeadLetterDeliveries [wf_intros]:
  assumes "wf_db db" and "DeadLetterDeliveries_Execute parse newID now n db = Inr (r, ns, db')"
  shows "wf_db db'"
  using assms by (auto simp: DeadLetterDeliveries_Execute_def Let_def elim!: bind_res_InrE
      intro: wf_deadLetterEach)

interpretation dead_letter_deliveries:
  db_action "\<lambda>(parse, newID, now, n). DeadLetterDeliveries_Execute parse newID now n" "\<lambda>_. True"
  by unfold_locales (auto intro: wf_intros)

subsection \<open>What dead-lettering a delivery does\<close>

definition dl_subs :: "uuid \<Rightarrow> database \<Rightarrow> subscription list" where
  "dl_subs t db =
     (if list_ex (\<lambda>x. tID x = t \<and> tDeletedAt x = None) (topics db) then topic_live_subs t db else [])"

lemma dl_topic_lookup:
  assumes "wf_db db"
  shows "(case only (filter (\<lambda>x. tID x = t \<and> tDeletedAt x = None) (topics db)) of
      Inr t \<Rightarrow> Inr (Some t) | Inl e \<Rightarrow> if e = EntNotFound then Inr None else Inl e) =
    Inr (first_row (filter (\<lambda>x. tID x = t \<and> tDeletedAt x = None) (topics db)))"
proof -
  have "length (filter (\<lambda>x. tID x = t \<and> tDeletedAt x = None) (topics db)) \<le> 1"
  proof (cases "\<exists>x\<in>set (topics db). tID x = t")
    case True
    then obtain x where x: "x \<in> set (topics db)" "tID x = t" by auto
    have "filter (\<lambda>x. tID x = t \<and> tDeletedAt x = None) (topics db) =
        filter (\<lambda>x. tDeletedAt x = None) (filter (\<lambda>x. tID x = t) (topics db))"
      by (simp add: conj_commute)
    also have "filter (\<lambda>x. tID x = t) (topics db) = [x]"
      using filter_key_eq[OF wf_db_distinct(1)[OF assms] x(1)] x(2) by simp
    finally show ?thesis by simp
  next
    case False
    then have "filter (\<lambda>x. tID x = t \<and> tDeletedAt x = None) (topics db) = []"
      by (auto simp: filter_empty_conv)
    then show ?thesis by simp
  qed
  then show ?thesis
    by (cases "filter (\<lambda>x. tID x = t \<and> tDeletedAt x = None) (topics db)") (auto simp: only_def)
qed

lemma redeliver_eq:
  assumes "wf_db db" and "parse_wf parse" and "fresh_ids newID (length (subscriptions db)) db"
    and "m \<in> set (messages db)" and "mID m = dlMessageID data"
  shows "redeliver parse newID data now
      (first_row (filter (\<lambda>x. tID x = dlTopicID data \<and> tDeletedAt x = None) (topics db))) db =
    (let ds = deliveries_for parse db m now newID 0 (dl_subs (dlTopicID data) db) in
     Inr (ds, db\<lparr>deliveries := deliveries db @ ds\<rparr>))"
proof (cases "filter (\<lambda>x. tID x = dlTopicID data \<and> tDeletedAt x = None) (topics db)")
  case Nil
  then have "dl_subs (dlTopicID data) db = []" by (auto simp: dl_subs_def list_ex_iff filter_empty_conv)
  with Nil show ?thesis by (simp add: redeliver_def deliveries_for_def)
next
  case (Cons t ts)
  then have t: "t \<in> set (topics db)" "tID t = dlTopicID data" "tDeletedAt t = None"
    by (auto dest: filter_eq_ConsD)
  then have subs: "dl_subs (dlTopicID data) db = topic_live_subs (tID t) db"
    by (auto simp: dl_subs_def list_ex_iff)
  have "filter (\<lambda>x. mID x = mID m) (messages db) = [m]"
    using wf_db_distinct(3)[OF assms(1)] assms(4) by (rule filter_key_eq)
  moreover have "insert_deliveries (deliveries_for parse db m now newID 0 (topic_live_subs (tID t) db)) db =
      Inr (db\<lparr>deliveries := deliveries db @
        deliveries_for parse db m now newID 0 (topic_live_subs (tID t) db)\<rparr>)"
    using fresh_ids_fewer[OF assms(3), of "length (topic_live_subs (tID t) db)"] assms(4)
    by (intro insert_deliveries_for) (auto simp: message_ids_def topic_live_subs_def)
  moreover have "deliveries_for parse db m now newID 0 [] = []" by (simp add: deliveries_for_def)
  ultimately show ?thesis
    unfolding subs Cons using assms(5)
    by (cases "topic_live_subs (tID t) db = []")
      (simp_all add: redeliver_def Let_def deliverAll_eq[OF assms(2)])
qed

lemma deadLetterDelivery_eq:
  assumes "wf_db db" and "parse_wf parse" and "fresh_ids newID (length (subscriptions db)) db"
    and "d \<in> set (deliveries db)" and "dlDeliveryID data = dID d"
    and "m \<in> set (messages db)" and "mID m = dlMessageID data"
  shows "deadLetterDelivery parse newID data now db =
    (let ds = deliveries_for parse db m now newID 0 (dl_subs (dlTopicID data) db) in
     Inr (length ds, publish_notices ds @ [NotifyPublish [dlSubscriptionID data]],
       db\<lparr>deliveries := update_where (\<lambda>x. dID x = dID d) (set_completed now) (deliveries db) @ ds\<rparr>))"
proof -
  let ?ss = "dl_subs (dlTopicID data) db"
  let ?ds = "deliveries_for parse db m now newID 0 ?ss"
  have "length ?ss \<le> length (subscriptions db)" by (simp add: dl_subs_def topic_live_subs_def)
  from deliveries_for_fresh(2)[OF fresh_ids_fewer[OF assms(3) this]]
  have fresh: "dID x \<notin> delivery_ids db" if "x \<in> set ?ds" for x using that .
  have "update_where (\<lambda>x. dID x = dID d) (set_completed now) ?ds = ?ds"
    using fresh assms(4) by (intro update_where_none) (auto simp: delivery_ids_def)
  moreover have "update_where P f (xs @ ys) = update_where P f xs @ update_where P f ys"
    for P f and xs ys :: "delivery list" by (simp add: update_where_def)
  ultimately have "update_one_delivery (dID d) (set_completed now) (db\<lparr>deliveries := deliveries db @ ?ds\<rparr>) =
      Inr (db\<lparr>deliveries := update_where (\<lambda>x. dID x = dID d) (set_completed now) (deliveries db) @ ?ds\<rparr>)"
    using assms(4) by (auto simp: update_one_delivery_def update_deliveries_def list_ex_iff)
  then show ?thesis
    using redeliver_eq[OF assms(1-3,6,7), of now] dl_topic_lookup[OF assms(1), of "dlTopicID data"] assms(5)
    by (simp add: deadLetterDelivery_def Let_def)
qed

text \<open>
  Dead-lettering a delivery of a well-formed database always succeeds: it completes
  that delivery and no other, adds one open delivery of the same message for each live
  subscription of the dead letter topic that accepts it (none when the topic is deleted), wakes
  each of these and the subscription the delivery came from, and changes nothing else.
\<close>

theorem deadLetterDelivery_correct:
  assumes "wf_db db" and "parse_wf parse" and "fresh_ids newID (length (subscriptions db)) db"
    and "d \<in> set (deliveries db)" and "sDeadLetterTopicID s = Some t"
    and "deadLetterDataFromEntities d s = Inr data"
  shows "\<exists>m ds. m \<in> set (messages db) \<and> mID m = dMessageID d \<and>
    deadLetterDelivery parse newID data now db =
      Inr (length ds, map (\<lambda>x. NotifyPublish [dSubscriptionID x]) ds @ [NotifyPublish [dSubscriptionID d]],
        db\<lparr>deliveries := map (\<lambda>x. if x = d then x\<lparr>dCompletedAt := Some now\<rparr> else x) (deliveries db) @ ds\<rparr>) \<and>
    map dSubscriptionID ds =
      (if \<exists>x\<in>set (topics db). tID x = t \<and> tDeletedAt x = None
       then map sID (filter (\<lambda>s. sTopicID s = t \<and> sDeletedAt s = None \<and> accepts parse s (mAttributes m))
         (subscriptions db)) else []) \<and>
    (\<forall>x\<in>set ds. dMessageID x = dMessageID d \<and> dCompletedAt x = None \<and> dAttempts x = 0)"
proof -
  obtain m where m: "m \<in> set (messages db)" "mID m = dMessageID d"
    using wf_db_refs(4)[OF assms(1,4)] by (auto simp: message_ids_def)
  let ?ds = "deliveries_for parse db m now newID 0 (dl_subs t db)"
  have data: "dlDeliveryID data = dID d" "dlSubscriptionID data = dSubscriptionID d"
      "dlMessageID data = dMessageID d" "dlTopicID data = t"
    using assms(5,6) by (auto simp: deadLetterDataFromEntities_def)
  have "dID x = dID d \<longleftrightarrow> x = d" if "x \<in> set (deliveries db)" for x
    using wf_db_distinct(4)[OF assms(1)] that assms(4) by (auto dest: distinct_map_eqD)
  then have upd: "update_where (\<lambda>x. dID x = dID d) (set_completed now) (deliveries db) =
      map (\<lambda>x. if x = d then x\<lparr>dCompletedAt := Some now\<rparr> else x) (deliveries db)"
    by (simp add: update_where_def set_completed_def)
  have "map dSubscriptionID ?ds = map sID (map snd (enumerate 0
      (filter (\<lambda>s. accepts parse s (mAttributes m)) (dl_subs t db))))"
    by (simp add: deliveries_for_def comp_def case_prod_beta del: map_snd_enumerate)
  then have "map dSubscriptionID ?ds = (if \<exists>x\<in>set (topics db). tID x = t \<and> tDeletedAt x = None
       then map sID (filter (\<lambda>s. sTopicID s = t \<and> sDeletedAt s = None \<and> accepts parse s (mAttributes m))
         (subscriptions db)) else [])"
    by (auto simp: dl_subs_def topic_live_subs_def list_ex_iff conj_assoc cong: filter_cong)
  moreover have "\<forall>x\<in>set ?ds. dMessageID x = dMessageID d \<and> dCompletedAt x = None \<and> dAttempts x = 0"
    using m(2) by (auto dest!: in_deliveries_for)
  ultimately show ?thesis
    using deadLetterDelivery_eq[OF assms(1-4) data(1) m(1), of now] m data upd
    by (intro exI[of _ m] exI[of _ ?ds]) (simp add: Let_def publish_notices_def)
qed

theorem deadLetterDelivery_correct_witness:
  "\<exists>r. deadLetterDelivery (\<lambda>_. None) (\<lambda>k. 33 + of_nat k)
     \<lparr>dlDeliveryID = 31, dlSubscriptionID = 11, dlMessageID = 21, dlTopicID = 2\<rparr> 50 sample_db = Inr r \<and>
     map dSubscriptionID (deliveries (snd (snd r))) = [11, 11, 12]"
proof -
  have "sample_del1 \<in> set (deliveries sample_db)" "sDeadLetterTopicID sample_sub = Some 2"
    "deadLetterDataFromEntities sample_del1 sample_sub =
      Inr \<lparr>dlDeliveryID = 31, dlSubscriptionID = 11, dlMessageID = 21, dlTopicID = 2\<rparr>"
    and "parse_wf (\<lambda>_. None)"
    by (simp_all add: sample_defs deadLetterDataFromEntities_def parse_wf_def)
  from deadLetterDelivery_correct[OF wf_sample_db this(4) fresh_sample_ids this(1-3), of 50]
  obtain ds where "deadLetterDelivery (\<lambda>_. None) (\<lambda>k. 33 + of_nat k)
        \<lparr>dlDeliveryID = 31, dlSubscriptionID = 11, dlMessageID = 21, dlTopicID = 2\<rparr> 50 sample_db =
      Inr (length ds, map (\<lambda>x. NotifyPublish [dSubscriptionID x]) ds @ [NotifyPublish [11]],
        sample_db\<lparr>deliveries := [sample_del1\<lparr>dCompletedAt := Some 50\<rparr>, sample_del2] @ ds\<rparr>)"
    and "map dSubscriptionID ds = [12]"
    by (auto simp: sample_defs accepts_def)
  then show ?thesis by (simp add: sample_defs)
qed

lemma dID_set_completed [simp]: "dID (set_completed now d) = dID d"
  by (simp add: set_completed_def)

lemma set_completed_idem: "update_where Q (set_completed now) (update_where P (set_completed now) xs) =
    update_where (\<lambda>x. P x \<or> Q x) (set_completed now) xs"
  if "\<And>x. Q (set_completed now x) = Q x"
  using that by (induction xs) (auto simp: set_completed_def)

lemma fresh_ids_shift:
  assumes "fresh_ids newID (k + n) db"
    and "delivery_ids db' \<subseteq> delivery_ids db \<union> newID ` {..<k}"
  shows "fresh_ids (\<lambda>j. newID (k + j)) n db'"
proof -
  have inj: "inj_on newID {..<k + n}" using assms(1) by (simp add: fresh_ids_def)
  have "inj_on (\<lambda>j. newID (k + j)) {..<n}"
    by (rule inj_onI) (use inj in \<open>auto dest: inj_onD\<close>)
  moreover have "newID (k + j) \<notin> delivery_ids db'" if "j < n" for j
  proof
    assume "newID (k + j) \<in> delivery_ids db'"
    with assms that obtain i where "i < k" "newID (k + j) = newID i" by (auto simp: fresh_ids_def)
    with inj that show False by (auto dest: inj_onD)
  qed
  ultimately show ?thesis by (simp add: fresh_ids_def)
qed

text \<open>
  Where a dead-lettered message goes: the live subscriptions of the dead letter topic, if that is
  live, whose filter the message passes. What is added and who is woken, for the deliveries of a list.
\<close>

definition dl_receivers :: "filter_parser \<Rightarrow> database \<Rightarrow> uuid \<Rightarrow> uuid \<Rightarrow> uuid list" where
  "dl_receivers parse db t i =
     (if \<exists>x\<in>set (topics db). tID x = t \<and> tDeletedAt x = None
      then map sID (filter (\<lambda>s. sTopicID s = t \<and> sDeletedAt s = None \<and>
        (\<exists>m\<in>set (messages db). mID m = i \<and> accepts parse s (mAttributes m))) (subscriptions db)) else [])"

definition dl_added :: "filter_parser \<Rightarrow> database \<Rightarrow> (uuid \<times> uuid) list \<Rightarrow> (uuid \<times> uuid) list" where
  "dl_added parse db tms = concat (map (\<lambda>(t, i). map (\<lambda>s. (s, i)) (dl_receivers parse db t i)) tms)"

definition dl_wakes :: "filter_parser \<Rightarrow> database \<Rightarrow> (uuid \<times> uuid \<times> uuid) list \<Rightarrow> notice list" where
  "dl_wakes parse db stms = concat (map (\<lambda>(s, t, i). map (\<lambda>x. NotifyPublish [x]) (dl_receivers parse db t i) @ [NotifyPublish [s]]) stms)"

definition sub_and_message :: "delivery \<Rightarrow> uuid \<times> uuid" where
  "sub_and_message d = (dSubscriptionID d, dMessageID d)"

lemma dl_added_simps [simp]:
  "dl_added parse db [] = []"
  "dl_added parse db ((t, i) # tms) = map (\<lambda>s. (s, i)) (dl_receivers parse db t i) @ dl_added parse db tms"
  by (simp_all add: dl_added_def)

lemma dl_wakes_simps [simp]:
  "dl_wakes parse db [] = []"
  "dl_wakes parse db ((s, t, i) # stms) =
     map (\<lambda>x. NotifyPublish [x]) (dl_receivers parse db t i) @ NotifyPublish [s] # dl_wakes parse db stms"
  by (simp_all add: dl_wakes_def)

lemma dl_receivers_cong:
  assumes "topics db' = topics db" and "subscriptions db' = subscriptions db" and "messages db' = messages db"
  shows "dl_receivers parse db' = dl_receivers parse db" and "dl_added parse db' = dl_added parse db"
    and "dl_wakes parse db' = dl_wakes parse db"
proof -
  show r: "dl_receivers parse db' = dl_receivers parse db" unfolding dl_receivers_def[abs_def] assms ..
  show "dl_added parse db' = dl_added parse db" "dl_wakes parse db' = dl_wakes parse db"
    unfolding dl_added_def[abs_def] dl_wakes_def[abs_def] r by simp_all
qed

lemma dl_receivers_deliveries:
  assumes "wf_db db" and "m \<in> set (messages db)" and "mID m = i"
  shows "map sub_and_message (deliveries_for parse db m now newID 0 (dl_subs t db)) = map (\<lambda>s. (s, i)) (dl_receivers parse db t i)"
proof -
  have m: "(\<exists>x\<in>set (messages db). mID x = i \<and> P x) \<longleftrightarrow> P m" for P
    using distinct_map_eqD[OF wf_db_distinct(3)[OF assms(1)]] assms(2,3) by blast
  have "map sub_and_message (deliveries_for parse db m now newID 0 (dl_subs t db)) =
      map (\<lambda>s. (sID s, mID m)) (map snd (enumerate 0 (filter (\<lambda>s. accepts parse s (mAttributes m)) (dl_subs t db))))"
    by (simp add: deliveries_for_def comp_def case_prod_beta sub_and_message_def del: map_snd_enumerate)
  also have "\<dots> = map (\<lambda>s. (s, i)) (dl_receivers parse db t i)"
    using assms(3) by (auto simp: dl_subs_def dl_receivers_def m topic_live_subs_def list_ex_iff conj_assoc comp_def cong: filter_cong)
  finally show ?thesis .
qed

text \<open>
  One step of a loop that dead-letters: the delivery is completed, the added ones are open and
  carry identifiers drawn from the supply, and the rest of the supply is fresh for the next step.
\<close>

lemma deadLetterDelivery_step:
  assumes "wf_db db" and "parse_wf parse" and "fresh_ids newID (length (subscriptions db) + n) db"
    and "dlDeliveryID data \<in> delivery_ids db" and "dlMessageID data \<in> message_ids db"
  obtains k ns ds db1 where "deadLetterDelivery parse newID data now db = Inr (k, ns, db1)"
    and "db1 = db\<lparr>deliveries := update_where (\<lambda>x. dID x = dlDeliveryID data) (set_completed now)
      (deliveries db) @ ds\<rparr>"
    and "\<forall>x\<in>set ds. dCompletedAt x = None \<and> dAttempts x = 0 \<and> dID x \<notin> delivery_ids db"
    and "fresh_ids (\<lambda>j. newID (k + j)) n db1" and "delivery_ids db \<subseteq> delivery_ids db1" and "wf_db db1"
    and "map sub_and_message ds = dl_added parse db [(dlTopicID data, dlMessageID data)]"
    and "ns = dl_wakes parse db [(dlSubscriptionID data, dlTopicID data, dlMessageID data)]"
proof -
  obtain d where d: "d \<in> set (deliveries db)" "dlDeliveryID data = dID d"
    using assms(4) by (auto simp: delivery_ids_def)
  obtain m where m: "m \<in> set (messages db)" "mID m = dlMessageID data"
    using assms(5) by (auto simp: message_ids_def)
  let ?ss = "dl_subs (dlTopicID data) db"
  let ?ds = "deliveries_for parse db m now newID 0 ?ss"
  let ?db1 = "db\<lparr>deliveries := update_where (\<lambda>x. dID x = dID d) (set_completed now) (deliveries db) @ ?ds\<rparr>"
  have f1: "fresh_ids newID (length (subscriptions db)) db" using assms(3) by (rule fresh_ids_fewer) simp
  have eq1: "deadLetterDelivery parse newID data now db = Inr (length ?ds,
      publish_notices ?ds @ [NotifyPublish [dlSubscriptionID data]], ?db1)"
    using deadLetterDelivery_eq[OF assms(1,2) f1 d m, of now] by (simp add: Let_def)
  have len: "length ?ds \<le> length (subscriptions db)"
    by (simp add: deliveries_for_def dl_subs_def topic_live_subs_def)
  have new_ids: "dID ` set ?ds = newID ` {..<length ?ds}"
  proof -
    have "length ?ds = length (filter (\<lambda>s. accepts parse s (mAttributes m)) ?ss)"
      by (simp add: deliveries_for_def)
    then show ?thesis
      using arg_cong[OF deliveries_for_ids[of parse db m now newID ?ss], of set]
      by (simp add: lessThan_atLeast0)
  qed
  have "map dID (update_where (\<lambda>x. dID x = dID d) (set_completed now) (deliveries db)) = map dID (deliveries db)"
    by (rule map_update_where) simp
  then have ids1: "delivery_ids ?db1 = delivery_ids db \<union> newID ` {..<length ?ds}"
    unfolding delivery_ids_def using new_ids by (simp flip: set_map add: image_Un)
  have "fresh_ids (\<lambda>j. newID (length ?ds + j)) n ?db1"
    using fresh_ids_fewer[OF assms(3), of "length ?ds + n"] len ids1 by (intro fresh_ids_shift) auto
  moreover have "dCompletedAt x = None \<and> dAttempts x = 0 \<and> dID x \<notin> delivery_ids db" if "x \<in> set ?ds" for x
  proof -
    have "dID x \<in> newID ` {..<length ?ds}" using that unfolding new_ids[symmetric] by simp
    with f1 len in_deliveries_for[OF that] show ?thesis by (auto simp: fresh_ids_def)
  qed
  moreover have added: "map sub_and_message ?ds = map (\<lambda>s. (s, dlMessageID data)) (dl_receivers parse db (dlTopicID data) (dlMessageID data))"
    by (rule dl_receivers_deliveries[OF assms(1) m])
  moreover have "map dSubscriptionID ?ds = dl_receivers parse db (dlTopicID data) (dlMessageID data)"
    using arg_cong[OF added, of "map fst"] by (simp add: comp_def sub_and_message_def)
  then have "publish_notices ?ds = map (\<lambda>x. NotifyPublish [x]) (dl_receivers parse db (dlTopicID data) (dlMessageID data))"
    unfolding publish_notices_def by (metis (no_types, lifting) list.map_comp comp_def map_cong)
  ultimately show thesis
    using eq1 wf_deadLetterDelivery[OF assms(1) eq1] ids1 d(2) by (intro that[OF eq1]) auto
qed

lemma update_where_append: "update_where P f (xs @ ys) = update_where P f xs @ update_where P f ys"
  by (simp add: update_where_def)

lemma deadLetterEach_ok:
  assumes "wf_db db" and "parse_wf parse"
    and "fresh_ids newID (length data * length (subscriptions db)) db"
    and "\<forall>x\<in>set data. dlDeliveryID x \<in> delivery_ids db \<and> dlMessageID x \<in> message_ids db"
  shows "\<exists>ds. deadLetterEach parse newID data now db =
      Inr (dl_wakes parse db (map (\<lambda>x. (dlSubscriptionID x, dlTopicID x, dlMessageID x)) data), db\<lparr>deliveries :=
      update_where (\<lambda>x. dID x \<in> dlDeliveryID ` set data) (set_completed now) (deliveries db) @ ds\<rparr>) \<and>
    (\<forall>x\<in>set ds. dCompletedAt x = None \<and> dAttempts x = 0 \<and> dID x \<notin> delivery_ids db) \<and>
    map sub_and_message ds = dl_added parse db (map (\<lambda>x. (dlTopicID x, dlMessageID x)) data)"
  using assms
proof (induction data arbitrary: newID db)
  case Nil
  show ?case by (rule exI[of _ "[]"]) (simp add: update_where_def)
next
  case (Cons a data)
  let ?N = "length (subscriptions db)"
  have f: "fresh_ids newID (?N + length data * ?N) db" using Cons.prems(3) by simp
  have a: "dlDeliveryID a \<in> delivery_ids db" "dlMessageID a \<in> message_ids db"
    using Cons.prems(4) by auto
  obtain k ns ds db1 where eq1: "deadLetterDelivery parse newID a now db = Inr (k, ns, db1)"
    and db1: "db1 = db\<lparr>deliveries := update_where (\<lambda>x. dID x = dlDeliveryID a) (set_completed now)
      (deliveries db) @ ds\<rparr>"
    and new: "\<forall>x\<in>set ds. dCompletedAt x = None \<and> dAttempts x = 0 \<and> dID x \<notin> delivery_ids db"
    and f2: "fresh_ids (\<lambda>j. newID (k + j)) (length data * ?N) db1"
    and ids1: "delivery_ids db \<subseteq> delivery_ids db1" and wf1: "wf_db db1"
    and add1: "map sub_and_message ds = dl_added parse db [(dlTopicID a, dlMessageID a)]"
    and ns: "ns = dl_wakes parse db [(dlSubscriptionID a, dlTopicID a, dlMessageID a)]"
    by (rule deadLetterDelivery_step[OF Cons.prems(1,2) f a])
  have same: "subscriptions db1 = subscriptions db" "message_ids db1 = message_ids db"
    by (simp_all add: db1 message_ids_def)
  note cong = dl_receivers_cong[of db1 db, unfolded db1, simplified, folded db1]
  let ?Q = "\<lambda>x. dID x \<in> dlDeliveryID ` set data"
  obtain ds' where IH: "deadLetterEach parse (\<lambda>j. newID (k + j)) data now db1 =
      Inr (dl_wakes parse db (map (\<lambda>x. (dlSubscriptionID x, dlTopicID x, dlMessageID x)) data),
        db1\<lparr>deliveries := update_where ?Q (set_completed now) (deliveries db1) @ ds'\<rparr>)"
    and new': "\<forall>x\<in>set ds'. dCompletedAt x = None \<and> dAttempts x = 0 \<and> dID x \<notin> delivery_ids db1"
    and add2: "map sub_and_message ds' = dl_added parse db (map (\<lambda>x. (dlTopicID x, dlMessageID x)) data)"
    using Cons.IH[OF wf1 Cons.prems(2), of "\<lambda>j. newID (k + j)"] f2 Cons.prems(4) ids1
    unfolding same cong by auto
  have "update_where ?Q (set_completed now) ds = ds"
    using Cons.prems(4) new by (intro update_where_none) auto
  then have "update_where ?Q (set_completed now) (deliveries db1) =
      update_where (\<lambda>x. dID x \<in> dlDeliveryID ` set (a # data)) (set_completed now) (deliveries db) @ ds"
    using set_completed_idem[of ?Q now "\<lambda>x. dID x = dlDeliveryID a"] by (simp add: db1 update_where_append)
  then show ?case
    using eq1 IH new new' ids1 add1 add2 ns
    by (intro exI[of _ "ds @ ds'"]) (auto simp: db1)
qed

text \<open>The rows that the query of the background action finds are the due deliveries with their subscriptions.\<close>

definition sub_of :: "database \<Rightarrow> delivery \<Rightarrow> subscription" where
  "sub_of db d = hd (filter (\<lambda>s. sID s = dSubscriptionID d) (subscriptions db))"

lemma sub_of_unique:
  assumes "wf_db db" and "d \<in> set (deliveries db)"
  shows "filter (\<lambda>s. sID s = dSubscriptionID d) (subscriptions db) = [sub_of db d]"
    and "sub_of db d \<in> set (subscriptions db)" and "sID (sub_of db d) = dSubscriptionID d"
proof -
  obtain s where s: "s \<in> set (subscriptions db)" "sID s = dSubscriptionID d"
    using wf_db_refs(5)[OF assms] by (auto simp: sub_ids_def)
  from filter_key_eq[OF wf_db_distinct(2)[OF assms(1)] s(1)] s(2)
  have "filter (\<lambda>s. sID s = dSubscriptionID d) (subscriptions db) = [s]" by simp
  then show "filter (\<lambda>s. sID s = dSubscriptionID d) (subscriptions db) = [sub_of db d]"
    "sub_of db d \<in> set (subscriptions db)" "sID (sub_of db d) = dSubscriptionID d" using s by (simp_all add: sub_of_def)
qed

lemma deliveryData_eq:
  assumes "wf_db db"
  shows "deliveryData now db = map (\<lambda>d. \<lparr>dlDeliveryID = dID d, dlSubscriptionID = dSubscriptionID d,
      dlMessageID = dMessageID d, dlTopicID = the (sDeadLetterTopicID (sub_of db d))\<rparr>)
    (filter (\<lambda>d. dead_letter_due now d (sub_of db d)) (deliveries db))"
proof -
  have "filter (dead_letter_due now d) (subscriptions db) = (if dead_letter_due now d (sub_of db d) then [sub_of db d] else [])"
    if "d \<in> set (deliveries db)" for d
  proof -
    have "filter (dead_letter_due now d) (subscriptions db) =
        filter (dead_letter_due now d) (filter (\<lambda>s. sID s = dSubscriptionID d) (subscriptions db))"
      by (auto simp: dead_letter_due_def intro!: filter_cong)
    then show ?thesis using sub_of_unique(1)[OF assms that] by simp
  qed
  then have "deliveryData now db = concat (map (\<lambda>d. if dead_letter_due now d (sub_of db d)
      then [\<lparr>dlDeliveryID = dID d, dlSubscriptionID = dSubscriptionID d, dlMessageID = dMessageID d,
        dlTopicID = the (sDeadLetterTopicID (sub_of db d))\<rparr>] else []) (deliveries db))"
    unfolding deliveryData_def by (intro arg_cong[of _ _ concat] map_cong) auto
  also have "concat (map (\<lambda>d. if P d then [f d] else []) xs) = map f (filter P xs)" for P and f :: "delivery \<Rightarrow> deadLetterData" and xs
    by (induction xs) auto
  finally show ?thesis .
qed

text \<open>
  Property C27. The dead letter service's action on a well-formed database always succeeds and does
  all of the following for as many of the exhausted deliveries as its limit allows. Exhausted are the
  open and unexpired ones that are not waiting for an ack and have reached the positive maximum of
  attempts of their live subscription, which names a dead letter topic. Each of them is completed, and
  its message gets a new open delivery for every live subscription of the live dead letter topic
  that accepts it; these subscriptions and the one the delivery came from are woken. No other
  delivery changes.
\<close>

theorem DeadLetterDeliveries_correct:
  assumes "wf_db db" and "parse_wf parse"
    and "fresh_ids newID (nat n * length (subscriptions db)) db"
    and "\<And>d. sub d = hd (filter (\<lambda>s. sID s = dSubscriptionID d) (subscriptions db))"
    and "picked = take (nat n) (filter (\<lambda>d. dCompletedAt d = None \<and> now < dExpiresAt d \<and> dAttemptAt d \<le> now \<and>
      sDeletedAt (sub d) = None \<and> sDeadLetterTopicID (sub d) \<noteq> None \<and>
      (\<exists>k. sMaxDeliveryAttempts (sub d) = Some k \<and> 0 < k \<and> k \<le> dAttempts d)) (deliveries db))"
  shows "\<exists>ds. DeadLetterDeliveries_Execute parse newID now n db =
      Inr (\<lparr>dldNumDeadLettered = length picked\<rparr>,
        dl_wakes parse db (map (\<lambda>d. (dSubscriptionID d, the (sDeadLetterTopicID (sub d)), dMessageID d)) picked),
        db\<lparr>deliveries := map (\<lambda>d. if d \<in> set picked then d\<lparr>dCompletedAt := Some now\<rparr> else d) (deliveries db) @ ds\<rparr>) \<and>
    map (\<lambda>x. (dSubscriptionID x, dMessageID x)) ds =
      dl_added parse db (map (\<lambda>d. (the (sDeadLetterTopicID (sub d)), dMessageID d)) picked) \<and>
    (\<forall>d\<in>set ds. dCompletedAt d = None \<and> dAttempts d = 0 \<and> dID d \<notin> delivery_ids db)"
proof -
  have sub: "sub = sub_of db" by (simp add: fun_eq_iff sub_of_def assms(4))
  let ?data = "take (nat n) (deliveryData now db)"
  have "dead_letter_due now d (sub d) \<longleftrightarrow> dCompletedAt d = None \<and> now < dExpiresAt d \<and> dAttemptAt d \<le> now \<and>
      sDeletedAt (sub d) = None \<and> sDeadLetterTopicID (sub d) \<noteq> None \<and>
      (\<exists>k. sMaxDeliveryAttempts (sub d) = Some k \<and> 0 < k \<and> k \<le> dAttempts d)" if "d \<in> set (deliveries db)" for d
    using sub_of_unique(3)[OF assms(1) that] by (auto simp: dead_letter_due_def sub split: option.splits)
  then have picked: "picked = take (nat n) (filter (\<lambda>d. dead_letter_due now d (sub d)) (deliveries db))"
    unfolding assms(5) by (intro arg_cong[of _ _ "take (nat n)"] filter_cong) auto
  then have data: "?data = map (\<lambda>d. \<lparr>dlDeliveryID = dID d, dlSubscriptionID = dSubscriptionID d,
      dlMessageID = dMessageID d, dlTopicID = the (sDeadLetterTopicID (sub d))\<rparr>) picked"
    by (simp add: deliveryData_eq[OF assms(1)] sub take_map)
  have in_db: "set picked \<subseteq> set (deliveries db)" unfolding picked by (auto dest: in_set_takeD)
  have len: "length ?data = length picked" unfolding data by simp
  have "length ?data * length (subscriptions db) \<le> nat n * length (subscriptions db)"
    by (intro mult_le_mono1) simp
  note f = fresh_ids_fewer[OF assms(3) this]
  have known: "\<forall>x\<in>set ?data. dlDeliveryID x \<in> delivery_ids db \<and> dlMessageID x \<in> message_ids db"
    using wf_db_refs(4)[OF assms(1)] in_db unfolding data by (auto simp: delivery_ids_def)
  have "dID d \<in> dlDeliveryID ` set ?data \<longleftrightarrow> d \<in> set picked" if "d \<in> set (deliveries db)" for d
    unfolding data using in_db that distinct_map_eqD[OF wf_db_distinct(4)[OF assms(1)]] by (auto simp: image_iff)
  then have "update_where (\<lambda>x. dID x \<in> dlDeliveryID ` set ?data) (set_completed now) (deliveries db) =
      map (\<lambda>d. if d \<in> set picked then d\<lparr>dCompletedAt := Some now\<rparr> else d) (deliveries db)"
    by (simp add: update_where_def set_completed_def)
  then show ?thesis
    using deadLetterEach_ok[OF assms(1,2) f known, of now] len unfolding sub_and_message_def[abs_def]
    by (auto simp: DeadLetterDeliveries_Execute_def Let_def) (auto simp: data comp_def)
qed

theorem DeadLetterDeliveries_correct_witness:
  "\<exists>ds. DeadLetterDeliveries_Execute (\<lambda>_. None) (\<lambda>k. 33 + of_nat k) 50 1
     (sample_db\<lparr>deliveries := [sample_del1\<lparr>dAttempts := 2\<rparr>]\<rparr>) = Inr (\<lparr>dldNumDeadLettered = 1\<rparr>,
       [NotifyPublish [12], NotifyPublish [11]],
       sample_db\<lparr>deliveries := [sample_del1\<lparr>dAttempts := 2, dCompletedAt := Some 50\<rparr>] @ ds\<rparr>) \<and>
     map (\<lambda>x. (dSubscriptionID x, dMessageID x)) ds = [(12, 21)]"
proof -
  let ?db = "sample_db\<lparr>deliveries := [sample_del1\<lparr>dAttempts := 2\<rparr>]\<rparr>"
  have "wf_db ?db"
    by (simp add: sample_defs wf_db_def topics_wf_def subs_wf_def snapshots_wf_def unique_live_def
        all_consistent_def sub_refs_def delivery_refs_def id_defs)
  moreover have "fresh_ids (\<lambda>k. 33 + of_nat k) (nat 1 * length (subscriptions ?db)) ?db"
    using fresh_sample_ids by (auto simp: fresh_ids_def delivery_ids_def sample_defs)
  moreover have "parse_wf (\<lambda>_. None)" by (simp add: parse_wf_def)
  moreover
  let ?d = "sample_del1\<lparr>dAttempts := 2\<rparr>"
  let ?sub = "\<lambda>d. hd (filter (\<lambda>s. sID s = dSubscriptionID d) (subscriptions ?db))"
  have "[?d] = take (nat 1) (filter (\<lambda>d. dCompletedAt d = None \<and> 50 < dExpiresAt d \<and> dAttemptAt d \<le> 50 \<and>
      sDeletedAt (?sub d) = None \<and> sDeadLetterTopicID (?sub d) \<noteq> None \<and>
      (\<exists>k. sMaxDeliveryAttempts (?sub d) = Some k \<and> 0 < k \<and> k \<le> dAttempts d)) (deliveries ?db))"
    by (simp add: sample_defs)
  ultimately obtain ds where ds: "DeadLetterDeliveries_Execute (\<lambda>_. None) (\<lambda>k. 33 + of_nat k) 50 1 ?db =
      Inr (\<lparr>dldNumDeadLettered = length [?d]\<rparr>,
        dl_wakes (\<lambda>_. None) ?db (map (\<lambda>d. (dSubscriptionID d, the (sDeadLetterTopicID (?sub d)), dMessageID d)) [?d]),
        ?db\<lparr>deliveries := map (\<lambda>d. if d \<in> set [?d] then d\<lparr>dCompletedAt := Some 50\<rparr> else d) (deliveries ?db) @ ds\<rparr>)"
    "map (\<lambda>x. (dSubscriptionID x, dMessageID x)) ds =
      dl_added (\<lambda>_. None) ?db (map (\<lambda>d. (the (sDeadLetterTopicID (?sub d)), dMessageID d)) [?d])"
    using DeadLetterDeliveries_correct[of ?db "\<lambda>_. None" "\<lambda>k. 33 + of_nat k" 1 ?sub "[?d]" 50, OF _ _ _ refl] by blast
  have r: "dl_receivers (\<lambda>_. None) ?db 2 21 = [12]" by (simp add: dl_receivers_def sample_defs accepts_def)
  have v: "the (sDeadLetterTopicID (hd (filter (\<lambda>s. sID s = 11) (subscriptions sample_db)))) = 2" "dMessageID ?d = 21" "dSubscriptionID ?d = 11" by (simp_all add: sample_defs)
  show ?thesis using ds by (intro exI[of _ ds]) (simp add: v r)
qed

end
