(* ===== verification/Uuid.thy ===== *)
theory Uuid
  imports Prelude
begin

text \<open>
  Identifiers, \<open>parse/uuid-slice.go\<close>: the byte-wise comparison the actions sort by, and the
  conversion of a list of texts, for which the third-party \<open>uuid.Parse\<close> is an argument.
\<close>

definition uuid_byte :: "uuid \<Rightarrow> nat \<Rightarrow> 8 word" where
  "uuid_byte a n = ucast (drop_bit (8 * (15 - n)) a)"

function UUIDLess_from :: "nat \<Rightarrow> uuid \<Rightarrow> uuid \<Rightarrow> bool" where
  "UUIDLess_from n a b =
     (if n \<ge> 16 then False
      else if uuid_byte a n < uuid_byte b n then True
      else if uuid_byte b n < uuid_byte a n then False
      else UUIDLess_from (Suc n) a b)"
  by pat_completeness auto
termination by (relation "measure (\<lambda>(n, _, _). 16 - n)") auto

declare UUIDLess_from.simps [simp del]

definition UUIDLess :: "uuid \<Rightarrow> uuid \<Rightarrow> bool" where
  "UUIDLess a b = UUIDLess_from 0 a b"

text \<open>
  \<open>sort.Slice\<close> with this comparison. The keys the code sorts by are distinct, so there is one
  sorted arrangement.
\<close>

fun insert_by :: "('a \<Rightarrow> uuid) \<Rightarrow> 'a \<Rightarrow> 'a list \<Rightarrow> 'a list" where
  "insert_by k x [] = [x]"
| "insert_by k x (y # ys) = (if UUIDLess (k y) (k x) then y # insert_by k x ys else x # y # ys)"

definition sort_by :: "('a \<Rightarrow> uuid) \<Rightarrow> 'a list \<Rightarrow> 'a list" where
  "sort_by k xs = foldr (insert_by k) xs []"

fun parse_all :: "(string \<Rightarrow> 'e + uuid) \<Rightarrow> string list \<Rightarrow> 'e + uuid list" where
  "parse_all parse [] = Inr []"
| "parse_all parse (s # ss) =
     bind_res (parse s) (\<lambda>i. bind_res (parse_all parse ss) (\<lambda>is. Inr (i # is)))"

definition UUIDsFromStrings :: "(string \<Rightarrow> 'e + uuid) \<Rightarrow> string list option \<Rightarrow> 'e + uuid list option" where
  "UUIDsFromStrings parse values =
     (case values of
        None \<Rightarrow> Inr None
      | Some ss \<Rightarrow> bind_res (parse_all parse ss) (\<lambda>is. Inr (Some is)))"

subsection \<open>The comparison is the order of the 128 bit values\<close>

definition top_bytes :: "nat \<Rightarrow> uuid \<Rightarrow> nat" where
  "top_bytes n a = unat a div 256 ^ (16 - n)"

lemma unat_uuid_byte: "unat (uuid_byte a n) = unat a div 256 ^ (15 - n) mod 256"
proof -
  have "(2 :: nat) ^ (8 * (15 - n)) = 256 ^ (15 - n)" by (simp add: power_mult)
  then show ?thesis
    unfolding uuid_byte_def unsigned_ucast_eq unat_drop_bit_eq
    by (simp add: drop_bit_eq_div take_bit_eq_mod)
qed

lemma top_bytes_Suc:
  assumes "n < 16"
  shows "top_bytes (Suc n) a = 256 * top_bytes n a + unat (uuid_byte a n)"
proof -
  have e: "16 - n = Suc (15 - n)" using assms by simp
  have "256 * (unat a div 256 ^ (16 - n)) = 256 * (unat a div 256 ^ (15 - n) div 256)"
    unfolding e power_Suc2 by (simp only: div_mult2_eq)
  then show ?thesis
    by (simp add: top_bytes_def unat_uuid_byte)
qed

lemma top_bytes_less: "top_bytes n a < top_bytes n b \<Longrightarrow> a < b"
  by (metis div_le_mono leD leI top_bytes_def word_less_nat_alt)

lemma byte_step:
  assumes "n < 16" and "top_bytes n a = top_bytes n b" and "uuid_byte a n < uuid_byte b n"
  shows "a < b"
  using assms by (intro top_bytes_less[of "Suc n"]) (simp add: top_bytes_Suc word_less_nat_alt)

lemma UUIDLess_from_less:
  "n \<le> 16 \<Longrightarrow> top_bytes n a = top_bytes n b \<Longrightarrow> UUIDLess_from n a b \<longleftrightarrow> a < b"
proof (induction n a b rule: UUIDLess_from.induct)
  case (1 n a b)
  show ?case
  proof (cases "n = 16")
    case True
    with 1 have "unat a = unat b" by (simp add: top_bytes_def)
    then have "a = b" by (rule unsigned_word_eqI)
    with True show ?thesis by (simp add: UUIDLess_from.simps)
  next
    case False
    with 1 have n: "n < 16" by simp
    consider "uuid_byte a n < uuid_byte b n" | "uuid_byte b n < uuid_byte a n"
      | "uuid_byte a n = uuid_byte b n" by (meson linorder_neqE)
    then show ?thesis
    proof cases
      case 1
      with n byte_step[OF n "1.prems"(2)] show ?thesis by (subst UUIDLess_from.simps) simp
    next
      case 2
      with n byte_step[OF n "1.prems"(2)[symmetric]] show ?thesis
        by (subst UUIDLess_from.simps) (auto dest: less_trans)
    next
      case 3
      with n "1.prems" have "top_bytes (Suc n) a = top_bytes (Suc n) b" by (simp add: top_bytes_Suc)
      with n 3 "1.IH" show ?thesis by (subst UUIDLess_from.simps) simp
    qed
  qed
qed

lemma UUIDLess_less: "UUIDLess a b \<longleftrightarrow> a < b"
proof -
  have "top_bytes 0 x = 0" for x using unsigned_less[of x, where 'a = nat] by (simp add: top_bytes_def)
  then show ?thesis unfolding UUIDLess_def by (intro UUIDLess_from_less) simp_all
qed

lemma insert_by_insort: "insert_by k x ys = insort_key k x ys"
  by (induction ys) (auto simp: UUIDLess_less not_le)

lemma sort_by_sort_key: "sort_by k xs = sort_key k xs"
  by (simp add: sort_by_def sort_key_def insert_by_insort cong: foldr_cong)

lemma set_sort_by [simp]: "set (sort_by k xs) = set xs"
  by (simp add: sort_by_sort_key)

lemma length_sort_by [simp]: "length (sort_by k xs) = length xs"
  by (simp add: sort_by_sort_key)

lemma distinct_map_sort_by: "distinct (map k xs) \<Longrightarrow> distinct (map k (sort_by k xs))"
  by (simp add: sort_by_sort_key distinct_map)

text \<open>
  Comparing identifiers byte by byte orders them by their 128 bit values, so sorting
  rows with it arranges them in ascending order of their identifiers, keeping each of them: the
  rows that two transactions both touch are touched in the same order.
\<close>

theorem UUIDLess_orders:
  "(UUIDLess a b \<longleftrightarrow> a < b) \<and> sorted (map k (sort_by k xs)) \<and> set (sort_by k xs) = set xs \<and>
   length (sort_by k xs) = length xs"
  by (simp add: UUIDLess_less sort_by_sort_key)

text \<open>
  Converting a list of texts keeps its length and order and fails exactly when one of
  the texts does not parse, with the error of the first such text.
\<close>

theorem UUIDsFromStrings_correct:
  "UUIDsFromStrings parse (Some ss) =
     (case filter (\<lambda>s. isl (parse s)) ss of
        s # _ \<Rightarrow> Inl (projl (parse s))
      | [] \<Rightarrow> Inr (Some (map (\<lambda>s. projr (parse s)) ss)))"
proof -
  have "parse_all parse ss =
      (case filter (\<lambda>s. isl (parse s)) ss of
         s # _ \<Rightarrow> Inl (projl (parse s))
       | [] \<Rightarrow> Inr (map (\<lambda>s. projr (parse s)) ss))"
  proof (induction ss)
    case (Cons s ss)
    then show ?case by (cases "parse s") (auto split: list.splits)
  qed simp
  then show ?thesis by (auto simp: UUIDsFromStrings_def split: list.splits)
qed

end
