(* ===== verification/Backoff.thy ===== *)
theory Backoff
  imports Sample Uuid "HOL-Library.Log_Nat"
begin

unbundle bit_operations_syntax

text \<open>
  The retry delay of a delivery, \<open>NextDelayFor\<close> in \<open>actions/get-subscription-messages.go\<close>. The
  code computes in \<open>float64\<close>: a float is the rational it stands for, and every operation rounds
  its exact result to the nearest rational with a 53 bit significand, ties to even. Exponents
  are not bounded: a power that overflows in the code exceeds the maximal delay there as here,
  and the maximum is taken before it is converted back. \<open>math.Pow\<close> with an integral exponent is
  its loop of squarings. The fuzz is the CRC-32 of the identifier and the attempt count.
\<close>

subsection \<open>Rounding\<close>

definition exp2 :: "rat \<Rightarrow> int" where
  "exp2 x = (case quotient_of x of (p, q) \<Rightarrow>
     let k = int (floorlog 2 (nat p)) - int (floorlog 2 (nat q))
     in if x < 2 powi k then k - 1 else k)"

definition round_half_even :: "rat \<Rightarrow> int" where
  "round_half_even x =
     (let f = \<lfloor>x\<rfloor>; d = x - of_int f in
      if d < 1 / 2 then f else if d > 1 / 2 then f + 1 else if even f then f else f + 1)"

definition rnd :: "rat \<Rightarrow> rat" where
  "rnd x = (if x = 0 then 0
     else let s = 2 powi (52 - exp2 x) in of_int (round_half_even (x * s)) / s)"

function pow_loop :: "nat \<Rightarrow> rat \<Rightarrow> rat \<Rightarrow> rat" where
  "pow_loop i a x =
     (if i = 0 then a else pow_loop (i div 2) (if odd i then rnd (a * x) else a) (rnd (x * x)))"
  by pat_completeness auto
termination by (relation "measure fst") auto

declare pow_loop.simps [simp del]

definition math_Pow :: "rat \<Rightarrow> nat \<Rightarrow> rat" where
  "math_Pow x n = pow_loop n 1 x"

definition Duration_Seconds :: "duration \<Rightarrow> rat" where
  "Duration_Seconds d =
     rnd (rnd (of_int (d div second)) + rnd (rnd (of_int (d mod second)) / 1000000000))"

text \<open>Integers of 64 bits wrap around.\<close>

definition int64 :: "int \<Rightarrow> int" where
  "int64 x = (x + 2 ^ 63) mod 2 ^ 64 - 2 ^ 63"

lemma int64_id: "- (2 ^ 63) \<le> x \<Longrightarrow> x < 2 ^ 63 \<Longrightarrow> int64 x = x"
  by (simp add: int64_def)

subsection \<open>The checksum\<close>

definition crc_step :: "32 word \<Rightarrow> 32 word" where
  "crc_step c = (if bit c 0 then drop_bit 1 c XOR 0xEDB88320 else drop_bit 1 c)"

definition crc_byte :: "8 word \<Rightarrow> 32 word \<Rightarrow> 32 word" where
  "crc_byte b c = (crc_step ^^ 8) (c XOR ucast b)"

definition crc32_IEEE :: "8 word list \<Rightarrow> 32 word" where
  "crc32_IEEE bs = NOT (fold crc_byte bs (NOT 0))"

definition uuid_bytes :: "uuid \<Rightarrow> 8 word list" where
  "uuid_bytes i = map (uuid_byte i) [0..<16]"

definition int32_bytes :: "nat \<Rightarrow> 8 word list" where
  "int32_bytes n = (let w = (of_nat n :: 32 word) in map (\<lambda>k. ucast (drop_bit (8 * k) w)) [0..<4])"

subsection \<open>NextDelayFor\<close>

definition defaultMinDelay :: duration where "defaultMinDelay = 10 * second"
definition defaultMaxDelay :: duration where "defaultMaxDelay = 10 * minute"
definition retryBackoffFactor :: rat where "retryBackoffFactor = rnd (11 / 10)"

definition backoff_or :: "duration \<Rightarrow> duration option \<Rightarrow> duration" where
  "backoff_or dflt b = (case b of Some d \<Rightarrow> if d > 0 then d else dflt | None \<Rightarrow> dflt)"

definition nominal_seconds :: "subscription \<Rightarrow> nat \<Rightarrow> rat" where
  "nominal_seconds s attempts =
     (let mn = backoff_or defaultMinDelay (sMinBackoff s);
          mx = backoff_or defaultMaxDelay (sMaxBackoff s);
          delay = rnd (math_Pow retryBackoffFactor attempts * Duration_Seconds mn)
      in if delay > Duration_Seconds mx then Duration_Seconds mx else delay)"

definition NextDelayFor :: "subscription \<Rightarrow> nat \<Rightarrow> duration \<times> duration" where
  "NextDelayFor s attempts =
     (let delay = nominal_seconds s attempts;
          fuzzNanos = (if delay > 1 / 2
            then uint (crc32_IEEE (uuid_bytes (sID s) @ int32_bytes attempts) mod 1000000000) else 0);
          nominalDelay = \<lfloor>rnd (delay * 1000000000)\<rfloor>
      in (nominalDelay, nominalDelay + fuzzNanos))"

subsection \<open>Rounding is monotone and exact on small integers\<close>

lemma floorlog_rat:
  assumes "n > 0"
  shows "2 powi (int (floorlog 2 (nat n)) - 1) \<le> (of_int n :: rat)"
    and "(of_int n :: rat) < 2 powi int (floorlog 2 (nat n))"
proof -
  have "floorlog 2 (nat n) > 0" using assms by (auto simp: floorlog_def)
  then obtain g where g: "floorlog 2 (nat n) = Suc g" by (cases "floorlog 2 (nat n)") auto
  have b: "2 ^ g \<le> nat n" "nat n < 2 ^ Suc g"
    using floorlog_bounds[of "nat n" 2] assms g by auto
  have "of_nat (2 ^ g) \<le> (of_nat (nat n) :: rat)" using b(1) by (rule of_nat_mono)
  then show "2 powi (int (floorlog 2 (nat n)) - 1) \<le> (of_int n :: rat)"
    using assms by (simp add: g power_int_of_nat)
  have "of_nat (nat n) < (of_nat (2 ^ Suc g) :: rat)" using b(2) by (simp only: of_nat_less_iff)
  then show "(of_int n :: rat) < 2 powi int (floorlog 2 (nat n))"
    using assms by (simp only: g power_int_of_nat) simp
qed

lemma exp2_bounds:
  assumes "x > 0"
  shows "2 powi exp2 x \<le> x" and "x < 2 powi (exp2 x + 1)"
proof -
  obtain p q where pq: "quotient_of x = (p, q)" by (cases "quotient_of x")
  have q: "q > 0" and x: "x = of_int p / of_int q"
    using quotient_of_denom_pos[OF pq] quotient_of_div[OF pq] by simp_all
  then have p: "p > 0" using assms by (simp add: zero_less_divide_iff)
  let ?fp = "floorlog 2 (nat p)" and ?fq = "floorlog 2 (nat q)"
  define k where "k = int ?fp - int ?fq"
  note P = floorlog_rat[OF p] and Q = floorlog_rat[OF q]
  have up: "x < 2 powi (k + 1)"
  proof -
    have "x < 2 powi int ?fp / 2 powi (int ?fq - 1)"
      unfolding x using P(2) Q(1) p q by (intro frac_less) auto
    also have "\<dots> = 2 powi (k + 1)"
      by (subst power_int_diff[symmetric]) (simp_all add: k_def algebra_simps)
    finally show ?thesis .
  qed
  have lo: "2 powi (k - 1) < x"
  proof -
    have "2 powi (k - 1) = 2 powi (int ?fp - 1) / (2 powi int ?fq :: rat)"
      by (subst power_int_diff[symmetric]) (simp_all add: k_def algebra_simps)
    also have "\<dots> < x"
      unfolding x using P(1) Q(2) q p by (intro frac_less2) auto
    finally show ?thesis .
  qed
  have e: "exp2 x = (if x < 2 powi k then k - 1 else k)"
    by (simp add: exp2_def pq k_def Let_def)
  show "2 powi exp2 x \<le> x" and "x < 2 powi (exp2 x + 1)" using lo up by (auto simp: e)
qed

lemma round_half_even_bounds: "\<lfloor>x\<rfloor> \<le> round_half_even x" "round_half_even x \<le> \<lfloor>x\<rfloor> + 1"
  by (simp_all add: round_half_even_def Let_def)

lemma round_half_even_mono: "x \<le> y \<Longrightarrow> round_half_even x \<le> round_half_even y"
proof (cases "\<lfloor>x\<rfloor> = \<lfloor>y\<rfloor>")
  case True
  assume "x \<le> y"
  with True show ?thesis by (simp add: round_half_even_def Let_def)
next
  case False
  assume "x \<le> y"
  with False have "\<lfloor>x\<rfloor> + 1 \<le> \<lfloor>y\<rfloor>" using floor_mono[of x y] by linarith
  with round_half_even_bounds(2)[of x] round_half_even_bounds(1)[of y] show ?thesis by linarith
qed

lemma round_half_even_of_int [simp]: "round_half_even (of_int n) = n"
  by (simp add: round_half_even_def)

lemma rnd_0 [simp]: "rnd 0 = 0"
  by (simp add: rnd_def)

lemma rnd_between:
  assumes "x > 0"
  shows "2 powi exp2 x \<le> rnd x" and "rnd x \<le> 2 powi (exp2 x + 1)"
proof -
  define s :: rat where "s = 2 powi (52 - exp2 x)"
  have s: "s > 0" by (simp add: s_def)
  have lo: "2 powi exp2 x * s = of_int (2 ^ 52)" and hi: "2 powi (exp2 x + 1) * s = of_int (2 ^ 53)"
    by (simp_all add: s_def power_int_add[symmetric])
  have "of_int (2 ^ 52) \<le> x * s" and "x * s \<le> of_int (2 ^ 53)"
    using exp2_bounds[OF assms] s unfolding lo[symmetric] hi[symmetric] by simp_all
  from round_half_even_mono[OF this(1)] round_half_even_mono[OF this(2)]
  have "2 ^ 52 \<le> round_half_even (x * s)" and "round_half_even (x * s) \<le> 2 ^ 53"
    by (simp_all only: round_half_even_of_int)
  then have "of_int (2 ^ 52) \<le> (of_int (round_half_even (x * s)) :: rat)"
    and "(of_int (round_half_even (x * s)) :: rat) \<le> of_int (2 ^ 53)"
    by (simp_all only: of_int_le_iff)
  then show "2 powi exp2 x \<le> rnd x" and "rnd x \<le> 2 powi (exp2 x + 1)"
    using assms s unfolding lo[symmetric] hi[symmetric]
    by (simp_all add: rnd_def Let_def s_def[symmetric] field_simps)
qed

lemma exp2_mono:
  assumes "0 < x" and "x \<le> y"
  shows "exp2 x \<le> exp2 y"
proof (rule ccontr)
  assume "\<not> ?thesis"
  then have "(2 :: rat) powi (exp2 y + 1) \<le> 2 powi exp2 x" by (intro power_int_increasing) auto
  with exp2_bounds(1)[OF assms(1)] exp2_bounds(2)[of y] assms show False by simp
qed

lemma rnd_mono:
  assumes "0 \<le> x" and "x \<le> y"
  shows "rnd x \<le> rnd y"
proof (cases "x = 0")
  case True
  have "0 \<le> rnd y" if "y > 0"
    using rnd_between(1)[OF that] by (meson order_trans zero_le_power_int zero_le_numeral)
  with True assms show ?thesis by (cases "y = 0") auto
next
  case False
  with assms have x: "0 < x" and y: "0 < y" by auto
  consider "exp2 x = exp2 y" | "exp2 x < exp2 y" using exp2_mono[OF x assms(2)] by linarith
  then show ?thesis
  proof cases
    case 1
    have "round_half_even (x * 2 powi (52 - exp2 y)) \<le> round_half_even (y * 2 powi (52 - exp2 y))"
      using assms by (intro round_half_even_mono mult_right_mono) auto
    then show ?thesis using x y 1 by (simp add: rnd_def Let_def divide_right_mono)
  next
    case 2
    then have "(2 :: rat) powi (exp2 x + 1) \<le> 2 powi exp2 y" by (intro power_int_increasing) auto
    with rnd_between(2)[OF x] rnd_between(1)[OF y] show ?thesis by linarith
  qed
qed

lemma rnd_nonneg: "0 \<le> x \<Longrightarrow> 0 \<le> rnd x"
  using rnd_mono[of 0 x] by simp

lemma rnd_exact:
  assumes "0 \<le> n" and "n < 2 ^ 53"
  shows "rnd (of_int n) = of_int n"
proof (cases "n = 0")
  case False
  with assms have n: "(of_int n :: rat) > 0" by simp
  have "exp2 (of_int n) \<le> 52"
  proof (rule ccontr)
    assume "\<not> ?thesis"
    then have "(2 :: rat) powi 53 \<le> 2 powi exp2 (of_int n)" by (intro power_int_increasing) auto
    with exp2_bounds(1)[OF n] have "of_int (2 ^ 53) \<le> (of_int n :: rat)" by simp
    with assms(2) show False by (simp only: of_int_le_iff)
  qed
  then obtain k where k: "52 - exp2 (of_int n) = int k" by (metis diff_ge_0_iff_ge nonneg_int_cases)
  have "round_half_even (of_int n * 2 ^ k) = n * 2 ^ k"
    using round_half_even_of_int[of "n * 2 ^ k"] by simp
  then show ?thesis using False by (simp add: rnd_def Let_def k power_int_of_nat)
qed simp

subsection \<open>Bounds of the delay\<close>

lemma pow_loop_nonneg: "0 \<le> a \<Longrightarrow> 0 \<le> x \<Longrightarrow> 0 \<le> pow_loop i a x"
proof (induction i a x rule: pow_loop.induct)
  case (1 i a x)
  then show ?case by (subst pow_loop.simps) (simp add: rnd_nonneg)
qed

lemma Duration_Seconds_nonneg: "0 \<le> d \<Longrightarrow> 0 \<le> Duration_Seconds d"
  by (simp add: Duration_Seconds_def rnd_nonneg)

lemma backoff_or_pos: "0 < dflt \<Longrightarrow> 0 < backoff_or dflt b"
  by (simp add: backoff_or_def split: option.splits)

lemma nominal_seconds_bounds:
  "0 \<le> nominal_seconds s n"
  "nominal_seconds s n \<le> Duration_Seconds (backoff_or defaultMaxDelay (sMaxBackoff s))"
proof -
  have "0 \<le> Duration_Seconds (backoff_or defaultMaxDelay (sMaxBackoff s))"
    and "0 \<le> Duration_Seconds (backoff_or defaultMinDelay (sMinBackoff s))"
    by (intro Duration_Seconds_nonneg less_imp_le backoff_or_pos,
        simp add: defaultMaxDelay_def defaultMinDelay_def)+
  moreover have "0 \<le> math_Pow retryBackoffFactor n"
    by (simp add: math_Pow_def pow_loop_nonneg retryBackoffFactor_def rnd_nonneg)
  ultimately show "0 \<le> nominal_seconds s n"
    by (simp add: nominal_seconds_def Let_def rnd_nonneg)
  show "nominal_seconds s n \<le> Duration_Seconds (backoff_or defaultMaxDelay (sMaxBackoff s))"
    by (simp add: nominal_seconds_def Let_def)
qed

subsection \<open>Rounding errors\<close>

definition ulp :: rat where
  "ulp = 1 / 2 ^ 53"

lemma ulp_bounds [simp]: "0 < ulp" "0 \<le> ulp" "ulp < 1" "ulp \<le> 1" "0 \<le> 1 - ulp" "0 \<le> 1 + ulp"
  by (simp_all add: ulp_def)

lemma round_half_even_error: "of_int (round_half_even y) \<le> y + 1 / 2" "y - 1 / 2 \<le> of_int (round_half_even y)"
proof -
  have "of_int \<lfloor>y\<rfloor> \<le> y" "y < of_int \<lfloor>y\<rfloor> + 1" by linarith+
  moreover from this have "of_int \<lfloor>y\<rfloor> \<le> y + 1 / 2" by linarith
  ultimately show "of_int (round_half_even y) \<le> y + 1 / 2" "y - 1 / 2 \<le> of_int (round_half_even y)"
    by (auto simp: round_half_even_def Let_def)
qed

lemma rnd_error:
  assumes "0 \<le> x"
  shows "(1 - ulp) * x \<le> rnd x" and "rnd x \<le> (1 + ulp) * x"
proof -
  have "(1 - ulp) * x \<le> rnd x \<and> rnd x \<le> (1 + ulp) * x"
  proof (cases "x = 0")
    case False
    with assms have x: "0 < x" by simp
    define t :: rat where "t = 2 powi (52 - exp2 x)"
    have t: "t > 0" by (simp add: t_def)
    have "2 powi exp2 x * t = 2 ^ 52" by (simp add: t_def power_int_add[symmetric])
    then have big: "2 ^ 52 \<le> x * t" using exp2_bounds(1)[OF x] t by (metis mult_right_mono less_imp_le)
    then have "1 / 2 \<le> ulp * (x * t)" by (simp add: ulp_def)
    then have "(1 - ulp) * x * t \<le> of_int (round_half_even (x * t))" "of_int (round_half_even (x * t)) \<le> (1 + ulp) * x * t"
      using round_half_even_error[of "x * t"] by (simp_all add: algebra_simps)
    then show ?thesis using t False by (simp add: rnd_def Let_def t_def[symmetric] field_simps)
  qed simp
  then show "(1 - ulp) * x \<le> rnd x" "rnd x \<le> (1 + ulp) * x" by auto
qed

lemma rnd_above: "0 \<le> c \<Longrightarrow> c \<le> x \<Longrightarrow> (1 - ulp) * c \<le> rnd x"
  using rnd_error(1)[of c] rnd_mono[of c x] by linarith

lemma rnd_below: "0 \<le> x \<Longrightarrow> x \<le> c \<Longrightarrow> rnd x \<le> (1 + ulp) * c"
  using rnd_error(2)[of c] rnd_mono[of x c] by linarith

lemma pow_loop_error:
  "0 \<le> a \<Longrightarrow> 0 \<le> x \<Longrightarrow> a * ((1 - ulp) * x) ^ i \<le> pow_loop i a x \<and> pow_loop i a x \<le> a * ((1 + ulp) * x) ^ i"
proof (induction i a x rule: pow_loop.induct)
  case (1 i a x)
  show ?case
  proof (cases "i = 0")
    case True
    then show ?thesis by (simp add: pow_loop.simps)
  next
    case False
    define a' where "a' = (if odd i then rnd (a * x) else a)"
    define x' where "x' = rnd (x * x)"
    define j where "j = i div 2"
    have nn: "0 \<le> a'" "0 \<le> x'" using 1(2,3) by (simp_all add: a'_def x'_def rnd_nonneg)
    have IH: "a' * ((1 - ulp) * x') ^ j \<le> pow_loop j a' x' \<and> pow_loop j a' x' \<le> a' * ((1 + ulp) * x') ^ j"
      using 1(1)[OF False] nn by (simp add: a'_def x'_def j_def)
    have x': "(1 - ulp) * (x * x) \<le> x'" "x' \<le> (1 + ulp) * (x * x)" unfolding x'_def by (rule rnd_error; simp)+
    have a': "a * ((1 - ulp) * x) ^ (i mod 2) \<le> a'" "a' \<le> a * ((1 + ulp) * x) ^ (i mod 2)"
      using rnd_error[of "a * x"] 1(2,3) by (auto simp: a'_def odd_iff_mod_2_eq_one even_iff_mod_2_eq_zero algebra_simps)
    have split: "u ^ i = u ^ (i mod 2) * (u * u) ^ j" for u :: rat
      by (metis j_def power_add power_mult power2_eq_square mod_mult_div_eq)
    have "a * ((1 - ulp) * x) ^ i \<le> a' * ((1 - ulp) * x') ^ j"
    proof -
      have "(1 - ulp) * x * ((1 - ulp) * x) \<le> (1 - ulp) * x'" using x'(1) by (simp add: mult.assoc mult.left_commute mult_left_mono)
      then have "((1 - ulp) * x * ((1 - ulp) * x)) ^ j \<le> ((1 - ulp) * x') ^ j" using 1(3) by (intro power_mono) auto
      moreover have "0 \<le> ((1 - ulp) * x * ((1 - ulp) * x)) ^ j" using 1(3) by (intro zero_le_power mult_nonneg_nonneg) auto
      ultimately show ?thesis unfolding split[of "(1 - ulp) * x"] mult.assoc[symmetric] using a'(1) nn by (intro mult_mono) (auto simp: mult.assoc)
    qed
    moreover have "a' * ((1 + ulp) * x') ^ j \<le> a * ((1 + ulp) * x) ^ i"
    proof -
      have "(1 + ulp) * x' \<le> (1 + ulp) * ((1 + ulp) * (x * x))" using x'(2) by (intro mult_left_mono) auto
      then have "(1 + ulp) * x' \<le> (1 + ulp) * x * ((1 + ulp) * x)" by (simp add: ac_simps)
      then have "((1 + ulp) * x') ^ j \<le> ((1 + ulp) * x * ((1 + ulp) * x)) ^ j" using nn by (intro power_mono) auto
      moreover have "0 \<le> a * ((1 + ulp) * x) ^ (i mod 2)" "0 \<le> ((1 + ulp) * x') ^ j"
        using 1(2,3) nn by (auto intro!: mult_nonneg_nonneg zero_le_power)
      ultimately show ?thesis unfolding split[of "(1 + ulp) * x"] mult.assoc[symmetric] using a'(2) by (intro mult_mono) (auto simp: mult.assoc)
    qed
    moreover have "pow_loop i a x = pow_loop j a' x'"
      using False by (subst pow_loop.simps) (simp add: a'_def x'_def j_def)
    ultimately show ?thesis using IH by linarith
  qed
qed

lemma Duration_Seconds_error:
  assumes "0 \<le> d"
  shows "(1 - ulp) ^ 3 * (of_int d / 1000000000) \<le> Duration_Seconds d"
    and "Duration_Seconds d \<le> (1 + ulp) ^ 3 * (of_int d / 1000000000)"
proof -
  let ?q = "of_int (d div second) :: rat" and ?r = "of_int (d mod second) :: rat"
  have nn: "0 \<le> ?q" "0 \<le> ?r" using assms by (simp_all add: pos_imp_zdiv_nonneg_iff)
  have "(of_int (d div second * second + d mod second) :: rat) = of_int d" by (simp only: div_mult_mod_eq)
  then have "?q * 1000000000 + ?r = of_int d" by (simp only: of_int_add of_int_mult of_int_numeral)
  then have d: "of_int d / 1000000000 = ?q + ?r / 1000000000" by simp
  have spread: "e * e * (a + b / k) = e * e * a + e * (e * b / k)" for e a b k :: rat by (simp add: algebra_simps)
  note q = rnd_error[OF nn(1)] and r = rnd_error[OF nn(2)]
  have rr: "0 \<le> rnd ?r" using nn by (simp add: rnd_nonneg)
  have f: "(1 - ulp) * ((1 - ulp) * ?r / 1000000000) \<le> rnd (rnd ?r / 1000000000)"
    "rnd (rnd ?r / 1000000000) \<le> (1 + ulp) * ((1 + ulp) * ?r / 1000000000)"
    by (rule rnd_above rnd_below; use r nn rr in \<open>simp add: divide_right_mono\<close>)+
  have low: "(1 - ulp) * (1 - ulp) * ?q \<le> rnd ?q"
  proof -
    have "(1 - ulp) * ((1 - ulp) * ?q) \<le> (1 - ulp) * ?q" using nn by (intro mult_left_le_one_le) auto
    with q(1) show ?thesis unfolding mult.assoc by linarith
  qed
  have high: "rnd ?q \<le> (1 + ulp) * (1 + ulp) * ?q"
  proof -
    have "1 * ((1 + ulp) * ?q) \<le> (1 + ulp) * ((1 + ulp) * ?q)" using nn by (intro mult_right_mono) auto
    with q(2) show ?thesis unfolding mult.assoc by linarith
  qed
  have "(1 - ulp) * ((1 - ulp) * (1 - ulp) * (of_int d / 1000000000)) \<le> Duration_Seconds d"
    unfolding Duration_Seconds_def
  proof (rule rnd_above)
    show "0 \<le> (1 - ulp) * (1 - ulp) * (of_int d / 1000000000)" using assms by (intro mult_nonneg_nonneg) auto
    show "(1 - ulp) * (1 - ulp) * (of_int d / 1000000000) \<le> rnd ?q + rnd (rnd ?r / 1000000000)"
      using add_mono[OF low f(1)] unfolding d spread[of "1 - ulp"] .
  qed
  then show "(1 - ulp) ^ 3 * (of_int d / 1000000000) \<le> Duration_Seconds d" by (simp add: power3_eq_cube mult.assoc)
  have "Duration_Seconds d \<le> (1 + ulp) * ((1 + ulp) * (1 + ulp) * (of_int d / 1000000000))"
    unfolding Duration_Seconds_def
  proof (rule rnd_below)
    show "0 \<le> rnd ?q + rnd (rnd ?r / 1000000000)" using nn rr by (intro add_nonneg_nonneg rnd_nonneg) auto
    show "rnd ?q + rnd (rnd ?r / 1000000000) \<le> (1 + ulp) * (1 + ulp) * (of_int d / 1000000000)"
      using add_mono[OF high f(2)] unfolding d spread[of "1 + ulp"] .
  qed
  then show "Duration_Seconds d \<le> (1 + ulp) ^ 3 * (of_int d / 1000000000)" by (simp add: power3_eq_cube mult.assoc)
qed

lemma Duration_Seconds_whole:
  assumes "0 \<le> k" and "k < 2 ^ 53"
  shows "Duration_Seconds (k * second) = of_int k"
  using assms rnd_exact[OF assms] by (simp add: Duration_Seconds_def)

text \<open>The delay that is meant, without rounding and before the limit, with a relative error of \<open>e\<close> in each step.\<close>

definition exact_delay :: "rat \<Rightarrow> nat \<Rightarrow> duration \<Rightarrow> rat" where
  "exact_delay e n mn = (e ^ 2 * (11 / 10)) ^ n * of_int mn"

lemma retryBackoffFactor_error: "(1 - ulp) * (11 / 10) \<le> retryBackoffFactor" "retryBackoffFactor \<le> (1 + ulp) * (11 / 10)"
  unfolding retryBackoffFactor_def by (rule rnd_error; simp)+

lemma pow_error:
  "((1 - ulp) ^ 2 * (11 / 10)) ^ n \<le> math_Pow retryBackoffFactor n"
  "math_Pow retryBackoffFactor n \<le> ((1 + ulp) ^ 2 * (11 / 10)) ^ n"
proof -
  have f: "0 \<le> retryBackoffFactor" by (simp add: retryBackoffFactor_def rnd_nonneg)
  note p = pow_loop_error[of 1 retryBackoffFactor n, simplified, OF f]
  have "((1 - ulp) * ((1 - ulp) * (11 / 10))) ^ n \<le> ((1 - ulp) * retryBackoffFactor) ^ n"
    using retryBackoffFactor_error(1) by (intro power_mono mult_left_mono mult_nonneg_nonneg) auto
  with p show "((1 - ulp) ^ 2 * (11 / 10)) ^ n \<le> math_Pow retryBackoffFactor n"
    unfolding math_Pow_def power2_eq_square mult.assoc by linarith
  have "((1 + ulp) * retryBackoffFactor) ^ n \<le> ((1 + ulp) * ((1 + ulp) * (11 / 10))) ^ n"
    using retryBackoffFactor_error(2) f by (intro power_mono mult_left_mono mult_nonneg_nonneg) auto
  with p show "math_Pow retryBackoffFactor n \<le> ((1 + ulp) ^ 2 * (11 / 10)) ^ n"
    unfolding math_Pow_def power2_eq_square mult.assoc by linarith
qed

lemma delay_error:
  fixes mn :: duration and n :: nat
  assumes "0 \<le> mn"
  defines "delay \<equiv> rnd (math_Pow retryBackoffFactor n * Duration_Seconds mn)"
  shows "(1 - ulp) ^ 4 * (exact_delay (1 - ulp) n mn / 1000000000) \<le> delay"
    and "delay \<le> (1 + ulp) ^ 4 * (exact_delay (1 + ulp) n mn / 1000000000)"
proof -
  have nn: "0 \<le> ((1 - ulp) ^ 2 * (11 / 10)) ^ n" "0 \<le> (1 - ulp) ^ 3 * (of_int mn / 1000000000)"
    "0 \<le> ((1 + ulp) ^ 2 * (11 / 10)) ^ n"
    using assms(1) by (auto intro!: mult_nonneg_nonneg zero_le_power)
  have p: "0 \<le> math_Pow retryBackoffFactor n" using pow_error(1)[of n] nn(1) by linarith
  have "((1 - ulp) ^ 2 * (11 / 10)) ^ n * ((1 - ulp) ^ 3 * (of_int mn / 1000000000)) \<le> math_Pow retryBackoffFactor n * Duration_Seconds mn"
    using pow_error(1) Duration_Seconds_error(1)[OF assms(1)] p nn by (intro mult_mono) auto
  from rnd_above[OF mult_nonneg_nonneg[OF nn(1,2)] this]
  show "(1 - ulp) ^ 4 * (exact_delay (1 - ulp) n mn / 1000000000) \<le> delay"
    by (simp add: delay_def exact_delay_def power_eq_if[of _ 4] power3_eq_cube ac_simps)
  have "math_Pow retryBackoffFactor n * Duration_Seconds mn \<le> ((1 + ulp) ^ 2 * (11 / 10)) ^ n * ((1 + ulp) ^ 3 * (of_int mn / 1000000000))"
    using pow_error(2) Duration_Seconds_error(2)[OF assms(1)] p nn Duration_Seconds_nonneg[OF assms(1)] by (intro mult_mono) auto
  from rnd_below[OF mult_nonneg_nonneg[OF p Duration_Seconds_nonneg[OF assms(1)]] this]
  show "delay \<le> (1 + ulp) ^ 4 * (exact_delay (1 + ulp) n mn / 1000000000)"
    by (simp add: delay_def exact_delay_def power_eq_if[of _ 4] power3_eq_cube ac_simps)
qed

lemma nominal_error:
  assumes "mn = backoff_or defaultMinDelay (sMinBackoff s)" and "mx = backoff_or defaultMaxDelay (sMaxBackoff s)"
  shows "(1 - ulp) ^ 5 * min (exact_delay (1 - ulp) n mn) (of_int mx) \<le> rnd (nominal_seconds s n * 1000000000)"
    and "rnd (nominal_seconds s n * 1000000000) \<le> (1 + ulp) ^ 5 * min (exact_delay (1 + ulp) n mn) (of_int mx)"
proof -
  have mn: "0 \<le> mn" and mx: "0 \<le> mx"
    using assms backoff_or_pos[of defaultMinDelay "sMinBackoff s"] backoff_or_pos[of defaultMaxDelay "sMaxBackoff s"]
    by (simp_all add: defaultMinDelay_def defaultMaxDelay_def)
  let ?d = "rnd (math_Pow retryBackoffFactor n * Duration_Seconds mn)"
  have nom: "nominal_seconds s n = min ?d (Duration_Seconds mx)" by (simp add: nominal_seconds_def assms Let_def min_def)
  have cube: "(1 - ulp) ^ 4 * x \<le> (1 - ulp) ^ 3 * x" "(1 + ulp) ^ 3 * x \<le> (1 + ulp) ^ 4 * x" if "0 \<le> x" for x
    using that by (intro mult_right_mono power_decreasing power_increasing; simp)+
  have e: "0 \<le> exact_delay (1 - ulp) n mn" using mn by (simp add: exact_delay_def)
  have m: "0 \<le> min (exact_delay (1 - ulp) n mn) (of_int mx)" using e mx by simp
  have "(1 - ulp) ^ 4 * (min (exact_delay (1 - ulp) n mn) (of_int mx) / 1000000000) \<le> nominal_seconds s n"
    unfolding nom
  proof (rule min.boundedI)
    show "(1 - ulp) ^ 4 * (min (exact_delay (1 - ulp) n mn) (of_int mx) / 1000000000) \<le> ?d"
      using delay_error(1)[OF mn, of n] by (rule order_trans[rotated]) (intro mult_left_mono divide_right_mono; simp)
    have "(1 - ulp) ^ 4 * (min (exact_delay (1 - ulp) n mn) (of_int mx) / 1000000000) \<le> (1 - ulp) ^ 4 * (of_int mx / 1000000000)"
      by (intro mult_left_mono divide_right_mono; simp)
    also have "\<dots> \<le> (1 - ulp) ^ 3 * (of_int mx / 1000000000)" using mx by (intro cube) simp
    finally show "(1 - ulp) ^ 4 * (min (exact_delay (1 - ulp) n mn) (of_int mx) / 1000000000) \<le> Duration_Seconds mx"
      using Duration_Seconds_error(1)[OF mx] by linarith
  qed
  then have "(1 - ulp) ^ 4 * min (exact_delay (1 - ulp) n mn) (of_int mx) \<le> nominal_seconds s n * 1000000000" by simp
  from rnd_above[OF mult_nonneg_nonneg[OF _ m] this]
  show "(1 - ulp) ^ 5 * min (exact_delay (1 - ulp) n mn) (of_int mx) \<le> rnd (nominal_seconds s n * 1000000000)"
    by (simp add: power_eq_if[of _ 5] mult.assoc)
  have "nominal_seconds s n \<le> (1 + ulp) ^ 4 * (min (exact_delay (1 + ulp) n mn) (of_int mx) / 1000000000)"
  proof (cases "exact_delay (1 + ulp) n mn \<le> of_int mx")
    case True
    then show ?thesis using delay_error(2)[OF mn, of n] by (simp add: nom min_def)
  next
    case False
    have "Duration_Seconds mx \<le> (1 + ulp) ^ 4 * (of_int mx / 1000000000)"
      using Duration_Seconds_error(2)[OF mx] cube(2)[of "of_int mx / 1000000000"] mx by simp
    with False show ?thesis by (simp add: nom min_def)
  qed
  then have "nominal_seconds s n * 1000000000 \<le> (1 + ulp) ^ 4 * min (exact_delay (1 + ulp) n mn) (of_int mx)" by simp
  from rnd_below[OF _ this] nominal_seconds_bounds(1)[of s n]
  show "rnd (nominal_seconds s n * 1000000000) \<le> (1 + ulp) ^ 5 * min (exact_delay (1 + ulp) n mn) (of_int mx)"
    by (simp add: power_eq_if[of _ 5] mult.assoc)
qed

lemma small_loss: "0 \<le> m \<Longrightarrow> of_int (m - 1 - m div 2 ^ 50) \<le> (1 - ulp) ^ 5 * (of_int m :: rat)"
proof -
  assume m: "0 \<le> m"
  have "1 - 1 / 2 ^ 50 \<le> (1 - ulp) ^ 5" by (simp add: ulp_def power_divide)
  then have "(1 - 1 / 2 ^ 50) * of_int m \<le> (1 - ulp) ^ 5 * (of_int m :: rat)" using m by (intro mult_right_mono) auto
  moreover have "m < (m div 2 ^ 50 + 1) * 2 ^ 50"
    using div_mult_mod_eq[of m "2 ^ 50"] pos_mod_bound[of "2 ^ 50" m] by simp
  then have "(of_int m :: rat) < of_int ((m div 2 ^ 50 + 1) * 2 ^ 50)" by (simp only: of_int_less_iff)
  then have "(of_int m :: rat) / 2 ^ 50 < of_int (m div 2 ^ 50) + 1" by simp
  ultimately show ?thesis by (simp add: algebra_simps)
qed

text \<open>
  Property C28. The delay before the next attempt follows the documented formula: up to a relative
  rounding error of a few units in the last place per multiplication it is the minimal backoff times
  1.1 to the power of the number of attempts, but at most the maximal backoff, cut to whole
  nanoseconds. From the first attempt on it is not shorter than the minimal backoff, unless the
  maximum is, and then it misses the maximum by no more than a nanosecond if that is below thirteen
  days. A maximum of whole seconds below 104 days is never exceeded. The fuzz adds less than one
  second, and nothing to a delay of at most half a second. Maxima above 146 years, where the result
  may not fit into 64 bits, are left out.
\<close>

theorem NextDelayFor_bounds:
  assumes "NextDelayFor s n = (nominal, fuzzed)" and "mn = backoff_or defaultMinDelay (sMinBackoff s)"
    and "mx = backoff_or defaultMaxDelay (sMaxBackoff s)" and "mx \<le> 2 ^ 62"
  shows "(1 - ulp) ^ 5 * min (exact_delay (1 - ulp) n mn) (of_int mx) < of_int nominal + 1 \<and>
    of_int nominal \<le> (1 + ulp) ^ 5 * min (exact_delay (1 + ulp) n mn) (of_int mx) \<and> nominal < 2 ^ 63 \<and>
    (1 \<le> n \<longrightarrow> min mn (mx - 1 - mx div 2 ^ 50) \<le> nominal) \<and>
    (mx mod second = 0 \<and> mx < 2 ^ 53 \<longrightarrow> nominal \<le> mx) \<and>
    nominal \<le> fuzzed \<and> fuzzed < nominal + second \<and> (nominal_seconds s n \<le> 1 / 2 \<longrightarrow> fuzzed = nominal)"
proof -
  let ?x = "rnd (nominal_seconds s n * 1000000000)"
  have nominal: "nominal = \<lfloor>?x\<rfloor>" using assms(1) by (simp add: NextDelayFor_def Let_def)
  have mn: "0 < mn" and mx: "0 < mx"
    using assms backoff_or_pos[of defaultMinDelay "sMinBackoff s"] backoff_or_pos[of defaultMaxDelay "sMaxBackoff s"]
    by (simp_all add: defaultMinDelay_def defaultMaxDelay_def)
  note err = nominal_error[OF assms(2,3), of n]
  have fl: "of_int nominal \<le> ?x" "?x < of_int nominal + 1" unfolding nominal by linarith+
  have low: "(1 - ulp) ^ 5 * min (exact_delay (1 - ulp) n mn) (of_int mx) < of_int nominal + 1" using err(1) fl by linarith
  have high: "of_int nominal \<le> (1 + ulp) ^ 5 * min (exact_delay (1 + ulp) n mn) (of_int mx)" using err(2) fl by linarith
  have "(1 + ulp) ^ 5 * min (exact_delay (1 + ulp) n mn) (of_int mx) \<le> (1 + ulp) ^ 5 * of_int mx"
    by (intro mult_left_mono) auto
  moreover have "(1 + ulp) ^ 5 * of_int mx \<le> (1 + ulp) ^ 5 * (of_int (2 ^ 62) :: rat)"
    using assms(4) by (intro mult_left_mono) (simp_all only: of_int_le_iff, simp)
  moreover have "(1 + ulp) ^ 5 * (of_int (2 ^ 62) :: rat) < of_int (2 ^ 63)" by (simp add: ulp_def power_divide)
  ultimately have "(of_int nominal :: rat) < of_int (2 ^ 63)" using high by linarith
  then have fits: "nominal < 2 ^ 63" by (simp only: of_int_less_iff)
  have above: "min mn (mx - 1 - mx div 2 ^ 50) \<le> nominal" if n: "1 \<le> n"
  proof -
    have "1 \<le> (1 - ulp) ^ 2 * (11 / 10 :: rat)" by (simp add: ulp_def power_divide)
    with n have "(1 - ulp) ^ 2 * (11 / 10) \<le> ((1 - ulp) ^ 2 * (11 / 10)) ^ n" using power_increasing[of 1 n "(1 - ulp) ^ 2 * (11 / 10)"] by simp
    moreover have "1 \<le> (1 - ulp) ^ 5 * ((1 - ulp) ^ 2 * (11 / 10 :: rat))" by (simp add: ulp_def power_divide)
    ultimately have "1 \<le> (1 - ulp) ^ 5 * ((1 - ulp) ^ 2 * (11 / 10)) ^ n"
      by (meson order_trans mult_left_mono zero_le_power ulp_bounds)
    then have "1 * of_int mn \<le> (1 - ulp) ^ 5 * ((1 - ulp) ^ 2 * (11 / 10)) ^ n * of_int mn" using mn by (intro mult_right_mono) auto
    then have a: "of_int mn \<le> (1 - ulp) ^ 5 * exact_delay (1 - ulp) n mn" by (simp add: exact_delay_def mult.assoc)
    have b: "of_int (mx - 1 - mx div 2 ^ 50) \<le> (1 - ulp) ^ 5 * (of_int mx :: rat)" using mx by (intro small_loss) simp
    have "(of_int (min mn (mx - 1 - mx div 2 ^ 50)) :: rat) \<le> (1 - ulp) ^ 5 * min (exact_delay (1 - ulp) n mn) (of_int mx)"
      using a b by (cases "exact_delay (1 - ulp) n mn \<le> of_int mx") (auto simp: min_def simp del: of_int_diff)
    with err(1) have "(of_int (min mn (mx - 1 - mx div 2 ^ 50)) :: rat) \<le> ?x" by linarith
    then show ?thesis unfolding nominal by (simp only: le_floor_iff)
  qed
  have whole: "nominal \<le> mx" if w: "mx mod second = 0" "mx < 2 ^ 53"
  proof -
    from w(1) have k: "mx = mx div second * second" using div_mult_mod_eq[of mx second] by linarith
    have "mx div second < 2 ^ 53" using w(2) mx by linarith
    then have "Duration_Seconds (mx div second * second) = of_int (mx div second)" using mx by (intro Duration_Seconds_whole) (auto simp: pos_imp_zdiv_nonneg_iff)
    then have "nominal_seconds s n \<le> of_int (mx div second)" using nominal_seconds_bounds(2)[of s n] k assms(3) by metis
    then have "nominal_seconds s n * 1000000000 \<le> of_int (mx div second * second)" by simp
    then have "?x \<le> rnd (of_int (mx div second * second))" using nominal_seconds_bounds(1)[of s n] by (intro rnd_mono) auto
    also have "\<dots> = of_int mx" using k w(2) mx by (metis rnd_exact less_imp_le)
    finally show ?thesis unfolding nominal by linarith
  qed
  have "0 \<le> uint (c mod 1000000000)" "uint (c mod 1000000000) < second" for c :: "32 word"
    by (simp_all add: uint_mod)
  then have "nominal \<le> fuzzed \<and> fuzzed < nominal + second \<and> (nominal_seconds s n \<le> 1 / 2 \<longrightarrow> fuzzed = nominal)"
    using assms(1) by (auto simp: NextDelayFor_def Let_def)
  then show ?thesis using low high fits above whole by simp
qed

theorem NextDelayFor_bounds_witness:
  "10 * second \<le> fst (NextDelayFor sample_sub 3) \<and> fst (NextDelayFor sample_sub 3) \<le> 600 * second \<and>
   snd (NextDelayFor sample_sub 3) < 601 * second"
proof -
  have "10 * second = backoff_or defaultMinDelay (sMinBackoff sample_sub)" "600 * second = backoff_or defaultMaxDelay (sMaxBackoff sample_sub)"
    by (simp_all add: backoff_or_def defaultMaxDelay_def defaultMinDelay_def sample_sub_def)
  from NextDelayFor_bounds[of sample_sub 3, OF surjective_pairing this] show ?thesis by auto
qed

end
