(* ===== verification/Acks.thy ===== *)
theory Acks
  imports DeadLetter Backoff
begin

text \<open>
  What a reader reports about deliveries it was handed: \<open>actions/ack-deliveries.go\<close>,
  \<open>actions/nack-deliveries.go\<close> and \<open>actions/delay-deliveries.go\<close>.
\<close>

subsection \<open>AckDeliveries\<close>

record ackDeliveriesResults =
  arNumAcked :: nat

definition open_among :: "uuid list \<Rightarrow> delivery \<Rightarrow> bool" where
  "open_among ids d \<longleftrightarrow> dID d \<in> set ids \<and> dCompletedAt d = None"

definition distinct_subs :: "(delivery \<Rightarrow> bool) \<Rightarrow> database \<Rightarrow> uuid list" where
  "distinct_subs P db = remdups (map dSubscriptionID (filter P (deliveries db)))"

definition AckDeliveries_Execute :: "time \<Rightarrow> uuid list \<Rightarrow> ackDeliveriesResults exec" where
  "AckDeliveries_Execute now ids0 db =
     (let ids = sort_by id ids0;
          subIDs = distinct_subs (open_among ids) db
      in Inr (\<lparr>arNumAcked = count_where (open_among ids) (deliveries db)\<rparr>, [WakeEach subIDs],
           update_deliveries (open_among ids) (set_completed now) db))"

subsection \<open>DelayDeliveries\<close>

record delayDeliveriesResults =
  ddNumDelayed :: nat

definition set_attemptAt :: "time \<Rightarrow> delivery \<Rightarrow> delivery" where
  "set_attemptAt t d = d\<lparr>dAttemptAt := t\<rparr>"

definition DelayDeliveries_Execute :: "time \<Rightarrow> uuid list \<Rightarrow> duration \<Rightarrow> delayDeliveriesResults exec" where
  "DelayDeliveries_Execute now ids0 delay db =
     (let ids = sort_by id ids0;
          newAttemptAt = now + delay;
          subIDs = (if delay \<le> 0 then distinct_subs (open_among ids) db else []);
          P = (\<lambda>d. open_among ids d \<and> (delay \<le> 0 \<or> dAttemptAt d < newAttemptAt))
      in Inr (\<lparr>ddNumDelayed = count_where P (deliveries db)\<rparr>,
           if subIDs \<noteq> [] then [NotifyPublish subIDs] else [],
           update_deliveries P (set_attemptAt newAttemptAt) db))"

subsection \<open>NackDeliveries\<close>

record nackDeliveriesResults =
  nrNumNacked :: nat
  nrNumDeadLettered :: nat

text \<open>
  The loop over the deliveries, in the order of their identifiers, with the subscriptions that
  were looked up before it. A delivery whose subscription was not found would be a nil pointer.
\<close>

fun nackEach :: "filter_parser \<Rightarrow> (nat \<Rightarrow> uuid) \<Rightarrow> time \<Rightarrow> subscription list \<Rightarrow> delivery list \<Rightarrow>
    database \<Rightarrow> (nat \<times> notice list \<times> database) res" where
  "nackEach parse newID now subs [] db = Inr (0, [], db)"
| "nackEach parse newID now subs (d # ds) db =
     (case first_row (filter (\<lambda>s. sID s = dSubscriptionID d) subs) of
        None \<Rightarrow> Inl nil_deref
      | Some sub \<Rightarrow>
          if HasFullDeadLetterConfig sub \<and> dAttempts d \<ge> the (sMaxDeliveryAttempts sub) then
            bind_res (deadLetterDataFromEntities d sub) (\<lambda>data.
            bind_res (deadLetterDelivery parse newID data now db) (\<lambda>(k, ns, db1).
            bind_res (nackEach parse (\<lambda>j. newID (k + j)) now subs ds db1) (\<lambda>(n, ns', db2).
              Inr (Suc n, ns @ ns', db2))))
          else
            bind_res (update_one_delivery (dID d)
              (set_attemptAt (now + snd (NextDelayFor sub (nat (dAttempts d))))) db) (\<lambda>db1.
            nackEach parse newID now subs ds db1))"

definition nackable :: "time \<Rightarrow> uuid list \<Rightarrow> delivery \<Rightarrow> bool" where
  "nackable now ids d \<longleftrightarrow> dID d \<in> set ids \<and> dCompletedAt d = None \<and> dExpiresAt d > now"

definition NackDeliveries_Execute ::
    "filter_parser \<Rightarrow> (nat \<Rightarrow> uuid) \<Rightarrow> time \<Rightarrow> uuid list \<Rightarrow> nackDeliveriesResults exec" where
  "NackDeliveries_Execute parse newID now ids db =
     (let ds = sort_by dID (filter (nackable now ids) (deliveries db));
          subIDs = remdups (map dSubscriptionID ds);
          subs = filter (\<lambda>s. sID s \<in> set subIDs) (subscriptions db)
      in bind_res (nackEach parse newID now subs ds db) (\<lambda>(n, ns, db').
           Inr (\<lparr>nrNumNacked = length ds, nrNumDeadLettered = n\<rparr>, ns, db')))"

subsection \<open>Preservation of the invariant\<close>

lemma keeps_set_attemptAt [simp]: "keeps_delivery_refs (set_attemptAt t)"
  by (simp add: keeps_delivery_refs_def set_attemptAt_def)

lemma wf_AckDeliveries [wf_intros]:
  "wf_db db \<Longrightarrow> AckDeliveries_Execute now ids db = Inr (r, ns, db') \<Longrightarrow> wf_db db'"
  by (auto simp: AckDeliveries_Execute_def Let_def intro!: wf_update_deliveries)

lemma wf_DelayDeliveries [wf_intros]:
  "wf_db db \<Longrightarrow> DelayDeliveries_Execute now ids delay db = Inr (r, ns, db') \<Longrightarrow> wf_db db'"
  by (auto simp: DelayDeliveries_Execute_def Let_def intro!: wf_update_deliveries)

lemma wf_nackEach [wf_intros]:
  "wf_db db \<Longrightarrow> nackEach parse newID now subs ds db = Inr (n, ns, db') \<Longrightarrow> wf_db db'"
proof (induction ds arbitrary: newID db n ns)
  case (Cons d ds)
  from Cons.prems(2) show ?case
    by (auto split: option.split_asm if_split_asm elim!: bind_res_InrE
        dest!: wf_deadLetterDelivery[OF Cons.prems(1)] wf_update_one_delivery[OF Cons.prems(1)]
        intro: Cons.IH)
qed simp

lemma wf_NackDeliveries [wf_intros]:
  "wf_db db \<Longrightarrow> NackDeliveries_Execute parse newID now ids db = Inr (r, ns, db') \<Longrightarrow> wf_db db'"
  by (auto simp: NackDeliveries_Execute_def Let_def elim!: bind_res_InrE intro: wf_nackEach)

interpretation ack_deliveries: db_action "\<lambda>(now, ids). AckDeliveries_Execute now ids" "\<lambda>_. True"
  by unfold_locales (auto intro: wf_intros)

interpretation delay_deliveries:
  db_action "\<lambda>(now, ids, delay). DelayDeliveries_Execute now ids delay" "\<lambda>_. True"
  by unfold_locales (auto intro: wf_intros)

interpretation nack_deliveries:
  db_action "\<lambda>(parse, newID, now, ids). NackDeliveries_Execute parse newID now ids" "\<lambda>_. True"
  by unfold_locales (auto intro: wf_intros)

subsection \<open>Properties\<close>

lemma open_among_sorted [simp]: "open_among (sort_by id ids) = open_among ids"
  by (simp add: open_among_def fun_eq_iff)

text \<open>
  Acking completes exactly the listed deliveries that were open, at the instant of
  the call, and reports their number; acking the same identifiers again, at any later instant and
  in any order, acks nothing, wakes nobody and changes nothing.
\<close>

theorem AckDeliveries_idempotent:
  assumes "AckDeliveries_Execute now ids db = Inr (r, ns, db')" and "set ids' = set ids"
  shows "db' = db\<lparr>deliveries := map (\<lambda>d. if dID d \<in> set ids \<and> dCompletedAt d = None
      then d\<lparr>dCompletedAt := Some now\<rparr> else d) (deliveries db)\<rparr> \<and>
    arNumAcked r = length (filter (\<lambda>d. dID d \<in> set ids \<and> dCompletedAt d = None) (deliveries db)) \<and>
    AckDeliveries_Execute later ids' db' = Inr (\<lparr>arNumAcked = 0\<rparr>, [WakeEach []], db')"
proof -
  have db': "db' = update_deliveries (open_among ids) (set_completed now) db"
    and r: "arNumAcked r = count_where (open_among ids) (deliveries db)"
    using assms(1) by (auto simp: AckDeliveries_Execute_def Let_def)
  have none: "\<not> open_among ids' d" if "d \<in> set (deliveries db')" for d
    using that assms(2)
    by (auto simp: db' update_deliveries_def set_update_where open_among_def set_completed_def split: if_splits)
  then have "filter (open_among ids') (deliveries db') = []" by (simp add: filter_empty_conv)
  moreover have "update_deliveries (open_among ids') (set_completed later) db' = db'"
    unfolding update_deliveries_def using none by (subst update_where_none) auto
  ultimately have "AckDeliveries_Execute later ids' db' = Inr (\<lparr>arNumAcked = 0\<rparr>, [WakeEach []], db')"
    by (simp add: AckDeliveries_Execute_def Let_def distinct_subs_def count_where_def)
  moreover have "open_among ids = (\<lambda>d. dID d \<in> set ids \<and> dCompletedAt d = None)"
    by (simp add: open_among_def fun_eq_iff)
  ultimately show ?thesis
    by (simp add: r db' update_deliveries_def update_where_def set_completed_def count_where_def)
qed

theorem AckDeliveries_idempotent_witness:
  "\<exists>r ns db'. AckDeliveries_Execute 50 [31] sample_db = Inr (r, ns, db') \<and> arNumAcked r = 1 \<and>
     AckDeliveries_Execute 60 [31, 31] db' = Inr (\<lparr>arNumAcked = 0\<rparr>, [WakeEach []], db')"
proof -
  obtain r ns db' where a: "AckDeliveries_Execute 50 [31] sample_db = Inr (r, ns, db')"
    by (simp add: AckDeliveries_Execute_def Let_def)
  have "length (filter (\<lambda>d. dID d \<in> set [31] \<and> dCompletedAt d = None) (deliveries sample_db)) = 1"
    by (simp add: sample_defs)
  with AckDeliveries_idempotent[OF a, of "[31, 31]" 60] a show ?thesis by auto
qed

text \<open>
  Changing the ack deadline: a positive delay never moves the next attempt of a
  delivery to an earlier instant, and puts it at or after the new deadline for every listed open
  delivery; a delay of zero or less puts it at exactly that instant. Completed deliveries and
  deliveries that are not listed keep theirs, and nothing else of any delivery changes.
\<close>

theorem DelayDeliveries_monotone:
  "\<exists>r ns f. DelayDeliveries_Execute now ids delay db =
       Inr (r, ns, db\<lparr>deliveries := map (\<lambda>d. d\<lparr>dAttemptAt := f d\<rparr>) (deliveries db)\<rparr>) \<and>
     (\<forall>d\<in>set (deliveries db).
        (if dID d \<in> set ids \<and> dCompletedAt d = None
         then f d = (if delay \<le> 0 then now + delay else max (dAttemptAt d) (now + delay))
         else f d = dAttemptAt d))"
proof -
  let ?P = "\<lambda>d. open_among ids d \<and> (delay \<le> 0 \<or> dAttemptAt d < now + delay)"
  let ?f = "\<lambda>d. if ?P d then now + delay else dAttemptAt d"
  have "update_where ?P (set_attemptAt (now + delay)) ds = map (\<lambda>d. d\<lparr>dAttemptAt := ?f d\<rparr>) ds" for ds
    by (auto simp: update_where_def set_attemptAt_def)
  then have "deliveries (update_deliveries ?P (set_attemptAt (now + delay)) db) =
      map (\<lambda>d. d\<lparr>dAttemptAt := ?f d\<rparr>) (deliveries db)" by (simp add: update_deliveries_def)
  then show ?thesis
    by (intro exI[of _ "\<lparr>ddNumDelayed = count_where ?P (deliveries db)\<rparr>"] exI[of _ ?f]
        exI[of _ "if delay \<le> 0 \<and> distinct_subs (open_among ids) db \<noteq> []
          then [NotifyPublish (distinct_subs (open_among ids) db)] else []"])
      (auto simp: DelayDeliveries_Execute_def Let_def open_among_def update_deliveries_def max_def)
qed

subsection \<open>What nacking does\<close>

definition exhausted :: "subscription \<Rightarrow> delivery \<Rightarrow> bool" where
  "exhausted s d \<longleftrightarrow> HasFullDeadLetterConfig s \<and> dAttempts d \<ge> the (sMaxDeliveryAttempts s)"

definition nack_effect :: "time \<Rightarrow> subscription \<Rightarrow> delivery \<Rightarrow> delivery \<Rightarrow> delivery" where
  "nack_effect now s d =
     (if exhausted s d then set_completed now
      else set_attemptAt (now + snd (NextDelayFor s (nat (dAttempts d)))))"

lemma dID_nack_effect [simp]: "dID (nack_effect now s d x) = dID x"
  by (simp add: nack_effect_def set_attemptAt_def)

lemma dID_set_attemptAt [simp]: "dID (set_attemptAt t x) = dID x"
  by (simp add: set_attemptAt_def)

definition nack_all :: "time \<Rightarrow> (delivery \<Rightarrow> subscription) \<Rightarrow> delivery list \<Rightarrow> delivery list \<Rightarrow> delivery list" where
  "nack_all now sub ds xs =
     fold (\<lambda>d. update_where (\<lambda>x. dID x = dID d) (nack_effect now (sub d) d)) ds xs"

lemma nack_all_append:
  assumes "\<forall>y\<in>set ys. \<forall>d\<in>set ds. dID y \<noteq> dID d"
  shows "nack_all now sub ds (xs @ ys) = nack_all now sub ds xs @ ys"
  using assms
proof (induction ds arbitrary: xs)
  case (Cons d ds)
  then have "update_where (\<lambda>x. dID x = dID d) f ys = ys" for f by (intro update_where_none) auto
  with Cons show ?case by (simp add: nack_all_def update_where_append)
qed (simp add: nack_all_def)

lemma nack_all_map:
  assumes "distinct (map dID ds)"
  shows "nack_all now sub ds xs =
    map (\<lambda>x. case filter (\<lambda>d. dID d = dID x) ds of [] \<Rightarrow> x | d # _ \<Rightarrow> nack_effect now (sub d) d x) xs"
  using assms
proof (induction ds arbitrary: xs)
  case (Cons d ds)
  have "filter (\<lambda>y. dID y = dID d) ds = []"
    using Cons.prems by (auto simp: filter_empty_conv image_iff)
  moreover have "nack_all now sub (d # ds) xs =
      nack_all now sub ds (update_where (\<lambda>x. dID x = dID d) (nack_effect now (sub d) d) xs)"
    by (simp add: nack_all_def)
  ultimately show ?case using Cons by (auto simp: update_where_def)
qed (simp add: nack_all_def)

lemma nackEach_ok:
  assumes "wf_db db" and "parse_wf parse"
    and "fresh_ids newID (length ds * length (subscriptions db)) db"
    and "\<forall>d\<in>set ds. first_row (filter (\<lambda>s. sID s = dSubscriptionID d) subs) = Some (sub d) \<and>
      dID d \<in> delivery_ids db \<and> dMessageID d \<in> message_ids db"
  shows "\<exists>new. nackEach parse newID now subs ds db =
      Inr (length (filter (\<lambda>d. exhausted (sub d) d) ds),
        dl_wakes parse db (map (\<lambda>d. (dSubscriptionID d, the (sDeadLetterTopicID (sub d)), dMessageID d)) (filter (\<lambda>d. exhausted (sub d) d) ds)),
        db\<lparr>deliveries := nack_all now sub ds (deliveries db) @ new\<rparr>) \<and>
    (\<forall>x\<in>set new. dCompletedAt x = None \<and> dAttempts x = 0 \<and> dID x \<notin> delivery_ids db) \<and>
    map sub_and_message new = dl_added parse db
      (map (\<lambda>d. (the (sDeadLetterTopicID (sub d)), dMessageID d)) (filter (\<lambda>d. exhausted (sub d) d) ds))"
  using assms
proof (induction ds arbitrary: newID db)
  case Nil
  show ?case by (rule exI[of _ "[]"]) (simp add: nack_all_def)
next
  case (Cons d ds)
  let ?N = "length (subscriptions db)" and ?s = "sub d"
  have sub: "first_row (filter (\<lambda>s. sID s = dSubscriptionID d) subs) = Some ?s"
    and d: "dID d \<in> delivery_ids db" "dMessageID d \<in> message_ids db" using Cons.prems(4) by auto
  have f: "fresh_ids newID (?N + length ds * ?N) db" using Cons.prems(3) by simp
  show ?case
  proof (cases "exhausted ?s d")
    case True
    then obtain t where t: "sDeadLetterTopicID ?s = Some t"
      by (auto simp: exhausted_def HasFullDeadLetterConfig_def split: option.splits)
    let ?data = "\<lparr>dlDeliveryID = dID d, dlSubscriptionID = dSubscriptionID d, dlMessageID = dMessageID d,
      dlTopicID = t\<rparr>"
    have a: "dlDeliveryID ?data \<in> delivery_ids db" "dlMessageID ?data \<in> message_ids db" using d by auto
    obtain k ns ds1 db1 where eq1: "deadLetterDelivery parse newID ?data now db = Inr (k, ns, db1)"
      and db1: "db1 = db\<lparr>deliveries := update_where (\<lambda>x. dID x = dlDeliveryID ?data) (set_completed now)
        (deliveries db) @ ds1\<rparr>"
      and new: "\<forall>x\<in>set ds1. dCompletedAt x = None \<and> dAttempts x = 0 \<and> dID x \<notin> delivery_ids db"
      and f2: "fresh_ids (\<lambda>j. newID (k + j)) (length ds * ?N) db1"
      and ids1: "delivery_ids db \<subseteq> delivery_ids db1" and wf1: "wf_db db1"
      and add1: "map sub_and_message ds1 = dl_added parse db [(dlTopicID ?data, dlMessageID ?data)]"
      and ns: "ns = dl_wakes parse db [(dlSubscriptionID ?data, dlTopicID ?data, dlMessageID ?data)]"
      by (rule deadLetterDelivery_step[OF Cons.prems(1,2) f a])
    have same: "subscriptions db1 = subscriptions db" "message_ids db1 = message_ids db"
      by (simp_all add: db1 message_ids_def)
    have cong: "dl_wakes parse db1 = dl_wakes parse db" "dl_added parse db1 = dl_added parse db"
      by (rule dl_receivers_cong; simp add: db1)+
    obtain new' where IH: "nackEach parse (\<lambda>j. newID (k + j)) now subs ds db1 =
        Inr (length (filter (\<lambda>d. exhausted (sub d) d) ds),
          dl_wakes parse db (map (\<lambda>d. (dSubscriptionID d, the (sDeadLetterTopicID (sub d)), dMessageID d)) (filter (\<lambda>d. exhausted (sub d) d) ds)),
          db1\<lparr>deliveries := nack_all now sub ds (deliveries db1) @ new'\<rparr>)"
      and n': "\<forall>x\<in>set new'. dCompletedAt x = None \<and> dAttempts x = 0 \<and> dID x \<notin> delivery_ids db1"
      and add2: "map sub_and_message new' = dl_added parse db
        (map (\<lambda>d. (the (sDeadLetterTopicID (sub d)), dMessageID d)) (filter (\<lambda>d. exhausted (sub d) d) ds))"
      using Cons.IH[OF wf1 Cons.prems(2), of "\<lambda>j. newID (k + j)"] f2 Cons.prems(4) ids1
      unfolding same cong by auto
    have "nack_all now sub ds (deliveries db1) = nack_all now sub (d # ds) (deliveries db) @ ds1"
    proof -
      have "\<forall>y\<in>set ds1. \<forall>d\<in>set ds. dID y \<noteq> dID d" using new Cons.prems(4) by auto
      then show ?thesis
        using True by (simp add: db1 nack_all_append) (simp add: nack_all_def nack_effect_def)
    qed
    then show ?thesis
      using True sub t eq1 IH new n' ids1 add1 add2 ns
      by (intro exI[of _ "ds1 @ new'"])
        (auto simp: exhausted_def deadLetterDataFromEntities_def db1)
  next
    case False
    let ?f = "set_attemptAt (now + snd (NextDelayFor ?s (nat (dAttempts d))))"
    let ?db1 = "update_deliveries (\<lambda>x. dID x = dID d) ?f db"
    have upd: "update_one_delivery (dID d) ?f db = Inr ?db1"
      using d(1) by (auto simp: update_one_delivery_def delivery_ids_def list_ex_iff)
    have "map dID (update_where (\<lambda>x. dID x = dID d) ?f (deliveries db)) = map dID (deliveries db)"
      by (rule map_update_where) simp
    then have same: "subscriptions ?db1 = subscriptions db" "message_ids ?db1 = message_ids db"
      "delivery_ids ?db1 = delivery_ids db" "deliveries ?db1 = update_where (\<lambda>x. dID x = dID d) ?f (deliveries db)"
      unfolding delivery_ids_def message_ids_def update_deliveries_def by simp_all
    have "fresh_ids newID (length ds * length (subscriptions ?db1)) ?db1"
      using fresh_ids_fewer[OF f, of "length ds * ?N"] unfolding fresh_ids_def same by simp
    moreover have cong: "dl_wakes parse ?db1 = dl_wakes parse db" "dl_added parse ?db1 = dl_added parse db"
      by (rule dl_receivers_cong; simp add: update_deliveries_def)+
    ultimately obtain new' where IH: "nackEach parse newID now subs ds ?db1 =
        Inr (length (filter (\<lambda>d. exhausted (sub d) d) ds),
          dl_wakes parse db (map (\<lambda>d. (dSubscriptionID d, the (sDeadLetterTopicID (sub d)), dMessageID d)) (filter (\<lambda>d. exhausted (sub d) d) ds)),
          ?db1\<lparr>deliveries := nack_all now sub ds (deliveries ?db1) @ new'\<rparr>)"
      and n': "\<forall>x\<in>set new'. dCompletedAt x = None \<and> dAttempts x = 0 \<and> dID x \<notin> delivery_ids db"
      and add2: "map sub_and_message new' = dl_added parse db
        (map (\<lambda>d. (the (sDeadLetterTopicID (sub d)), dMessageID d)) (filter (\<lambda>d. exhausted (sub d) d) ds))"
      using Cons.IH[of ?db1 newID] Cons.prems wf_update_deliveries[OF Cons.prems(1), of ?f] unfolding same
      by auto
    have "?db1\<lparr>deliveries := xs\<rparr> = db\<lparr>deliveries := xs\<rparr>" for xs by (simp add: update_deliveries_def)
    moreover have "nack_all now sub ds (deliveries ?db1) = nack_all now sub (d # ds) (deliveries db)"
      unfolding same using False by (simp add: nack_all_def nack_effect_def)
    ultimately show ?thesis
      using False sub upd IH n' add2 by (intro exI[of _ new']) (auto simp: exhausted_def)
  qed
qed

text \<open>
  Property C26. Nacking deliveries of a well-formed database always succeeds. Each listed delivery
  that is open and not expired is either rescheduled after the subscription's backoff for its
  attempt count, or, when its subscription has a dead letter topic and its attempts are used up,
  completed and dead-lettered: its message gets a new open delivery for every live subscription of
  the live dead letter topic that accepts it, and these subscriptions and its own are woken. Every
  other delivery stays as it is, nothing else is added, and the results count both cases.
\<close>

theorem NackDeliveries_correct:
  assumes "wf_db db" and "parse_wf parse"
    and "fresh_ids newID (length (deliveries db) * length (subscriptions db)) db"
    and "\<And>d. sub d = hd (filter (\<lambda>s. sID s = dSubscriptionID d) (subscriptions db))"
    and "dead = sort_by dID (filter (\<lambda>d. nackable now ids d \<and> exhausted (sub d) d) (deliveries db))"
  shows "\<exists>new. NackDeliveries_Execute parse newID now ids db =
      Inr (\<lparr>nrNumNacked = length (filter (nackable now ids) (deliveries db)), nrNumDeadLettered = length dead\<rparr>,
        dl_wakes parse db (map (\<lambda>d. (dSubscriptionID d, the (sDeadLetterTopicID (sub d)), dMessageID d)) dead),
        db\<lparr>deliveries := map (\<lambda>d. if \<not> nackable now ids d then d
            else if exhausted (sub d) d then d\<lparr>dCompletedAt := Some now\<rparr>
            else d\<lparr>dAttemptAt := now + snd (NextDelayFor (sub d) (nat (dAttempts d)))\<rparr>) (deliveries db) @ new\<rparr>) \<and>
    map (\<lambda>x. (dSubscriptionID x, dMessageID x)) new =
      dl_added parse db (map (\<lambda>d. (the (sDeadLetterTopicID (sub d)), dMessageID d)) dead) \<and>
    (\<forall>x\<in>set new. dCompletedAt x = None \<and> dAttempts x = 0 \<and> dID x \<notin> delivery_ids db)"
proof -
  have sub: "sub = sub_of db" by (simp add: fun_eq_iff sub_of_def assms(4))
  define ds where "ds = sort_by dID (filter (nackable now ids) (deliveries db))"
  define subs where "subs = filter (\<lambda>s. sID s \<in> set (remdups (map dSubscriptionID ds))) (subscriptions db)"
  have "filter (\<lambda>s. sID s = dSubscriptionID d) subs =
      filter (\<lambda>s. sID s = dSubscriptionID d) (subscriptions db)" if "d \<in> set ds" for d
    using that by (auto simp: subs_def intro!: filter_cong)
  then have pre: "\<forall>d\<in>set ds. first_row (filter (\<lambda>s. sID s = dSubscriptionID d) subs) = Some (sub d) \<and>
      dID d \<in> delivery_ids db \<and> dMessageID d \<in> message_ids db"
    using sub_of_unique(1)[OF assms(1)] wf_db_refs(4)[OF assms(1)] by (auto simp: ds_def delivery_ids_def sub)
  have "length ds * length (subscriptions db) \<le> length (deliveries db) * length (subscriptions db)"
    by (intro mult_le_mono1) (simp add: ds_def)
  note fresh = fresh_ids_fewer[OF assms(3) this]
  have dead: "filter (\<lambda>d. exhausted (sub d) d) ds = dead"
    by (simp add: ds_def assms(5) sort_by_sort_key filter_sort conj_commute)
  have dis: "distinct (map dID (deliveries db))" by (rule wf_db_distinct(4)[OF assms(1)])
  have dds: "distinct (map dID ds)"
    unfolding ds_def by (intro distinct_map_sort_by distinct_map_filter dis)
  have "(case filter (\<lambda>y. dID y = dID d) ds of [] \<Rightarrow> d | y # _ \<Rightarrow> nack_effect now (sub y) y d) =
      (if \<not> nackable now ids d then d else if exhausted (sub d) d then d\<lparr>dCompletedAt := Some now\<rparr>
       else d\<lparr>dAttemptAt := now + snd (NextDelayFor (sub d) (nat (dAttempts d)))\<rparr>)" if d: "d \<in> set (deliveries db)" for d
  proof (cases "nackable now ids d")
    case True
    then have "filter (\<lambda>x. dID x = dID d) ds = [d]" using d dds by (intro filter_key_eq) (auto simp: ds_def)
    with True show ?thesis by (simp add: nack_effect_def set_completed_def set_attemptAt_def)
  next
    case False
    then have "filter (\<lambda>x. dID x = dID d) ds = []"
      using distinct_map_eqD[OF dis] d by (auto simp: filter_empty_conv ds_def)
    with False show ?thesis by simp
  qed
  then have "nack_all now sub ds (deliveries db) = map (\<lambda>d. if \<not> nackable now ids d then d
      else if exhausted (sub d) d then d\<lparr>dCompletedAt := Some now\<rparr>
      else d\<lparr>dAttemptAt := now + snd (NextDelayFor (sub d) (nat (dAttempts d)))\<rparr>) (deliveries db)"
    unfolding nack_all_map[OF dds] by simp
  moreover have "length ds = length (filter (nackable now ids) (deliveries db))" by (simp add: ds_def)
  moreover have "NackDeliveries_Execute parse newID now ids db = bind_res (nackEach parse newID now subs ds db)
      (\<lambda>(n, ns, db'). Inr (\<lparr>nrNumNacked = length ds, nrNumDeadLettered = n\<rparr>, ns, db'))"
    by (simp only: NackDeliveries_Execute_def Let_def ds_def subs_def)
  ultimately show ?thesis
    using nackEach_ok[OF assms(1,2) fresh pre, of now] unfolding dead sub_and_message_def[abs_def] by fastforce
qed

theorem NackDeliveries_correct_witness:
  "\<exists>new. NackDeliveries_Execute (\<lambda>_. None) (\<lambda>k. 33 + of_nat k) 50 [31]
       (sample_db\<lparr>deliveries := [sample_del1\<lparr>dAttempts := 2\<rparr>]\<rparr>) =
     Inr (\<lparr>nrNumNacked = 1, nrNumDeadLettered = 1\<rparr>, [NotifyPublish [12], NotifyPublish [11]],
       sample_db\<lparr>deliveries := [sample_del1\<lparr>dAttempts := 2, dCompletedAt := Some 50\<rparr>] @ new\<rparr>) \<and>
     map (\<lambda>x. (dSubscriptionID x, dMessageID x)) new = [(12, 21)]"
proof -
  let ?d = "sample_del1\<lparr>dAttempts := 2\<rparr>"
  let ?db = "sample_db\<lparr>deliveries := [?d]\<rparr>"
  let ?sub = "\<lambda>d. hd (filter (\<lambda>s. sID s = dSubscriptionID d) (subscriptions ?db))"
  have wf: "wf_db ?db"
    by (simp add: sample_defs wf_db_def topics_wf_def subs_wf_def snapshots_wf_def unique_live_def
        all_consistent_def sub_refs_def delivery_refs_def id_defs)
  have fresh: "fresh_ids (\<lambda>k. 33 + of_nat k) (length (deliveries ?db) * length (subscriptions ?db)) ?db"
    using fresh_sample_ids by (auto simp: fresh_ids_def delivery_ids_def sample_defs)
  have parse: "parse_wf (\<lambda>_. None)" by (simp add: parse_wf_def)
  have n: "nackable 50 [31] ?d" "exhausted (?sub ?d) ?d"
    by (simp_all add: nackable_def exhausted_def HasFullDeadLetterConfig_def sample_defs)
  then have dead: "[?d] = sort_by dID (filter (\<lambda>d. nackable 50 [31] d \<and> exhausted (?sub d) d) (deliveries ?db))"
    by (simp add: sort_by_sort_key)
  obtain new where new: "NackDeliveries_Execute (\<lambda>_. None) (\<lambda>k. 33 + of_nat k) 50 [31] ?db =
      Inr (\<lparr>nrNumNacked = length (filter (nackable 50 [31]) (deliveries ?db)), nrNumDeadLettered = length [?d]\<rparr>,
        dl_wakes (\<lambda>_. None) ?db (map (\<lambda>d. (dSubscriptionID d, the (sDeadLetterTopicID (?sub d)), dMessageID d)) [?d]),
        ?db\<lparr>deliveries := map (\<lambda>d. if \<not> nackable 50 [31] d then d
            else if exhausted (?sub d) d then d\<lparr>dCompletedAt := Some 50\<rparr>
            else d\<lparr>dAttemptAt := 50 + snd (NextDelayFor (?sub d) (nat (dAttempts d)))\<rparr>) (deliveries ?db) @ new\<rparr>)"
    "map (\<lambda>x. (dSubscriptionID x, dMessageID x)) new =
      dl_added (\<lambda>_. None) ?db (map (\<lambda>d. (the (sDeadLetterTopicID (?sub d)), dMessageID d)) [?d])"
    using NackDeliveries_correct[OF wf parse fresh refl dead] by blast
  have r: "dl_receivers (\<lambda>_. None) ?db 2 21 = [12]" by (simp add: dl_receivers_def sample_defs accepts_def)
  have v: "the (sDeadLetterTopicID (hd (filter (\<lambda>s. sID s = 11) (subscriptions sample_db)))) = 2" "dMessageID ?d = 21" "dSubscriptionID ?d = 11"
    by (simp_all add: sample_defs)
  show ?thesis using new n by (intro exI[of _ new]) (simp add: v r)
qed

theorem DelayDeliveries_monotone_witness:
  "\<exists>r ns db'. DelayDeliveries_Execute 50 [31] 5 sample_db = Inr (r, ns, db') \<and> map dAttemptAt (deliveries db') = [55, 20]"
proof -
  obtain r ns f where "DelayDeliveries_Execute 50 [31] 5 sample_db =
      Inr (r, ns, sample_db\<lparr>deliveries := map (\<lambda>d. d\<lparr>dAttemptAt := f d\<rparr>) (deliveries sample_db)\<rparr>)"
    and "\<forall>d\<in>set (deliveries sample_db). if dID d \<in> set [31] \<and> dCompletedAt d = None
      then f d = (if (5 :: duration) \<le> 0 then 50 + 5 else max (dAttemptAt d) (50 + 5)) else f d = dAttemptAt d"
    using DelayDeliveries_monotone[of 50 "[31]" 5 sample_db] by (elim exE conjE) (rule that)
  then show ?thesis by (simp add: sample_db_def) (simp add: sample_defs)
qed

end
