(* ===== verification/GetMessages.thy ===== *)
theory GetMessages
  imports Acks
begin

text \<open>
  Reading messages, \<open>actions/get-subscription-messages.go\<close>: the query for due deliveries, the
  application of its results under the message and byte limits, and the loop that waits for
  something to read.

  Every reading of the clock is an argument. Rows that another transaction has locked are
  skipped by the query: \<open>locked\<close> says which. The comparison that sorts the handed-out
  deliveries before they are updated indexes the wrong slice, so what it leaves is some
  arrangement of them: it is the argument \<open>arrange\<close>, of which the theorems assume no more than
  that it is a permutation.
\<close>

record getSubscriptionMessagesParams =
  gmName :: string
  gmID :: "uuid option"
  gmMaxMessages :: int
  gmMaxBytes :: int
  gmMaxBytesStrict :: bool
  gmMaxWait :: duration

record subscriptionMessageDelivery =
  smdID :: uuid
  smdMessageID :: uuid
  smdPublishedAt :: time
  smdNumAttempts :: int
  smdNextAttemptAt :: time
  smdFuzzDelay :: duration
  smdOrderKey :: "string option"
  smdPayload :: string
  smdAttributes :: attrs

record getSubscriptionMessagesResults =
  grDeliveries :: "subscriptionMessageDelivery list"
  grNumDeadLettered :: nat

definition NewGetSubscriptionMessages ::
    "getSubscriptionMessagesParams \<Rightarrow> getSubscriptionMessagesParams res" where
  "NewGetSubscriptionMessages p =
     (if gmMaxMessages p < 1 then Inl (Panic ''maxMessages must be > 0'')
      else if gmMaxBytes p < 1 then Inl (Panic ''maxBytes must be > 0'')
      else if gmMaxWait p < 0 then Inl (Panic ''maxWait must be >= 0'')
      else if gmName p = [] \<and> gmID p = None then Inl (Panic ''must provide Name or ID'')
      else Inr p)"

definition initializeMaxWait :: "getSubscriptionMessagesParams \<Rightarrow> duration" where
  "initializeMaxWait p = (if gmMaxWait p > 0 then gmMaxWait p else minute - second)"

definition subMatch :: "getSubscriptionMessagesParams \<Rightarrow> subscription \<Rightarrow> bool" where
  "subMatch p s \<longleftrightarrow> sDeletedAt s = None \<and>
     (case gmID p of None \<Rightarrow> True | Some i \<Rightarrow> sID s = i) \<and>
     (gmName p = [] \<or> sName s = gmName p)"

text \<open>\<open>verifySub\<close> also binds the identifier it found, in the parameters it returns.\<close>

definition verifySub :: "getSubscriptionMessagesParams \<Rightarrow> database \<Rightarrow>
    (subscription \<times> getSubscriptionMessagesParams) res" where
  "verifySub p db =
     (case only (filter (subMatch p) (subscriptions db)) of
        Inl e \<Rightarrow> Inl (if e = EntNotFound then ErrNotFound else e)
      | Inr s \<Rightarrow> Inr (s, p\<lparr>gmID := Some (sID s)\<rparr>))"

subsection \<open>The queries\<close>

definition predecessor_done :: "time \<Rightarrow> database \<Rightarrow> delivery \<Rightarrow> bool" where
  "predecessor_done now db d \<longleftrightarrow>
     (case dNotBeforeID d of
        None \<Rightarrow> True
      | Some i \<Rightarrow> list_ex (\<lambda>x. dID x = i \<and> (dCompletedAt x \<noteq> None \<or> dExpiresAt x \<le> now)) (deliveries db))"

definition buildDeliveryQuery :: "time \<Rightarrow> subscription \<Rightarrow> (delivery \<Rightarrow> bool) \<Rightarrow> database \<Rightarrow> delivery list" where
  "buildDeliveryQuery now s extra db =
     filter (\<lambda>d. (sOrderedDelivery s \<longrightarrow> predecessor_done now db d) \<and> extra d \<and>
       dCompletedAt d = None \<and> dExpiresAt d > now \<and> dSubscriptionID d = sID s) (deliveries db)"

definition queryAndLockDeliveriesOnce :: "time \<Rightarrow> time \<Rightarrow> (uuid \<Rightarrow> bool) \<Rightarrow> getSubscriptionMessagesParams \<Rightarrow>
    subscription \<Rightarrow> database \<Rightarrow> delivery list" where
  "queryAndLockDeliveriesOnce now now' locked p s db =
     take (nat (gmMaxMessages p))
       (sort_key dAttemptAt (filter (\<lambda>d. \<not> locked (dID d))
         (buildDeliveryQuery now' s (\<lambda>d. dAttemptAt d \<le> now) db)))"

text \<open>Both queries of \<open>nextAttempt\<close> order by the time of the next attempt.\<close>

definition nextAttempt :: "time \<Rightarrow> time \<Rightarrow> subscription \<Rightarrow> database \<Rightarrow> time option" where
  "nextAttempt now now' s db =
     (case first_row (sort_key dAttemptAt (buildDeliveryQuery now s (\<lambda>_. True) db)) of
        None \<Rightarrow> None
      | Some a \<Rightarrow>
          (case first_row (sort_key dAttemptAt (buildDeliveryQuery now' s (\<lambda>_. True) db)) of
             None \<Rightarrow> None
           | Some e \<Rightarrow> Some (if dExpiresAt e < dAttemptAt a then dExpiresAt e else dAttemptAt a)))"

subsection \<open>Applying the results\<close>

definition refresh_expiry :: "uuid \<Rightarrow> time \<Rightarrow> database \<Rightarrow> database res" where
  "refresh_expiry i t db =
     (if list_ex (\<lambda>s. sID s = i) (subscriptions db)
      then update_subscriptions (\<lambda>s. sID s = i) (\<lambda>s. s\<lparr>sExpiresAt := t\<rparr>) db else Inl EntNotFound)"

definition hand_out :: "subscription \<Rightarrow> time \<Rightarrow> delivery \<Rightarrow> message \<Rightarrow> subscriptionMessageDelivery" where
  "hand_out s now d m =
     (case NextDelayFor s (nat (dAttempts d + 1)) of (nominalDelay, fuzzedDelay) \<Rightarrow>
       \<lparr>smdID = dID d, smdMessageID = mID m, smdPublishedAt = mPublishedAt m,
        smdNumAttempts = dAttempts d + 1, smdNextAttemptAt = now + nominalDelay,
        smdFuzzDelay = fuzzedDelay - nominalDelay, smdOrderKey = mOrderKey m,
        smdPayload = mPayload m, smdAttributes = mAttributes m\<rparr>)"

fun applyLoop :: "filter_parser \<Rightarrow> (nat \<Rightarrow> uuid) \<Rightarrow> getSubscriptionMessagesParams \<Rightarrow> subscription \<Rightarrow> time \<Rightarrow>
    nat \<Rightarrow> nat \<Rightarrow> delivery list \<Rightarrow> database \<Rightarrow>
    (subscriptionMessageDelivery list \<times> nat \<times> notice list \<times> database) res" where
  "applyLoop parse newID p s now i bytes [] db = Inr ([], 0, [], db)"
| "applyLoop parse newID p s now i bytes (d # ds) db =
     (case first_row (filter (\<lambda>m. mID m = dMessageID d) (messages db)) of
        None \<Rightarrow> Inl nil_deref
      | Some m \<Rightarrow>
          if (gmMaxBytesStrict p \<or> i > 0) \<and> int (bytes + length (mPayload m)) > gmMaxBytes p then
            applyLoop parse newID p s now (Suc i) bytes ds db
          else if HasFullDeadLetterConfig s \<and> dAttempts d \<ge> the (sMaxDeliveryAttempts s) then
            bind_res (deadLetterDataFromEntities d s) (\<lambda>data.
            bind_res (deadLetterDelivery parse newID data now db) (\<lambda>(k, ns, db1).
            bind_res (applyLoop parse (\<lambda>j. newID (k + j)) p s now (Suc i) bytes ds db1)
              (\<lambda>(rs, n, ns', db2). Inr (rs, Suc n, ns @ ns', db2))))
          else if int i + 1 \<ge> gmMaxMessages p then Inr ([hand_out s now d m], 0, [], db)
          else
            bind_res (applyLoop parse newID p s now (Suc i) (bytes + length (mPayload m)) ds db)
              (\<lambda>(rs, n, ns, db1). Inr (hand_out s now d m # rs, n, ns, db1)))"

definition record_attempt :: "time \<Rightarrow> subscriptionMessageDelivery \<Rightarrow> delivery \<Rightarrow> delivery" where
  "record_attempt now r d =
     d\<lparr>dLastAttemptedAt := Some now, dAttempts := dAttempts d + 1,
       dAttemptAt := smdNextAttemptAt r + smdFuzzDelay r\<rparr>"

fun recordAttempts :: "time \<Rightarrow> subscriptionMessageDelivery list \<Rightarrow> database \<Rightarrow> database res" where
  "recordAttempts now [] db = Inr db"
| "recordAttempts now (r # rs) db =
     bind_res (update_one_delivery (smdID r) (record_attempt now r) db) (recordAttempts now rs)"

definition applyResults :: "filter_parser \<Rightarrow> (nat \<Rightarrow> uuid) \<Rightarrow>
    (subscriptionMessageDelivery list \<Rightarrow> subscriptionMessageDelivery list) \<Rightarrow>
    getSubscriptionMessagesParams \<Rightarrow> subscription \<Rightarrow> time \<Rightarrow> delivery list \<Rightarrow>
    getSubscriptionMessagesResults exec" where
  "applyResults parse newID arrange p s now ds db =
     bind_res (refresh_expiry (sID s) (now + sTTL s) db) (\<lambda>db1.
     bind_res (applyLoop parse newID p s now 0 0 ds db1) (\<lambda>(rs, n, ns, db2).
     bind_res (recordAttempts now (arrange rs) db2) (\<lambda>db3.
       Inr (\<lparr>grDeliveries = rs, grNumDeadLettered = n\<rparr>, ns, db3))))"

subsection \<open>Preservation of the invariant\<close>

lemma wf_refresh_expiry [wf_intros]:
  "wf_db db \<Longrightarrow> refresh_expiry i t db = Inr db' \<Longrightarrow> wf_db db'"
  by (auto simp: refresh_expiry_def keeps_subscription_def split: if_splits intro: wf_update_subscriptions)

lemma wf_applyLoop [wf_intros]:
  "wf_db db \<Longrightarrow> applyLoop parse newID p s now i b ds db = Inr (rs, n, ns, db') \<Longrightarrow> wf_db db'"
proof (induction ds arbitrary: newID i b db rs n ns)
  case (Cons d ds)
  from Cons.prems show ?case
    by (auto simp del: split_paired_All split: option.split_asm if_split_asm elim!: bind_res_InrE
        dest!: wf_deadLetterDelivery[OF Cons.prems(1)] intro: Cons.IH Cons.prems(1))
qed simp

lemma keeps_record_attempt [simp]: "keeps_delivery_refs (record_attempt now r)"
  by (simp add: keeps_delivery_refs_def record_attempt_def)

lemma wf_recordAttempts [wf_intros]:
  "wf_db db \<Longrightarrow> recordAttempts now rs db = Inr db' \<Longrightarrow> wf_db db'"
  by (induction rs arbitrary: db) (auto elim!: bind_res_InrE dest: wf_update_one_delivery)

lemma wf_applyResults [wf_intros]:
  assumes "wf_db db" and "applyResults parse newID arrange p s now ds db = Inr (r, ns, db')"
  shows "wf_db db'"
  using assms unfolding applyResults_def
  by (auto elim!: bind_res_InrE) (meson wf_refresh_expiry wf_applyLoop wf_recordAttempts)

subsection \<open>One transaction and the waiting loop\<close>

text \<open>
  One pass of the loop reads the clock four times: for the due predicate, inside each query and
  in \<open>applyResults\<close>.
\<close>

record pass =
  psNowDue :: time
  psNowQuery :: time
  psNowApply :: time
  psNowNext :: "time \<times> time"
  psLocked :: "uuid \<Rightarrow> bool"
  psNewID :: "nat \<Rightarrow> uuid"
  psArrange :: "subscriptionMessageDelivery list \<Rightarrow> subscriptionMessageDelivery list"

datatype passResult = Got getSubscriptionMessagesResults | Next "time option"

definition get_pass :: "filter_parser \<Rightarrow> pass \<Rightarrow> getSubscriptionMessagesParams \<Rightarrow>
    (subscription \<times> passResult) exec" where
  "get_pass parse ps p db =
     bind_res (verifySub p db) (\<lambda>(s, _).
       let ds = queryAndLockDeliveriesOnce (psNowDue ps) (psNowQuery ps) (psLocked ps) p s db in
       if ds \<noteq> [] then
         bind_res (applyResults parse (psNewID ps) (psArrange ps) p s (psNowApply ps) ds db)
           (\<lambda>(r, ns, db'). Inr ((s, Got r), ns, db'))
       else
         Inr ((s, Next (nextAttempt (fst (psNowNext ps)) (snd (psNowNext ps)) s db)), [], db))"

definition get_start :: "time \<Rightarrow> getSubscriptionMessagesParams \<Rightarrow> getSubscriptionMessagesParams exec" where
  "get_start now p db =
     bind_res (verifySub p db) (\<lambda>(s, p').
     bind_res (refresh_expiry (sID s) (now + sTTL s) db) (\<lambda>db'. Inr (p', [], db')))"

text \<open>
  What ends a wait: the timeout, the due time of the next delivery (only when one is known), the
  publish notification, or the end of the request. A round is the attempts of its transaction, the
  event that ended the wait after it, and, for a timeout, the attempts of the closing transaction,
  each with its reading of the clock. What other clients did before an attempt and the answers of
  the SQL driver come with it. \<open>None\<close>: still retrying or waiting after what is listed.
\<close>

datatype wakeup = FindTimeout | NextAttemptDue | PubAwaiterClosed | CtxDone err

type_synonym 't attempt = "'t \<times> driver \<times> (world \<Rightarrow> world)"

record round =
  rdTries :: "pass attempt list"
  rdWakeup :: wakeup
  rdNewID :: "nat \<Rightarrow> uuid"
  rdFinal :: "time attempt list"

text \<open>
  \<open>ExecuteClient\<close> runs every transaction of the action in the retry loop, and starts another attempt
  after a deadlock. The body of an attempt reads the clock again, and its fields are those of the
  action: what it assigned to them before its commit failed is still there in the next attempt.
  \<open>act x t\<close> is the body with the fields \<open>x\<close>, \<open>left x t\<close> the fields after it.
\<close>

fun runTx :: "('x \<Rightarrow> 't \<Rightarrow> 'r exec) \<Rightarrow> ('x \<Rightarrow> 't \<Rightarrow> database \<Rightarrow> 'x) \<Rightarrow> 'x \<Rightarrow> 't attempt list \<Rightarrow> world \<Rightarrow>
    ('x \<times> 'r res \<times> world) option" where
  "runTx act left x [] w = None"
| "runTx act left x ((t, drv, others) # tries) w =
     (let v = others w; x' = (if drvBegin drv = None then left x t (wDb v) else x) in
      case DoTx drv (act x t) v of
        (Inr r, w') \<Rightarrow> Some (x', Inr r, w')
      | (Inl e, w') \<Rightarrow>
          if retry_deadlocks e \<and> \<not> is_panic e then runTx act left x' tries w' else Some (x', Inl e, w'))"

text \<open>The fields that the bodies assign: the identifier of the subscription, and the results.\<close>

definition bound_params :: "getSubscriptionMessagesParams \<Rightarrow> time \<Rightarrow> database \<Rightarrow> getSubscriptionMessagesParams" where
  "bound_params p now db = (case verifySub p db of Inl e \<Rightarrow> p | Inr (s, p') \<Rightarrow> p')"

definition pass_results :: "filter_parser \<Rightarrow> getSubscriptionMessagesParams \<Rightarrow> getSubscriptionMessagesResults option \<Rightarrow>
    pass \<Rightarrow> database \<Rightarrow> getSubscriptionMessagesResults option" where
  "pass_results parse p old ps db =
     (case get_pass parse ps p db of Inr ((s, Got r), _) \<Rightarrow> Some r | _ \<Rightarrow> old)"

definition renew_awaiter :: "uuid \<Rightarrow> chan option \<Rightarrow> world \<Rightarrow> chan \<times> world" where
  "renew_awaiter i old w =
     (let st = (case old of None \<Rightarrow> wNotify w | Some c \<Rightarrow> CancelPublishAwaiter i c (wNotify w));
          (c, st') = PublishAwaiter i st
      in (c, w\<lparr>wNotify := st'\<rparr>))"

definition drop_awaiter :: "uuid \<Rightarrow> chan \<Rightarrow> world \<Rightarrow> world" where
  "drop_awaiter i c w = w\<lparr>wNotify := CancelPublishAwaiter i c (wNotify w)\<rparr>"

text \<open>The closing transaction applies an empty result, with the subscription that the last pass read.\<close>

definition get_close :: "filter_parser \<Rightarrow> (nat \<Rightarrow> uuid) \<Rightarrow> getSubscriptionMessagesParams \<Rightarrow> subscription \<Rightarrow>
    time \<Rightarrow> getSubscriptionMessagesResults exec" where
  "get_close parse newID p s now = applyResults parse newID id p s now []"

fun get_loop :: "filter_parser \<Rightarrow> getSubscriptionMessagesParams \<Rightarrow> uuid \<Rightarrow> chan option \<Rightarrow> round list \<Rightarrow> world \<Rightarrow>
    (getSubscriptionMessagesResults res \<times> world) option" where
  "get_loop parse p i old [] w = None"
| "get_loop parse p i old (rd # rds) w =
     (case renew_awaiter i old w of (c, w1) \<Rightarrow>
      (case runTx (\<lambda>_ ps. get_pass parse ps p) (pass_results parse p) None (rdTries rd) w1 of
         None \<Rightarrow> None
       | Some (results, Inl e, w2) \<Rightarrow> Some (Inl e, drop_awaiter i c w2)
       | Some (Some r, Inr sr, w2) \<Rightarrow> Some (Inr r, drop_awaiter i c w2)
       | Some (None, Inr (s, pr), w2) \<Rightarrow>
           (case rdWakeup rd of
              FindTimeout \<Rightarrow>
                (case runTx (\<lambda>_. get_close parse (rdNewID rd) p s) (\<lambda>_ _ _. ()) () (rdFinal rd) w2 of
                   None \<Rightarrow> None
                 | Some (_, res, w3) \<Rightarrow> Some (res, drop_awaiter i c w3))
            | NextAttemptDue \<Rightarrow>
                if pr = Next None then None else get_loop parse p i (Some c) rds w2
            | PubAwaiterClosed \<Rightarrow> get_loop parse p i (Some c) rds w2
            | CtxDone e \<Rightarrow> Some (Inl e, drop_awaiter i c w2))))"

definition ExecuteClient :: "filter_parser \<Rightarrow> getSubscriptionMessagesParams \<Rightarrow> time attempt list \<Rightarrow> round list \<Rightarrow> world \<Rightarrow>
    (getSubscriptionMessagesResults res \<times> world) option" where
  "ExecuteClient parse p tries rds w =
     (case runTx (\<lambda>p now. get_start now p) bound_params p tries w of
        None \<Rightarrow> None
      | Some (_, Inl e, w1) \<Rightarrow> Some (Inl e, w1)
      | Some (_, Inr p', w1) \<Rightarrow>
          (case gmID p' of
             None \<Rightarrow> Some (Inl nil_deref, w1)
           | Some i \<Rightarrow> get_loop parse p' i None rds w1))"

lemma wf_get_pass [wf_intros]:
  assumes "wf_db db" and "get_pass parse ps p db = Inr (r, ns, db')"
  shows "wf_db db'"
  using assms unfolding get_pass_def Let_def
  by (auto elim!: bind_res_InrE split: if_split_asm intro: wf_applyResults)

lemma wf_get_start [wf_intros]:
  assumes "wf_db db" and "get_start now p db = Inr (r, ns, db')"
  shows "wf_db db'"
  using assms unfolding get_start_def by (auto elim!: bind_res_InrE intro: wf_refresh_expiry)

interpretation get_pass: db_action "\<lambda>(parse, ps, p). get_pass parse ps p" "\<lambda>_. True"
  by unfold_locales (auto intro: wf_intros)

interpretation get_start: db_action "\<lambda>(now, p). get_start now p" "\<lambda>_. True"
  by unfold_locales (auto intro: wf_intros)

interpretation apply_results:
  db_action "\<lambda>(parse, newID, arrange, p, s, now, ds). applyResults parse newID arrange p s now ds" "\<lambda>_. True"
  by unfold_locales (auto intro: wf_intros)

subsection \<open>What a pass hands out\<close>

text \<open>The limits: never more messages than asked for, and no more bytes, apart from the exception.\<close>

definition payload_bytes :: "subscriptionMessageDelivery list \<Rightarrow> nat" where
  "payload_bytes rs = sum_list (map (\<lambda>r. length (smdPayload r)) rs)"

lemma payload_bytes_simps [simp]:
  "payload_bytes [] = 0"
  "payload_bytes (r # rs) = length (smdPayload r) + payload_bytes rs"
  by (simp_all add: payload_bytes_def)

lemma hand_out_simps [simp]:
  "smdID (hand_out s now d m) = dID d"
  "smdPayload (hand_out s now d m) = mPayload m"
  "smdMessageID (hand_out s now d m) = mID m"
  "smdNumAttempts (hand_out s now d m) = dAttempts d + 1"
  "smdNextAttemptAt (hand_out s now d m) + smdFuzzDelay (hand_out s now d m) =
     now + snd (NextDelayFor s (nat (dAttempts d + 1)))"
  by (simp_all add: hand_out_def split: prod.splits)

lemma applyLoop_length:
  "applyLoop parse newID p s now i b ds db = Inr (rs, n, ns, db') \<Longrightarrow> length rs \<le> length ds"
proof (induction ds arbitrary: newID i b db rs n ns)
  case (Cons d ds)
  from Cons.prems show ?case
    by (auto simp del: split_paired_All split: option.split_asm if_split_asm elim!: bind_res_InrE
        dest!: Cons.IH)
qed simp

lemma applyLoop_bytes:
  assumes "applyLoop parse newID p s now i b ds db = Inr (rs, n, ns, db')" and "gmMaxBytesStrict p \<or> i > 0"
  shows "rs = [] \<or> int (b + payload_bytes rs) \<le> gmMaxBytes p"
  using assms
proof (induction ds arbitrary: newID i b db rs n ns)
  case (Cons d ds)
  obtain m where m: "first_row (filter (\<lambda>m. mID m = dMessageID d) (messages db)) = Some m"
    using Cons.prems(1) by (auto split: option.split_asm)
  show ?case
  proof (cases "int (b + length (mPayload m)) > gmMaxBytes p")
    case True
    with Cons.prems m have "applyLoop parse newID p s now (Suc i) b ds db = Inr (rs, n, ns, db')" by auto
    from Cons.IH[OF this] show ?thesis by simp
  next
    case False
    with Cons.prems m show ?thesis
      by (fastforce split: if_split_asm elim!: bind_res_InrE dest!: Cons.IH)
  qed
qed simp

lemma applyLoop_bytes_first:
  assumes "applyLoop parse newID p s now 0 0 ds db = Inr (rs, n, ns, db')"
  shows "int (payload_bytes rs) \<le> gmMaxBytes p \<or> rs = [] \<or> (\<not> gmMaxBytesStrict p \<and> length rs = 1)"
proof (cases "gmMaxBytesStrict p")
  case True
  then show ?thesis using applyLoop_bytes[OF assms] by auto
next
  case False
  show ?thesis
  proof (cases ds)
    case Nil
    then show ?thesis using assms by simp
  next
    case (Cons d ds')
    obtain m where m: "first_row (filter (\<lambda>m. mID m = dMessageID d) (messages db)) = Some m"
      using assms Cons by (auto split: option.split_asm)
    show ?thesis
      using assms[unfolded Cons] m False
      by (auto split: if_split_asm elim!: bind_res_InrE dest!: applyLoop_bytes)
  qed
qed

lemma recordAttempts_ok:
  assumes "distinct (map smdID rs)" and "\<forall>r\<in>set rs. smdID r \<in> delivery_ids db"
  shows "recordAttempts now rs db = Inr (db\<lparr>deliveries :=
    map (\<lambda>x. case filter (\<lambda>r. smdID r = dID x) rs of [] \<Rightarrow> x | r # _ \<Rightarrow> record_attempt now r x) (deliveries db)\<rparr>)"
  using assms
proof (induction rs arbitrary: db)
  case (Cons r rs)
  let ?db1 = "update_deliveries (\<lambda>x. dID x = smdID r) (record_attempt now r) db"
  have dID: "dID (record_attempt now r x) = dID x" for r x by (simp add: record_attempt_def)
  have "map dID (deliveries ?db1) = map dID (deliveries db)"
    unfolding update_deliveries_def by (simp add: map_update_where dID)
  then have "delivery_ids ?db1 = delivery_ids db" unfolding delivery_ids_def by simp
  with Cons have IH: "recordAttempts now rs ?db1 = Inr (?db1\<lparr>deliveries :=
      map (\<lambda>x. case filter (\<lambda>r. smdID r = dID x) rs of [] \<Rightarrow> x | r # _ \<Rightarrow> record_attempt now r x)
        (deliveries ?db1)\<rparr>)"
    by (intro Cons.IH) auto
  have "update_one_delivery (smdID r) (record_attempt now r) db = Inr ?db1"
    using Cons.prems(2) by (auto simp: update_one_delivery_def delivery_ids_def list_ex_iff)
  moreover have "filter (\<lambda>q. smdID q = smdID r) rs = []"
    using Cons.prems(1) by (auto simp: filter_empty_conv image_iff)
  ultimately show ?case
    using IH by (auto simp: update_deliveries_def update_where_def dID)
qed (simp add: update_deliveries_def)

text \<open>
  The loop succeeds, and splits the rows it was given into the ones it hands out, the ones it
  dead-letters and the ones it leaves for a later pass.
\<close>

definition loop_post :: "subscription \<Rightarrow> time \<Rightarrow> delivery list \<Rightarrow> database \<Rightarrow> subscriptionMessageDelivery list \<Rightarrow>
    uuid set \<Rightarrow> delivery list \<Rightarrow> bool" where
  "loop_post s now ds db rs D new \<longleftrightarrow>
     distinct (map smdID rs) \<and> D \<inter> smdID ` set rs = {} \<and>
     (\<forall>r\<in>set rs. \<exists>d\<in>set ds. \<exists>m\<in>set (messages db). mID m = dMessageID d \<and> \<not> exhausted s d \<and>
        r = hand_out s now d m) \<and>
     (\<forall>i\<in>D. \<exists>d\<in>set ds. dID d = i \<and> exhausted s d) \<and>
     (\<forall>x\<in>set new. dCompletedAt x = None \<and> dID x \<notin> delivery_ids db)"

lemma loop_post_weaken:
  assumes "loop_post s now ds db rs D new"
  shows "loop_post s now (d # ds) db rs D new"
  using assms by (fastforce simp: loop_post_def)

lemma loop_post_hand_out:
  assumes "loop_post s now ds db rs D new" and "m \<in> set (messages db)" and "mID m = dMessageID d"
    and "\<not> exhausted s d" and "dID d \<notin> dID ` set ds"
  shows "loop_post s now (d # ds) db (hand_out s now d m # rs) D new"
proof -
  have ids: "smdID ` set rs \<subseteq> dID ` set ds" "D \<subseteq> dID ` set ds"
    using assms(1) by (fastforce simp: loop_post_def)+
  then have "dID d \<notin> smdID ` set rs" "dID d \<notin> D" using assms(5) by auto
  with assms show ?thesis by (fastforce simp: loop_post_def)
qed

lemma loop_post_dead:
  assumes "loop_post s now ds db1 rs D new" and "messages db1 = messages db"
    and "delivery_ids db \<subseteq> delivery_ids db1" and "exhausted s d" and "dID d \<notin> dID ` set ds"
    and "\<forall>x\<in>set new1. dCompletedAt x = None \<and> dID x \<notin> delivery_ids db"
  shows "loop_post s now (d # ds) db rs (insert (dID d) D) (new1 @ new)"
proof -
  note post = assms(1)[unfolded loop_post_def assms(2)]
  have "smdID ` set rs \<subseteq> dID ` set ds" using post by fastforce
  then have "insert (dID d) D \<inter> smdID ` set rs = {}" using post assms(5) by auto
  moreover have "\<forall>i\<in>insert (dID d) D. \<exists>x\<in>set (d # ds). dID x = i \<and> exhausted s x"
    using post assms(4) by auto
  moreover have "\<forall>x\<in>set (new1 @ new). dCompletedAt x = None \<and> dID x \<notin> delivery_ids db"
    using post assms(3,6) by auto
  moreover have "\<forall>r\<in>set rs. \<exists>x\<in>set (d # ds). \<exists>m\<in>set (messages db). mID m = dMessageID x \<and>
      \<not> exhausted s x \<and> r = hand_out s now x m" using post by fastforce
  ultimately show ?thesis using post unfolding loop_post_def by blast
qed

lemma applyLoop_ok:
  assumes "wf_db db" and "parse_wf parse" and "fresh_ids newID (length ds * length (subscriptions db)) db"
    and "\<forall>d\<in>set ds. dID d \<in> delivery_ids db \<and> dMessageID d \<in> message_ids db" and "distinct (map dID ds)"
  shows "\<exists>rs n ns D new. applyLoop parse newID p s now i b ds db = Inr (rs, n, ns, db\<lparr>deliveries :=
      update_where (\<lambda>x. dID x \<in> D) (set_completed now) (deliveries db) @ new\<rparr>) \<and>
    loop_post s now ds db rs D new"
  using assms
proof (induction ds arbitrary: newID i b db)
  case Nil
  show ?case
    by (rule exI[of _ "[]"], rule exI[of _ 0], rule exI[of _ "[]"], rule exI[of _ "{}"], rule exI[of _ "[]"])
      (simp add: update_where_def loop_post_def)
next
  case (Cons d ds)
  let ?N = "length (subscriptions db)"
  obtain m where m: "m \<in> set (messages db)" "mID m = dMessageID d"
    using Cons.prems(4) by (auto simp: message_ids_def)
  then have row: "first_row (filter (\<lambda>x. mID x = dMessageID d) (messages db)) = Some m"
    using filter_key_eq[OF wf_db_distinct(3)[OF Cons.prems(1)] m(1)] by simp
  have f: "fresh_ids newID (?N + length ds * ?N) db" using Cons.prems(3) by simp
  have IH: "\<exists>rs n ns D new. applyLoop parse newID p s now (Suc i) b' ds db = Inr (rs, n, ns, db\<lparr>deliveries :=
      update_where (\<lambda>x. dID x \<in> D) (set_completed now) (deliveries db) @ new\<rparr>) \<and>
      loop_post s now ds db rs D new" for b'
    using Cons.IH[OF Cons.prems(1,2) fresh_ids_fewer[OF f]] Cons.prems(4,5) by simp
  have nd: "dID d \<notin> dID ` set ds" using Cons.prems(5) by simp
  consider (skip) "(gmMaxBytesStrict p \<or> i > 0) \<and> int (b + length (mPayload m)) > gmMaxBytes p"
    | (dead) "\<not> ((gmMaxBytesStrict p \<or> i > 0) \<and> int (b + length (mPayload m)) > gmMaxBytes p)" "exhausted s d"
    | (out) "\<not> ((gmMaxBytesStrict p \<or> i > 0) \<and> int (b + length (mPayload m)) > gmMaxBytes p)" "\<not> exhausted s d"
    by blast
  then show ?case
  proof cases
    case skip
    with IH[of b] row show ?thesis by (fastforce intro: loop_post_weaken)
  next
    case out
    show ?thesis
    proof (cases "int i + 1 \<ge> gmMaxMessages p")
      case True
      have "loop_post s now (d # ds) db [hand_out s now d m] {} []"
        using m out(2) by (auto simp: loop_post_def)
      moreover have "applyLoop parse newID p s now i b (d # ds) db = Inr ([hand_out s now d m], 0, [],
          db\<lparr>deliveries := update_where (\<lambda>x. dID x \<in> {}) (set_completed now) (deliveries db) @ []\<rparr>)"
        using out row True by (auto simp: exhausted_def update_where_def)
      ultimately show ?thesis by blast
    next
      case False
      obtain rs n ns D new where e: "applyLoop parse newID p s now (Suc i) (b + length (mPayload m)) ds db =
          Inr (rs, n, ns, db\<lparr>deliveries := update_where (\<lambda>x. dID x \<in> D) (set_completed now) (deliveries db) @ new\<rparr>)"
        and post: "loop_post s now ds db rs D new" using IH by blast
      have "applyLoop parse newID p s now i b (d # ds) db = Inr (hand_out s now d m # rs, n, ns,
          db\<lparr>deliveries := update_where (\<lambda>x. dID x \<in> D) (set_completed now) (deliveries db) @ new\<rparr>)"
        using out row False e by (auto simp: exhausted_def)
      with loop_post_hand_out[OF post m out(2) nd] show ?thesis by blast
    qed
  next
    case dead
    then obtain t where t: "sDeadLetterTopicID s = Some t"
      by (auto simp: exhausted_def HasFullDeadLetterConfig_def split: option.splits)
    let ?data = "\<lparr>dlDeliveryID = dID d, dlSubscriptionID = dSubscriptionID d, dlMessageID = dMessageID d,
      dlTopicID = t\<rparr>"
    have a: "dlDeliveryID ?data \<in> delivery_ids db" "dlMessageID ?data \<in> message_ids db"
      using Cons.prems(4) by auto
    obtain k ns ds1 db1 where eq1: "deadLetterDelivery parse newID ?data now db = Inr (k, ns, db1)"
      and db1: "db1 = db\<lparr>deliveries := update_where (\<lambda>x. dID x = dlDeliveryID ?data) (set_completed now)
        (deliveries db) @ ds1\<rparr>"
      and new1: "\<forall>x\<in>set ds1. dCompletedAt x = None \<and> dAttempts x = 0 \<and> dID x \<notin> delivery_ids db"
      and f2: "fresh_ids (\<lambda>j. newID (k + j)) (length ds * ?N) db1"
      and ids1: "delivery_ids db \<subseteq> delivery_ids db1" and wf1: "wf_db db1"
      by (rule deadLetterDelivery_step[OF Cons.prems(1,2) f a])
    have same: "subscriptions db1 = subscriptions db" "message_ids db1 = message_ids db"
      "messages db1 = messages db" by (simp_all add: db1 message_ids_def)
    have f2': "fresh_ids (\<lambda>j. newID (k + j)) (length ds * length (subscriptions db1)) db1"
      using f2 by (simp add: same)
    have pre: "\<forall>d\<in>set ds. dID d \<in> delivery_ids db1 \<and> dMessageID d \<in> message_ids db1"
      and dis: "distinct (map dID ds)" using Cons.prems(4,5) ids1 by (auto simp: same)
    obtain rs n ns' D new where e: "applyLoop parse (\<lambda>j. newID (k + j)) p s now (Suc i) b ds db1 =
        Inr (rs, n, ns', db1\<lparr>deliveries := update_where (\<lambda>x. dID x \<in> D) (set_completed now) (deliveries db1) @ new\<rparr>)"
      and post: "loop_post s now ds db1 rs D new"
      using Cons.IH[OF wf1 Cons.prems(2) f2' pre dis] by blast
    have D: "D \<subseteq> dID ` set ds" "smdID ` set rs \<subseteq> dID ` set ds" using post by (fastforce simp: loop_post_def)+
    have "update_where (\<lambda>x. dID x \<in> D) (set_completed now) ds1 = ds1"
      using subsetD[OF D(1)] Cons.prems(4) new1 by (intro update_where_none) fastforce
    then have "db1\<lparr>deliveries := update_where (\<lambda>x. dID x \<in> D) (set_completed now) (deliveries db1) @ new\<rparr> =
        db\<lparr>deliveries := update_where (\<lambda>x. dID x \<in> insert (dID d) D) (set_completed now) (deliveries db) @ ds1 @ new\<rparr>"
      using set_completed_idem[of "\<lambda>x. dID x \<in> D" now "\<lambda>x. dID x = dID d"]
      by (simp add: db1 update_where_append)
    moreover have "loop_post s now (d # ds) db rs (insert (dID d) D) (ds1 @ new)"
      using post same(3) ids1 dead(2) nd by (rule loop_post_dead) (use new1 in blast)
    ultimately show ?thesis
      using dead row t eq1 e
      by (intro exI[of _ rs] exI[of _ "Suc n"] exI[of _ "ns @ ns'"] exI[of _ "insert (dID d) D"]
          exI[of _ "ds1 @ new"]) (auto simp: exhausted_def deadLetterDataFromEntities_def)
  qed
qed

lemma subMatch_unique:
  assumes "wf_db db" and "gmName p \<noteq> [] \<or> gmID p \<noteq> None"
  shows "length (filter (subMatch p) (subscriptions db)) \<le> 1"
proof (cases "gmName p = []")
  case False
  then have "filter (subMatch p) (subscriptions db) = filter (subMatch p) (live_subs (gmName p) db)"
    by (auto simp: live_subs_def subMatch_def intro!: filter_cong)
  then show ?thesis
    using live_subs_le_1[OF assms(1), of "gmName p"] length_filter_le order_trans by metis
next
  case True
  with assms(2) obtain i where i: "gmID p = Some i" by auto
  show ?thesis
  proof (cases "\<exists>s\<in>set (subscriptions db). sID s = i")
    case True
    then obtain s where s: "s \<in> set (subscriptions db)" "sID s = i" by auto
    have "filter (subMatch p) (subscriptions db) =
        filter (subMatch p) (filter (\<lambda>x. sID x = i) (subscriptions db))"
      using i by (auto simp: subMatch_def intro!: filter_cong)
    also have "\<dots> = filter (subMatch p) [s]"
      using filter_key_eq[OF wf_db_distinct(2)[OF assms(1)] s(1)] s(2) by simp
    finally show ?thesis by simp
  next
    case False
    then show ?thesis using i by (auto simp: subMatch_def filter_empty_conv[THEN iffD2])
  qed
qed

lemma verifySub_wf:
  assumes "wf_db db" and "gmName p \<noteq> [] \<or> gmID p \<noteq> None"
  shows "verifySub p db = (case filter (subMatch p) (subscriptions db) of
    [] \<Rightarrow> Inl ErrNotFound | s # _ \<Rightarrow> Inr (s, p\<lparr>gmID := Some (sID s)\<rparr>))"
  using subMatch_unique[OF assms] by (auto simp: verifySub_def only_def split: list.splits)

lemma refresh_expiry_ok:
  assumes "wf_db db" and "s \<in> set (subscriptions db)"
  shows "refresh_expiry (sID s) t db = Inr (db\<lparr>subscriptions :=
    update_where (\<lambda>x. sID x = sID s) (\<lambda>x. x\<lparr>sExpiresAt := t\<rparr>) (subscriptions db)\<rparr>)"
proof -
  have "list_all (sub_refs db) (update_where (\<lambda>x. sID x = sID s) (\<lambda>x. x\<lparr>sExpiresAt := t\<rparr>) (subscriptions db))"
    using wf_db_refs(1,2)[OF assms(1)] by (auto simp: list_all_iff set_update_where sub_refs_def)
  then show ?thesis using assms(2) by (auto simp: refresh_expiry_def update_subscriptions_def Let_def list_ex_iff)
qed

text \<open>The whole of \<open>applyResults\<close> on rows of the database.\<close>

lemma applyResults_ok:
  assumes "wf_db db" and "parse_wf parse" and "fresh_ids newID (length ds * length (subscriptions db)) db"
    and "set ds \<subseteq> set (deliveries db)" and "distinct (map dID ds)" and "s \<in> set (subscriptions db)"
    and "\<And>rs. mset (arrange rs) = mset rs"
  obtains r ns db' D new where "applyResults parse newID arrange p s now ds db = Inr (r, ns, db')"
    and "loop_post s now ds db (grDeliveries r) D new"
    and "deliveries db' = map (\<lambda>x. case filter (\<lambda>q. smdID q = dID x) (grDeliveries r) of
        [] \<Rightarrow> (if dID x \<in> D then x\<lparr>dCompletedAt := Some now\<rparr> else x)
      | q # _ \<Rightarrow> record_attempt now q x) (deliveries db) @ new"
    and "length (grDeliveries r) \<le> length ds"
    and "int (payload_bytes (grDeliveries r)) \<le> gmMaxBytes p \<or> grDeliveries r = [] \<or>
      (\<not> gmMaxBytesStrict p \<and> length (grDeliveries r) = 1)"
proof -
  let ?db1 = "db\<lparr>subscriptions :=
    update_where (\<lambda>x. sID x = sID s) (\<lambda>x. x\<lparr>sExpiresAt := now + sTTL s\<rparr>) (subscriptions db)\<rparr>"
  have r1: "refresh_expiry (sID s) (now + sTTL s) db = Inr ?db1" using assms(1,6) by (rule refresh_expiry_ok)
  have wf1: "wf_db ?db1" using assms(1) r1 by (rule wf_refresh_expiry)
  have same: "delivery_ids ?db1 = delivery_ids db" "message_ids ?db1 = message_ids db"
    "length (subscriptions ?db1) = length (subscriptions db)" by (simp_all add: id_defs)
  have "fresh_ids newID (length ds * length (subscriptions ?db1)) ?db1"
    using assms(3) unfolding fresh_ids_def same .
  moreover have "\<forall>d\<in>set ds. dID d \<in> delivery_ids ?db1 \<and> dMessageID d \<in> message_ids ?db1"
    unfolding same using assms(4) wf_db_refs(4)[OF assms(1)] by (auto simp: delivery_ids_def)
  ultimately obtain rs n ns D new where loop: "applyLoop parse newID p s now 0 0 ds ?db1 = Inr (rs, n, ns,
      ?db1\<lparr>deliveries := update_where (\<lambda>x. dID x \<in> D) (set_completed now) (deliveries ?db1) @ new\<rparr>)"
    and post1: "loop_post s now ds ?db1 rs D new"
    using applyLoop_ok[OF wf1 assms(2) _ _ assms(5), of newID p s now 0 0] by blast
  have post: "loop_post s now ds db rs D new" using post1 unfolding loop_post_def same by simp
  let ?db2 = "?db1\<lparr>deliveries := update_where (\<lambda>x. dID x \<in> D) (set_completed now) (deliveries ?db1) @ new\<rparr>"
  have dis: "distinct (map smdID (arrange rs))" and set: "set (arrange rs) = set rs"
    using post mset_eq_setD[OF assms(7)[of rs]]
      mset_eq_imp_distinct_iff[of "map smdID (arrange rs)" "map smdID rs"] assms(7)[of rs]
    by (simp_all add: loop_post_def)
  have ids: "smdID ` set rs \<subseteq> delivery_ids db"
    using post assms(4) by (fastforce simp: loop_post_def delivery_ids_def)
  have "map dID (update_where (\<lambda>x. dID x \<in> D) (set_completed now) (deliveries db)) = map dID (deliveries db)"
    by (rule map_update_where) simp
  then have "delivery_ids ?db2 = delivery_ids db \<union> dID ` set new"
    by (simp add: delivery_ids_def flip: set_map add: image_Un)
  then have "\<forall>r\<in>set (arrange rs). smdID r \<in> delivery_ids ?db2"
    using ids unfolding set by auto
  note rec = recordAttempts_ok[OF dis this, of now]
  have key: "filter (\<lambda>q. smdID q = k) (arrange rs) = filter (\<lambda>q. smdID q = k) rs" for k
  proof (cases "k \<in> smdID ` set rs")
    case True
    then obtain q where "q \<in> set rs" "smdID q = k" by auto
    then show ?thesis
      using filter_key_eq[OF dis, of q] filter_key_eq[of smdID rs q] post set by (auto simp: loop_post_def)
  next
    case False
    then have "filter (\<lambda>q. smdID q = k) (arrange rs) = []" "filter (\<lambda>q. smdID q = k) rs = []"
      using set by (auto simp: filter_empty_conv)
    then show ?thesis by simp
  qed
  have new_out: "filter (\<lambda>q. smdID q = dID x) rs = []" if "x \<in> set new" for x
    using that post ids by (fastforce simp: loop_post_def filter_empty_conv)
  show thesis
  proof (rule that)
    show "applyResults parse newID arrange p s now ds db = Inr (\<lparr>grDeliveries = rs, grNumDeadLettered = n\<rparr>, ns,
      ?db2\<lparr>deliveries := map (\<lambda>x. case filter (\<lambda>r. smdID r = dID x) (arrange rs) of
        [] \<Rightarrow> x | r # _ \<Rightarrow> record_attempt now r x) (deliveries ?db2)\<rparr>)"
      using r1 loop rec by (simp add: applyResults_def)
    show "loop_post s now ds db (grDeliveries \<lparr>grDeliveries = rs, grNumDeadLettered = n\<rparr>) D new"
      using post by simp
    have "D \<inter> smdID ` set rs = {}" using post by (simp add: loop_post_def)
    then have "x \<in> set (deliveries db) \<Longrightarrow> dID x \<in> D \<Longrightarrow> filter (\<lambda>q. smdID q = dID x) rs = []" for x
      unfolding filter_empty_conv by (metis disjoint_iff imageI)
    then show "deliveries (?db2\<lparr>deliveries := map (\<lambda>x. case filter (\<lambda>r. smdID r = dID x) (arrange rs) of
        [] \<Rightarrow> x | r # _ \<Rightarrow> record_attempt now r x) (deliveries ?db2)\<rparr>) =
      map (\<lambda>x. case filter (\<lambda>q. smdID q = dID x) (grDeliveries \<lparr>grDeliveries = rs, grNumDeadLettered = n\<rparr>) of
        [] \<Rightarrow> (if dID x \<in> D then x\<lparr>dCompletedAt := Some now\<rparr> else x)
      | q # _ \<Rightarrow> record_attempt now q x) (deliveries db) @ new"
      using new_out by (auto simp: key update_where_def set_completed_def map_idI)
  qed (use applyLoop_length[OF loop] applyLoop_bytes_first[OF loop] in simp_all)
qed

definition due :: "pass \<Rightarrow> subscription \<Rightarrow> database \<Rightarrow> delivery \<Rightarrow> bool" where
  "due ps s db d \<longleftrightarrow> dSubscriptionID d = sID s \<and> dCompletedAt d = None \<and> dExpiresAt d > psNowQuery ps \<and>
     dAttemptAt d \<le> psNowDue ps \<and> \<not> psLocked ps (dID d) \<and>
     (sOrderedDelivery s \<longrightarrow> predecessor_done (psNowQuery ps) db d)"

lemma query_due:
  "set (queryAndLockDeliveriesOnce (psNowDue ps) (psNowQuery ps) (psLocked ps) p s db)
     \<subseteq> {d \<in> set (deliveries db). due ps s db d}"
  by (auto simp: queryAndLockDeliveriesOnce_def buildDeliveryQuery_def due_def dest!: in_set_takeD)

lemma distinct_map_sort_key: "distinct (map k (sort_key j xs)) \<longleftrightarrow> distinct (map k xs)"
  by (simp add: distinct_map)

lemma query_distinct:
  "wf_db db \<Longrightarrow> distinct (map dID (queryAndLockDeliveriesOnce now now' locked p s db))"
  unfolding queryAndLockDeliveriesOnce_def buildDeliveryQuery_def take_map[symmetric]
  by (intro distinct_take)
    (simp add: distinct_map_sort_key distinct_map_filter wf_db_distinct(4) del: filter_filter)

lemma query_empty:
  assumes "gmMaxMessages p \<ge> 1"
    and "queryAndLockDeliveriesOnce (psNowDue ps) (psNowQuery ps) (psLocked ps) p s db = []"
    and "d \<in> set (deliveries db)"
  shows "\<not> due ps s db d"
proof -
  have "sort_key dAttemptAt (filter (\<lambda>d. \<not> psLocked ps (dID d))
      (buildDeliveryQuery (psNowQuery ps) s (\<lambda>d. dAttemptAt d \<le> psNowDue ps) db)) = []"
    using assms(1,2) by (simp add: queryAndLockDeliveriesOnce_def)
  then have "set (filter (\<lambda>d. \<not> psLocked ps (dID d))
      (buildDeliveryQuery (psNowQuery ps) s (\<lambda>d. dAttemptAt d \<le> psNowDue ps) db)) = {}"
    by (metis set_sort set_empty)
  with assms(3) show ?thesis by (auto simp: buildDeliveryQuery_def due_def filter_empty_conv)
qed

lemma get_pass_ok:
  assumes "wf_db db" and "parse_wf parse" and "gmName p \<noteq> [] \<or> gmID p \<noteq> None" and "gmMaxMessages p \<ge> 1"
    and "fresh_ids (psNewID ps) (length (deliveries db) * length (subscriptions db)) db"
    and "\<And>rs. mset (psArrange ps rs) = mset rs"
  shows "case get_pass parse ps p db of
      Inl e \<Rightarrow> e = ErrNotFound \<and> (\<forall>s\<in>set (subscriptions db). \<not> subMatch p s)
    | Inr ((s, Next t), ns, db') \<Rightarrow> s \<in> set (subscriptions db) \<and> subMatch p s \<and> ns = [] \<and> db' = db \<and>
        (\<forall>d\<in>set (deliveries db). \<not> due ps s db d)
    | Inr ((s, Got r), ns, db') \<Rightarrow> s \<in> set (subscriptions db) \<and> subMatch p s \<and>
        int (length (grDeliveries r)) \<le> gmMaxMessages p \<and>
        (int (payload_bytes (grDeliveries r)) \<le> max 0 (gmMaxBytes p) \<or>
         \<not> gmMaxBytesStrict p \<and> length (grDeliveries r) = 1) \<and>
        distinct (map smdID (grDeliveries r)) \<and>
        (\<forall>x\<in>set (grDeliveries r). \<exists>d\<in>set (deliveries db). \<exists>m\<in>set (messages db).
          due ps s db d \<and> smdID x = dID d \<and> mID m = dMessageID d \<and> smdMessageID x = mID m \<and>
          smdPayload x = mPayload m \<and> smdNumAttempts x = dAttempts d + 1 \<and>
          d\<lparr>dLastAttemptedAt := Some (psNowApply ps), dAttempts := dAttempts d + 1,
            dAttemptAt := psNowApply ps + snd (NextDelayFor s (nat (dAttempts d + 1)))\<rparr> \<in> set (deliveries db'))"
proof (cases "filter (subMatch p) (subscriptions db)")
  case Nil
  then show ?thesis
    using verifySub_wf[OF assms(1,3)] by (simp add: get_pass_def filter_empty_conv)
next
  case (Cons s ss)
  have s: "s \<in> set (subscriptions db)" "subMatch p s" using arg_cong[OF Cons, of set] by auto
  have v: "verifySub p db = Inr (s, p\<lparr>gmID := Some (sID s)\<rparr>)" using verifySub_wf[OF assms(1,3)] Cons by simp
  let ?ds = "queryAndLockDeliveriesOnce (psNowDue ps) (psNowQuery ps) (psLocked ps) p s db"
  show ?thesis
  proof (cases "?ds = []")
    case True
    with v s query_empty[OF assms(4) True] show ?thesis by (simp add: get_pass_def Let_def)
  next
    case False
    have len: "length ?ds \<le> length (deliveries db)" "int (length ?ds) \<le> gmMaxMessages p"
      using assms(4) by (auto simp: queryAndLockDeliveriesOnce_def buildDeliveryQuery_def
          intro!: min.coboundedI1 order_trans[OF length_filter_le])
    have f: "fresh_ids (psNewID ps) (length ?ds * length (subscriptions db)) db"
      using assms(5) by (rule fresh_ids_fewer) (use len(1) in simp)
    have sub: "set ?ds \<subseteq> set (deliveries db)" using query_due[of ps p s db] by blast
    obtain r ns db' D new where a: "applyResults parse (psNewID ps) (psArrange ps) p s (psNowApply ps) ?ds db =
        Inr (r, ns, db')"
      and post: "loop_post s (psNowApply ps) ?ds db (grDeliveries r) D new"
      and rows: "deliveries db' = map (\<lambda>x. case filter (\<lambda>q. smdID q = dID x) (grDeliveries r) of
          [] \<Rightarrow> (if dID x \<in> D then x\<lparr>dCompletedAt := Some (psNowApply ps)\<rparr> else x)
        | q # _ \<Rightarrow> record_attempt (psNowApply ps) q x) (deliveries db) @ new"
      and rlen: "length (grDeliveries r) \<le> length ?ds"
      and bytes: "int (payload_bytes (grDeliveries r)) \<le> gmMaxBytes p \<or> grDeliveries r = [] \<or>
        (\<not> gmMaxBytesStrict p \<and> length (grDeliveries r) = 1)"
      by (rule applyResults_ok[OF assms(1,2) f sub query_distinct[OF assms(1)] s(1) assms(6)])
    have each: "\<exists>d\<in>set (deliveries db). \<exists>m\<in>set (messages db).
        due ps s db d \<and> smdID x = dID d \<and> mID m = dMessageID d \<and> smdMessageID x = mID m \<and>
        smdPayload x = mPayload m \<and> smdNumAttempts x = dAttempts d + 1 \<and>
        d\<lparr>dLastAttemptedAt := Some (psNowApply ps), dAttempts := dAttempts d + 1,
          dAttemptAt := psNowApply ps + snd (NextDelayFor s (nat (dAttempts d + 1)))\<rparr> \<in> set (deliveries db')"
      if x: "x \<in> set (grDeliveries r)" for x
    proof -
      obtain d m where d: "d \<in> set ?ds" "m \<in> set (messages db)" "mID m = dMessageID d"
        "x = hand_out s (psNowApply ps) d m" using post x by (auto simp: loop_post_def)
      have d': "d \<in> set (deliveries db)" "due ps s db d" using d(1) query_due[of ps p s db] by auto
      have "filter (\<lambda>q. smdID q = dID d) (grDeliveries r) = [x]"
        using filter_key_eq[of smdID "grDeliveries r" x] post x d(4) by (simp add: loop_post_def)
      then have "record_attempt (psNowApply ps) x d \<in> set (deliveries db')"
        unfolding rows using d'(1) by (force simp: image_iff)
      with d d' show ?thesis by (auto simp: record_attempt_def intro!: bexI[of _ d] bexI[of _ m])
    qed
    have "int (length (grDeliveries r)) \<le> gmMaxMessages p" using rlen len(2) by simp
    moreover have "int (payload_bytes (grDeliveries r)) \<le> max 0 (gmMaxBytes p) \<or>
        \<not> gmMaxBytesStrict p \<and> length (grDeliveries r) = 1" using bytes by auto
    moreover have "distinct (map smdID (grDeliveries r))" using post by (simp add: loop_post_def)
    ultimately show ?thesis using v False a s each by (simp add: get_pass_def Let_def)
  qed
qed

text \<open>
  Property C5. A pass over a well-formed database fails only with \<open>ErrNotFound\<close>, exactly when no
  live subscription matches. Otherwise it either finds nothing due and changes nothing, or hands
  out deliveries: at most as many as asked for and at most as many bytes (outside strict mode a
  single larger message is allowed), each of them once, each of them due: of this subscription,
  not completed, not expired, not locked elsewhere, and on an ordered subscription only when its
  predecessor is completed or expired. What is handed out is the message of that delivery, and
  the row records the attempt and the next attempt after the backoff.
\<close>

theorem get_pass_correct:
  assumes "wf_db db" and "parse_wf parse" and "gmName p \<noteq> [] \<or> gmID p \<noteq> None" and "gmMaxMessages p \<ge> 1"
    and "fresh_ids (psNewID ps) (length (deliveries db) * length (subscriptions db)) db"
    and "\<And>rs. mset (psArrange ps rs) = mset rs"
  shows "case get_pass parse ps p db of
      Inl e \<Rightarrow> e = ErrNotFound \<and> (\<forall>s\<in>set (subscriptions db). \<not> subMatch p s)
    | Inr ((s, Next t), ns, db') \<Rightarrow> s \<in> set (subscriptions db) \<and> subMatch p s \<and> ns = [] \<and> db' = db \<and>
        (\<forall>d\<in>set (deliveries db). \<not> due ps s db d)
    | Inr ((s, Got r), ns, db') \<Rightarrow> s \<in> set (subscriptions db) \<and> subMatch p s \<and>
        int (length (grDeliveries r)) \<le> gmMaxMessages p \<and>
        (int (payload_bytes (grDeliveries r)) \<le> max 0 (gmMaxBytes p) \<or>
         \<not> gmMaxBytesStrict p \<and> length (grDeliveries r) = 1) \<and>
        distinct (map smdID (grDeliveries r)) \<and>
        (\<forall>x\<in>set (grDeliveries r). \<exists>d\<in>set (deliveries db). \<exists>m\<in>set (messages db).
          due ps s db d \<and> smdID x = dID d \<and> mID m = dMessageID d \<and> smdMessageID x = mID m \<and>
          smdPayload x = mPayload m \<and> smdNumAttempts x = dAttempts d + 1 \<and>
          d\<lparr>dLastAttemptedAt := Some (psNowApply ps), dAttempts := dAttempts d + 1,
            dAttemptAt := psNowApply ps + snd (NextDelayFor s (nat (dAttempts d + 1)))\<rparr> \<in> set (deliveries db'))"
  using get_pass_ok[OF assms] .

definition sample_pass :: pass where
  "sample_pass = \<lparr>psNowDue = 50, psNowQuery = 50, psNowApply = 50, psNowNext = (50, 50),
     psLocked = (\<lambda>_. False), psNewID = (\<lambda>k. 33 + of_nat k), psArrange = id\<rparr>"

definition sample_get :: getSubscriptionMessagesParams where
  "sample_get = \<lparr>gmName = ''s'', gmID = None, gmMaxMessages = 10, gmMaxBytes = 1000,
     gmMaxBytesStrict = False, gmMaxWait = 0\<rparr>"

theorem get_pass_correct_witness:
  "\<exists>s r ns db'. get_pass (\<lambda>_. None) sample_pass sample_get sample_db = Inr ((s, r), ns, db') \<and> subMatch sample_get s"
proof -
  have "fresh_ids (psNewID sample_pass) (length (deliveries sample_db) * length (subscriptions sample_db)) sample_db"
  proof -
    have "psNewID sample_pass = (\<lambda>k. 33 + of_nat k)" by (simp add: sample_pass_def)
    moreover have "length (deliveries sample_db) * length (subscriptions sample_db) \<le> 4"
      by (simp add: sample_db_def)
    ultimately show ?thesis using fresh_ids_fewer[OF fresh_sample_ids_4] by simp
  qed
  moreover have "parse_wf (\<lambda>_. None)" "gmName sample_get \<noteq> [] \<or> gmID sample_get \<noteq> None"
    "gmMaxMessages sample_get \<ge> 1" "\<And>rs. mset (psArrange sample_pass rs) = mset rs"
    by (simp_all add: parse_wf_def sample_get_def sample_pass_def)
  moreover have "sample_sub \<in> set (subscriptions sample_db)" "subMatch sample_get sample_sub"
    by (simp_all add: sample_defs subMatch_def sample_get_def)
  ultimately show ?thesis
    using get_pass_correct[OF wf_sample_db, of "\<lambda>_. None" sample_get sample_pass]
    by (auto split: sum.splits prod.splits passResult.splits)
qed

subsection \<open>The waiting loop\<close>

lemma wf_awaiter_steps:
  "wf_world w \<Longrightarrow> wf_world (snd (renew_awaiter i old w))"
  "wf_world w \<Longrightarrow> wf_world (drop_awaiter i c w)"
  by (auto simp: wf_world_def renew_awaiter_def drop_awaiter_def Let_def case_prod_beta
      intro!: wf_intros split: option.splits)

text \<open>What the retry loop keeps, if each attempt keeps it and so do the others in between.\<close>

definition calm_tries :: "'t attempt list \<Rightarrow> bool" where
  "calm_tries tries \<longleftrightarrow> (\<forall>a\<in>set tries. \<forall>v. wf_world v \<longrightarrow> wf_world (snd (snd a) v))"

lemma runTx_wf:
  assumes "\<And>x t drv v. wf_world v \<Longrightarrow> wf_world (snd (DoTx drv (act x t) v))"
    and "wf_world w" and "calm_tries tries" and "runTx act left x tries w = Some (x', res, w')"
  shows "wf_world w'"
  using assms(2-)
proof (induction tries arbitrary: x w)
  case (Cons a tries)
  obtain t drv others where a: "a = (t, drv, others)" by (rule prod_cases3)
  have "wf_world (others w)" using Cons.prems(1,2) a by (simp add: calm_tries_def)
  then have v: "wf_world (snd (DoTx drv (act x t) (others w)))" by (rule assms(1))
  have calm: "calm_tries tries" using Cons.prems(2) by (simp add: calm_tries_def)
  obtain o' u where d: "DoTx drv (act x t) (others w) = (o', u)" by (meson surj_pair)
  with v have u: "wf_world u" by simp
  show ?case
    using Cons.prems(3) Cons.IH[OF u calm] u a d
    by (auto simp: Let_def split: sum.split_asm if_split_asm)
qed simp

lemma get_loop_wf:
  assumes "wf_world w" and "\<forall>rd\<in>set rds. calm_tries (rdTries rd) \<and> calm_tries (rdFinal rd)"
    and "get_loop parse p i old rds w = Some (res, w')"
  shows "wf_world w'"
  using assms
proof (induction rds arbitrary: old w)
  case (Cons rd rds)
  obtain c w1 where c: "renew_awaiter i old w = (c, w1)" by (meson surj_pair)
  have w1: "wf_world w1" using wf_awaiter_steps(1)[OF Cons.prems(1), of i old] c by simp
  have pass: "wf_world (snd (DoTx drv (get_pass parse ps p) v))" if "wf_world v" for drv ps v
    using get_pass.DoTx_wf[where p = "(parse, ps, p)" and w = v and drv = drv] that by simp
  have close: "wf_world (snd (DoTx drv (get_close parse nid p s now) v))" if "wf_world v" for drv nid s now v
    using apply_results.DoTx_wf[where p = "(parse, nid, id, p, s, now, [])" and w = v and drv = drv] that
    by (simp add: get_close_def)
  have tries: "wf_world v" if "runTx (\<lambda>_ ps. get_pass parse ps p) left x (rdTries rd) w1 = Some (y, r, v)" for left x y r v
    using Cons.prems(2) by (intro runTx_wf[where act = "\<lambda>_ ps. get_pass parse ps p", OF pass w1 _ that]) simp_all
  have final: "wf_world v" if "wf_world u" "runTx (\<lambda>_. get_close parse nid p s) left x (rdFinal rd) u = Some (y, r, v)"
    for nid s left x y r u v
    using Cons.prems(2)
    by (intro runTx_wf[where act = "\<lambda>_. get_close parse nid p s", OF close that(1) _ that(2)]) simp_all
  obtain y o2 w2 where t: "runTx (\<lambda>_ ps. get_pass parse ps p) (pass_results parse p) None (rdTries rd) w1 = Some (y, o2, w2)"
    using Cons.prems(3) c by (auto split: option.split_asm)
  have w2: "wf_world w2" using t by (rule tries)
  have IH: "get_loop parse p i (Some c) rds w2 = Some (res, w') \<Longrightarrow> wf_world w'"
    using Cons.IH[OF w2] Cons.prems(2) by simp
  note res = Cons.prems(3)[unfolded get_loop.simps(2) c prod.case t option.case]
  have drop: "wf_world (drop_awaiter i c v)" if "wf_world v" for v using that by (rule wf_awaiter_steps(2))
  show ?case
  proof (cases o2)
    case (Inl e)
    with res drop[OF w2] show ?thesis by (cases y) auto
  next
    case (Inr sr)
    obtain s pr where sr: "sr = (s, pr)" by (cases sr)
    show ?thesis
    proof (cases y)
      case None
      note res' = res[unfolded Inr sr None prod.case sum.case option.case]
      show ?thesis
      proof (cases "rdWakeup rd")
        case FindTimeout
        with res' obtain y' r v where v: "runTx (\<lambda>_. get_close parse (rdNewID rd) p s) (\<lambda>_ _ _. ()) () (rdFinal rd) w2 =
            Some (y', r, v)" and "w' = drop_awaiter i c v"
          by (auto split: option.split_asm)
        with drop[OF final[OF w2 v]] show ?thesis by simp
      next
        case NextAttemptDue
        with res' IH show ?thesis by (auto split: if_split_asm)
      next
        case PubAwaiterClosed
        with res' IH show ?thesis by simp
      next
        case (CtxDone e)
        with res' drop[OF w2] show ?thesis by simp
      qed
    qed (use res Inr drop[OF w2] in auto)
  qed
qed simp

text \<open>Where the body assigns no field, this is the retry loop of the transactions.\<close>

lemma runTx_DoCtxTxRetry:
  "map_option snd (runTx (\<lambda>_ _. inner) left x tries w) = DoCtxTxRetry retry_deadlocks inner (map snd tries) w"
  by (induction tries arbitrary: x w) (auto simp: Let_def split: sum.split prod.split)

text \<open>
  Attempts of a pass that end in a deadlock one after the other. A deadlock aborts the transaction,
  also when the commit reports it. \<open>results_left\<close> is what is then in the field for the results.
\<close>

fun passes_deadlocked :: "filter_parser \<Rightarrow> getSubscriptionMessagesParams \<Rightarrow> pass attempt list \<Rightarrow> world \<Rightarrow> bool" where
  "passes_deadlocked parse p [] w = True"
| "passes_deadlocked parse p ((ps, drv, others) # tries) w \<longleftrightarrow>
     (case fst (DoTx drv (get_pass parse ps p) (others w)) of
        Inl e \<Rightarrow> retry_deadlocks e \<and> \<not> is_panic e \<and> \<not> drvCommitApplied drv
      | Inr _ \<Rightarrow> False) \<and> passes_deadlocked parse p tries (others w)"

fun results_left :: "filter_parser \<Rightarrow> getSubscriptionMessagesParams \<Rightarrow> getSubscriptionMessagesResults option \<Rightarrow>
    pass attempt list \<Rightarrow> world \<Rightarrow> getSubscriptionMessagesResults option" where
  "results_left parse p old [] w = old"
| "results_left parse p old ((ps, drv, others) # tries) w =
     results_left parse p (if drvBegin drv = None then pass_results parse p old ps (wDb (others w)) else old) tries (others w)"

lemma DoTx_not_applied:
  assumes "DoTx drv inner w = (Inl e, w')" and "\<not> drvCommitApplied drv"
  shows "w' = w"
  using DoTx_atomic_world[OF assms(1)] assms(2) by auto

lemma runTx_deadlocked:
  "passes_deadlocked parse p fails w \<Longrightarrow>
   runTx (\<lambda>_ ps. get_pass parse ps p) (pass_results parse p) old (fails @ tries) w =
   runTx (\<lambda>_ ps. get_pass parse ps p) (pass_results parse p) (results_left parse p old fails w) tries
     (fold (\<lambda>a. snd (snd a)) fails w)"
proof (induction fails arbitrary: old w)
  case (Cons a fails)
  obtain ps drv others where a: "a = (ps, drv, others)" by (rule prod_cases3)
  from Cons.prems a obtain e v where d: "DoTx drv (get_pass parse ps p) (others w) = (Inl e, v)"
    and e: "retry_deadlocks e" "\<not> is_panic e" "\<not> drvCommitApplied drv" and rest: "passes_deadlocked parse p fails (others w)"
    by (cases "DoTx drv (get_pass parse ps p) (others w)") (auto split: sum.split_asm)
  have "v = others w" using d e(3) by (rule DoTx_not_applied)
  then show ?case using Cons.IH[OF rest] a d e(1,2) by (simp add: Let_def)
qed simp

text \<open>
  Property C23. A read survives deadlocks: attempts that end in one leave no trace in the database,
  and the call goes on with the first attempt that gets through, on the database as the others have
  left it by then. If that attempt finds something due, it is handed out and recorded, and nothing
  else. But if it finds nothing, and an attempt before it had got as far as its commit, the call
  returns what that attempt had picked, although its claim was undone: those deliveries are handed
  out with no attempt recorded, whatever became of them. Otherwise the call waits, and the end of
  the request or the elapsed maximal wait ends it.
\<close>

theorem get_loop_deadlocks:
  assumes "renew_awaiter i old w = (c, w1)" and "passes_deadlocked parse p fails w1"
    and "rdTries rd = fails @ (ps, drv, others) # spare" and "drvBegin drv = None" and "drvCommit drv = None"
    and "u = others (fold (\<lambda>a. snd (snd a)) fails w1)"
    and "get_pass parse ps p (wDb u) = Inr ((s, pr), ns, db')"
  shows "case pr of
      Got r \<Rightarrow> get_loop parse p i old (rd # rds) w =
        Some (Inr r, drop_awaiter i c (u\<lparr>wDb := db', wNotify := fold run_notice (rev ns) (wNotify u)\<rparr>))
    | Next t \<Rightarrow> db' = wDb u \<and>
        (case results_left parse p None fails w1 of
           Some r \<Rightarrow> get_loop parse p i old (rd # rds) w = Some (Inr r, drop_awaiter i c u)
         | None \<Rightarrow> get_loop parse p i old (rd # rds) w =
             (case rdWakeup rd of
                CtxDone e \<Rightarrow> Some (Inl e, drop_awaiter i c u)
              | FindTimeout \<Rightarrow> map_option (\<lambda>(_, res, v). (res, drop_awaiter i c v))
                  (runTx (\<lambda>_. get_close parse (rdNewID rd) p s) (\<lambda>_ _ _. ()) () (rdFinal rd) u)
              | NextAttemptDue \<Rightarrow> if t = None then None else get_loop parse p i (Some c) rds u
              | PubAwaiterClosed \<Rightarrow> get_loop parse p i (Some c) rds u))"
proof -
  let ?left = "results_left parse p None fails w1"
  let ?v = "u\<lparr>wDb := db', wNotify := fold run_notice (rev ns) (wNotify u)\<rparr>"
  have tx: "DoTx drv (get_pass parse ps p) u = (Inr (s, pr), ?v)"
    using assms(4,5,7) by (rule DoTx_ok)
  have run: "runTx (\<lambda>_ ps. get_pass parse ps p) (pass_results parse p) None (rdTries rd) w1 =
      Some (pass_results parse p ?left ps (wDb u), Inr (s, pr), ?v)"
    using tx assms(3,4,6) runTx_deadlocked[OF assms(2), of None] by (simp add: Let_def)
  show ?thesis
  proof (cases pr)
    case (Got r)
    then show ?thesis using run assms(1,7) by (simp add: pass_results_def)
  next
    case (Next t)
    have same: "ns = []" "db' = wDb u"
      using assms(7) Next by (auto simp: get_pass_def Let_def elim!: bind_res_InrE split: if_split_asm)
    have left: "pass_results parse p ?left ps (wDb u) = ?left" using assms(7) Next by (simp add: pass_results_def)
    show ?thesis
      using run[unfolded left] assms(1) Next same
      by (auto split: option.split wakeup.split)
  qed
qed

text \<open>
  Two attempts on one delivery: the commit of the first ends in a deadlock, another reader completes
  the delivery, and the second attempt finds nothing. The call hands out the completed delivery.
\<close>

definition retry_world :: world where
  "retry_world = \<lparr>wDb = empty_db\<lparr>topics := [sample_topic], subscriptions := [sample_sub\<lparr>sDeadLetterTopicID := None\<rparr>],
     messages := [sample_msg1], deliveries := [sample_del1]\<rparr>, wNotify = init_notify\<rparr>"

definition complete_all :: "world \<Rightarrow> world" where
  "complete_all w = w\<lparr>wDb := (wDb w)\<lparr>deliveries := map (set_completed 49) (deliveries (wDb w))\<rparr>\<rparr>"

definition deadlock_driver :: driver where
  "deadlock_driver = \<lparr>drvBegin = None, drvCommit = Some (PgError DeadlockDetected), drvCommitApplied = False, drvRollback = None\<rparr>"

definition retry_round :: round where
  "retry_round = \<lparr>rdTries = [(sample_pass, deadlock_driver, id), (sample_pass, good_driver, complete_all)],
     rdWakeup = FindTimeout, rdNewID = (\<lambda>k. 33 + of_nat k), rdFinal = []\<rparr>"

theorem get_loop_deadlocks_witness:
  "\<exists>r w'. get_loop (\<lambda>_. None) sample_get 11 None [retry_round] retry_world = Some (Inr r, w') \<and>
     map smdID (grDeliveries r) = [31] \<and> (\<forall>d\<in>set (deliveries (wDb w')). dCompletedAt d = Some 49)"
proof -
  obtain c w1 where c: "renew_awaiter 11 None retry_world = (c, w1)" by (meson surj_pair)
  then have w1: "wDb w1 = wDb retry_world" by (auto simp: renew_awaiter_def Let_def split: prod.split_asm)
  let ?s = "sample_sub\<lparr>sDeadLetterTopicID := None\<rparr>"
  note eval = get_pass_def verifySub_def subMatch_def queryAndLockDeliveriesOnce_def buildDeliveryQuery_def sample_get_def
    predecessor_done_def applyResults_def refresh_expiry_def update_subscriptions_def Let_def sub_refs_def
    topic_ids_def retry_world_def sample_sub_def sample_topic_def empty_db_def sample_pass_def
    sample_del1_def sample_msg1_def HasFullDeadLetterConfig_def update_one_delivery_def update_deliveries_def
  have "\<exists>db. get_pass (\<lambda>_. None) sample_pass sample_get (wDb retry_world) =
      Inr ((?s, Got \<lparr>grDeliveries = [hand_out ?s 50 sample_del1 sample_msg1], grNumDeadLettered = 0\<rparr>), [], db)"
    by (simp add: eval)
  then obtain db where first: "get_pass (\<lambda>_. None) sample_pass sample_get (wDb retry_world) =
      Inr ((?s, Got \<lparr>grDeliveries = [hand_out ?s 50 sample_del1 sample_msg1], grNumDeadLettered = 0\<rparr>), [], db)" by blast
  have second: "get_pass (\<lambda>_. None) sample_pass sample_get (wDb (complete_all w1)) =
      Inr ((?s, Next None), [], wDb (complete_all w1))"
    by (simp add: eval complete_all_def w1 nextAttempt_def set_completed_def)
  have dead: "passes_deadlocked (\<lambda>_. None) sample_get [(sample_pass, deadlock_driver, id)] w1"
    using first w1 by (simp add: DoTx_def deadlock_driver_def Let_def retry_deadlocks_def RetryOnErrorCode_def)
  have left: "results_left (\<lambda>_. None) sample_get None [(sample_pass, deadlock_driver, id)] w1 =
      Some \<lparr>grDeliveries = [hand_out ?s 50 sample_del1 sample_msg1], grNumDeadLettered = 0\<rparr>"
    using first w1 by (simp add: deadlock_driver_def pass_results_def)
  have "get_loop (\<lambda>_. None) sample_get 11 None [retry_round] retry_world =
      Some (Inr \<lparr>grDeliveries = [hand_out ?s 50 sample_del1 sample_msg1], grNumDeadLettered = 0\<rparr>,
        drop_awaiter 11 c (complete_all w1))"
    using get_loop_deadlocks[OF c dead, of retry_round sample_pass good_driver complete_all "[]" "complete_all w1" ?s "Next None" "[]"
        "wDb (complete_all w1)" "[]"] second left
    by (simp add: retry_round_def good_driver_def)
  moreover have "map smdID [hand_out ?s 50 sample_del1 sample_msg1] = [31]" by (simp add: sample_del1_def)
  moreover have "\<forall>d\<in>set (deliveries (wDb (drop_awaiter 11 c (complete_all w1)))). dCompletedAt d = Some 49"
    by (simp add: drop_awaiter_def complete_all_def set_completed_def)
  ultimately show ?thesis by simp
qed

end
