(* ===== verification/Seek.thy ===== *)
theory Seek
  imports DeadLetter
begin

text \<open>
  Moving a subscription's position: \<open>actions/seek-subscription-to-time.go\<close>,
  \<open>actions/seek-subscription-to-snapshot.go\<close> and \<open>actions/create-snapshot.go\<close>. The zero value
  of a \<open>time.Time\<close> parameter is \<open>None\<close>. The actions also write the identifiers they resolved
  back into their parameters, for logging; that is not modelled.
\<close>

record seekSubscriptionResults =
  skNumAcked :: nat
  skNumDeAcked :: nat

definition matches :: "uuid option \<Rightarrow> string \<Rightarrow> uuid \<Rightarrow> string \<Rightarrow> bool" where
  "matches wantID wantName i n \<longleftrightarrow>
     (case wantID of None \<Rightarrow> True | Some j \<Rightarrow> i = j) \<and> (wantName = [] \<or> n = wantName)"

definition not_found :: "'a res \<Rightarrow> 'a res" where
  "not_found r = (case r of Inl e \<Rightarrow> Inl (if e = EntNotFound then ErrNotFound else e) | Inr x \<Rightarrow> Inr x)"

definition find_sub :: "uuid option \<Rightarrow> string \<Rightarrow> database \<Rightarrow> subscription res" where
  "find_sub i n db = not_found (only
     (filter (\<lambda>s. sDeletedAt s = None \<and> matches i n (sID s) (sName s)) (subscriptions db)))"

definition find_snapshot :: "uuid option \<Rightarrow> string \<Rightarrow> database \<Rightarrow> snapshot res" where
  "find_snapshot i n db = not_found (only (filter (\<lambda>s. matches i n (nID s) (nName s)) (snapshots db)))"

definition reopen :: "time \<Rightarrow> duration \<Rightarrow> delivery \<Rightarrow> delivery" where
  "reopen now ttl d = d\<lparr>dCompletedAt := None, dExpiresAt := now + ttl, dAttemptAt := now\<rparr>"

definition seek_notices :: "subscription \<Rightarrow> nat \<Rightarrow> nat \<Rightarrow> notice list" where
  "seek_notices s acked deacked = (if acked \<noteq> 0 \<or> deacked \<noteq> 0 then [NotifyPublish [sID s]] else [])"

subsection \<open>SeekSubscriptionToTime\<close>

definition NewSeekSubscriptionToTime :: "uuid option \<Rightarrow> string \<Rightarrow> time option \<Rightarrow> (uuid option \<times> string \<times> time) res" where
  "NewSeekSubscriptionToTime i n t =
     (if n = [] \<and> i = None then Inl (Panic ''must provide Name or ID'')
      else case t of
        None \<Rightarrow> Inl (Panic ''target time must be specified as a non-zero value'')
      | Some t' \<Rightarrow> Inr (i, n, t'))"

definition SeekSubscriptionToTime_Execute ::
    "time \<Rightarrow> uuid option \<Rightarrow> string \<Rightarrow> time \<Rightarrow> seekSubscriptionResults exec" where
  "SeekSubscriptionToTime_Execute now i n t db =
     bind_res (find_sub i n db) (\<lambda>s.
     let ack = (\<lambda>d. dSubscriptionID d = sID s \<and> dExpiresAt d \<ge> now \<and> dPublishedAt d \<le> t \<and>
           dCompletedAt d = None);
         numAcked = count_where ack (deliveries db);
         db1 = update_deliveries ack (set_completed now) db;
         deack = (\<lambda>d. dSubscriptionID d = sID s \<and> dExpiresAt d \<ge> now \<and> dPublishedAt d > t \<and>
           dCompletedAt d \<noteq> None);
         numDeAcked = count_where deack (deliveries db1);
         db2 = update_deliveries deack (reopen now (sMessageTTL s)) db1
     in Inr (\<lparr>skNumAcked = numAcked, skNumDeAcked = numDeAcked\<rparr>, seek_notices s numAcked numDeAcked, db2))"

subsection \<open>SeekSubscriptionToSnapshot\<close>

definition NewSeekSubscriptionToSnapshot ::
    "uuid option \<Rightarrow> string \<Rightarrow> uuid option \<Rightarrow> string \<Rightarrow> (uuid option \<times> string \<times> uuid option \<times> string) res" where
  "NewSeekSubscriptionToSnapshot i n si sn =
     (if n = [] \<and> i = None then Inl (Panic ''must provide subscription name or id'')
      else if sn = [] \<and> si = None then Inl (Panic ''must provide snapshot name or id'')
      else Inr (i, n, si, sn))"

definition SeekSubscriptionToSnapshot_Execute ::
    "time \<Rightarrow> uuid option \<Rightarrow> string \<Rightarrow> uuid option \<Rightarrow> string \<Rightarrow> seekSubscriptionResults exec" where
  "SeekSubscriptionToSnapshot_Execute now i n si sn db =
     bind_res (find_sub i n db) (\<lambda>s.
     bind_res (find_snapshot si sn db) (\<lambda>snap.
     let ack1 = (\<lambda>d. dSubscriptionID d = sID s \<and> dExpiresAt d \<ge> now \<and>
           dPublishedAt d < nAckedMessagesBefore snap \<and> dCompletedAt d = None);
         n1 = count_where ack1 (deliveries db);
         db1 = update_deliveries ack1 (set_completed now) db;
         ack2 = (\<lambda>d. dSubscriptionID d = sID s \<and> dExpiresAt d \<ge> now \<and>
           dMessageID d \<in> set (nAckedMessageIDs snap) \<and> dCompletedAt d = None);
         (n2, db2) = (if nAckedMessageIDs snap \<noteq> []
           then (count_where ack2 (deliveries db1), update_deliveries ack2 (set_completed now) db1)
           else (0, db1));
         deack = (\<lambda>d. dSubscriptionID d = sID s \<and> dPublishedAt d \<ge> nAckedMessagesBefore snap \<and>
           dMessageID d \<notin> set (nAckedMessageIDs snap) \<and> dCompletedAt d \<noteq> None);
         numDeAcked = count_where deack (deliveries db2);
         db3 = update_deliveries deack (reopen now (sMessageTTL s)) db2
     in Inr (\<lparr>skNumAcked = n1 + n2, skNumDeAcked = numDeAcked\<rparr>, seek_notices s (n1 + n2) numDeAcked, db3)))"

subsection \<open>CreateSnapshot\<close>

record createSnapshotParams =
  snSubscriptionName :: string
  snName :: string
  snLabels :: attrs

record createSnapshotResults =
  snrTopicID :: uuid
  snrTopicName :: string
  snrSubscriptionID :: uuid
  snrSnapshotID :: uuid
  snrSnapshot :: snapshot

definition NewCreateSnapshot :: "createSnapshotParams \<Rightarrow> createSnapshotParams res" where
  "NewCreateSnapshot p =
     (if snSubscriptionName p = [] then Inl (Panic ''missing subscription name'')
      else if snName p = [] then Inl (Panic ''missing snapshot name'')
      else Inr p)"

definition defaultSnapshotTTL :: duration where
  "defaultSnapshotTTL = 7 * 24 * hour"

definition oldestUnAcked :: "time \<Rightarrow> subscription \<Rightarrow> database \<Rightarrow> delivery option" where
  "oldestUnAcked now s db =
     first_row (sort_key dPublishedAt (filter (\<lambda>d. dSubscriptionID d = sID s \<and>
       dCompletedAt d = None \<and> dExpiresAt d > now) (deliveries db)))"

text \<open>
  The left join pairs each message with its deliveries, or with nulls when it has none; the
  condition on the joined subscription is false for nulls, so only the pairs remain.
\<close>

definition ackedIDs :: "time \<Rightarrow> subscription \<Rightarrow> database \<Rightarrow> uuid list" where
  "ackedIDs since s db =
     concat (map (\<lambda>m. map (\<lambda>_. mID m)
         (filter (\<lambda>d. dMessageID d = mID m \<and> dSubscriptionID d = sID s \<and> dCompletedAt d \<noteq> None)
           (deliveries db)))
       (filter (\<lambda>m. mTopicID m = sTopicID s \<and> mPublishedAt m \<ge> since) (messages db)))"

definition snapshot_state :: "time \<Rightarrow> subscription \<Rightarrow> database \<Rightarrow> time \<times> uuid list" where
  "snapshot_state now s db =
     (case oldestUnAcked now s db of
        None \<Rightarrow> (now, [])
      | Some d \<Rightarrow> (dPublishedAt d, ackedIDs (dPublishedAt d) s db))"

definition CreateSnapshot_Execute :: "uuid \<Rightarrow> time \<Rightarrow> createSnapshotParams \<Rightarrow> createSnapshotResults exec" where
  "CreateSnapshot_Execute i now p db =
     (if filter (\<lambda>s. nName s = snName p) (snapshots db) \<noteq> [] then Inl ErrExists
      else
        bind_res (not_found (only (live_subs (snSubscriptionName p) db))) (\<lambda>s.
        let (before, ids) = snapshot_state now s db;
            snap = \<lparr>nID = i, nTopicID = sTopicID s, nName = snName p, nCreatedAt = now,
              nExpiresAt = now + defaultSnapshotTTL, nLabels = snLabels p,
              nAckedMessagesBefore = before, nAckedMessageIDs = ids\<rparr>
        in bind_res (insert_snapshot snap db) (\<lambda>db'.
           case first_row (filter (\<lambda>t. tID t = sTopicID s) (topics db)) of
             None \<Rightarrow> Inl nil_deref
           | Some t \<Rightarrow>
               Inr (\<lparr>snrTopicID = sTopicID s, snrTopicName = tName t, snrSubscriptionID = sID s,
                 snrSnapshotID = i, snrSnapshot = snap\<rparr>, [], db'))))"

subsection \<open>Preservation of the invariant\<close>

lemma keeps_reopen [simp]: "keeps_delivery_refs (reopen now ttl)"
  by (simp add: keeps_delivery_refs_def reopen_def)

lemma wf_SeekSubscriptionToTime [wf_intros]:
  assumes "wf_db db" and "SeekSubscriptionToTime_Execute now i n t db = Inr (r, ns, db')"
  shows "wf_db db'"
  using assms unfolding SeekSubscriptionToTime_Execute_def Let_def
  by (auto elim!: bind_res_InrE intro!: wf_update_deliveries)

lemma wf_SeekSubscriptionToSnapshot [wf_intros]:
  assumes "wf_db db" and "SeekSubscriptionToSnapshot_Execute now i n si sn db = Inr (r, ns, db')"
  shows "wf_db db'"
  using assms unfolding SeekSubscriptionToSnapshot_Execute_def Let_def
  by (auto elim!: bind_res_InrE intro!: wf_update_deliveries split: prod.split_asm if_split_asm)

lemma wf_CreateSnapshot [wf_intros]:
  assumes "wf_db db" and "CreateSnapshot_Execute i now p db = Inr (r, ns, db')"
  shows "wf_db db'"
  using assms unfolding CreateSnapshot_Execute_def Let_def
  by (auto elim!: bind_res_InrE split: if_split_asm prod.split_asm option.split_asm)
    (rule wf_insert_snapshot)

interpretation seek_to_time:
  db_action "\<lambda>(now, i, n, t). SeekSubscriptionToTime_Execute now i n t" "\<lambda>_. True"
  by unfold_locales (auto intro: wf_intros)

interpretation seek_to_snapshot:
  db_action "\<lambda>(now, i, n, si, sn). SeekSubscriptionToSnapshot_Execute now i n si sn" "\<lambda>_. True"
  by unfold_locales (auto intro: wf_intros)

interpretation create_snapshot: db_action "\<lambda>(i, now, p). CreateSnapshot_Execute i now p" "\<lambda>_. True"
  by unfold_locales (auto intro: wf_intros)

subsection \<open>Seeking to a time\<close>

definition seek_time_effect :: "time \<Rightarrow> time \<Rightarrow> subscription \<Rightarrow> delivery \<Rightarrow> delivery" where
  "seek_time_effect now t s d =
     (if dSubscriptionID d = sID s \<and> dExpiresAt d \<ge> now then
        if dPublishedAt d \<le> t then (if dCompletedAt d = None then d\<lparr>dCompletedAt := Some now\<rparr> else d)
        else (if dCompletedAt d \<noteq> None
          then d\<lparr>dCompletedAt := None, dExpiresAt := now + sMessageTTL s, dAttemptAt := now\<rparr> else d)
      else d)"

lemma map_cong_id: "(\<And>x. x \<in> set xs \<Longrightarrow> f x = x) \<Longrightarrow> map f xs = xs"
  by (simp add: map_idI)

lemma SeekSubscriptionToTime_eq:
  assumes "find_sub i n db = Inr s"
  shows "\<exists>r ns. SeekSubscriptionToTime_Execute now i n t db =
      Inr (r, ns, db\<lparr>deliveries := map (seek_time_effect now t s) (deliveries db)\<rparr>) \<and>
    skNumAcked r = count_where (\<lambda>d. dSubscriptionID d = sID s \<and> dExpiresAt d \<ge> now \<and> dPublishedAt d \<le> t \<and>
      dCompletedAt d = None) (deliveries db) \<and>
    skNumDeAcked r = count_where (\<lambda>d. dSubscriptionID d = sID s \<and> dExpiresAt d \<ge> now \<and> dPublishedAt d > t \<and>
      dCompletedAt d \<noteq> None) (deliveries db) \<and>
    ns = (if skNumAcked r = 0 \<and> skNumDeAcked r = 0 then [] else [NotifyPublish [sID s]])"
proof -
  let ?ack = "\<lambda>d. dSubscriptionID d = sID s \<and> dExpiresAt d \<ge> now \<and> dPublishedAt d \<le> t \<and> dCompletedAt d = None"
  let ?deack = "\<lambda>d. dSubscriptionID d = sID s \<and> dExpiresAt d \<ge> now \<and> dPublishedAt d > t \<and> dCompletedAt d \<noteq> None"
  have rows: "update_where ?deack (reopen now (sMessageTTL s)) (update_where ?ack (set_completed now) ds) =
      map (seek_time_effect now t s) ds" for ds
    by (induction ds) (auto simp: seek_time_effect_def set_completed_def reopen_def)
  have count: "count_where ?deack (update_where ?ack (set_completed now) ds) = count_where ?deack ds" for ds
    by (induction ds) (auto simp: set_completed_def)
  show ?thesis
    using assms rows count
    by (auto simp: SeekSubscriptionToTime_Execute_def Let_def update_deliveries_def seek_notices_def)
qed

text \<open>
  Property C32. Seeking a live subscription to a time: afterwards a delivery of it that was not
  expired is completed if and only if its message was published at or before that time; a
  delivery that is reopened is due at once and lives for another message TTL; every other
  delivery is as before. Seeking again to the same time, then or later, changes nothing.
\<close>

theorem SeekSubscriptionToTime_correct:
  assumes "find_sub i n db = Inr s" and "now \<le> later"
  shows "\<exists>r ns f. SeekSubscriptionToTime_Execute now i n t db =
      Inr (r, ns, db\<lparr>deliveries := map f (deliveries db)\<rparr>) \<and>
    (\<forall>d\<in>set (deliveries db).
       (if dSubscriptionID d = sID s \<and> dExpiresAt d \<ge> now
        then (dCompletedAt (f d) \<noteq> None \<longleftrightarrow> dPublishedAt d \<le> t) \<and>
          (dCompletedAt d \<noteq> None \<and> dPublishedAt d > t \<longrightarrow>
             dAttemptAt (f d) = now \<and> dExpiresAt (f d) = now + sMessageTTL s)
        else f d = d) \<and>
       dID (f d) = dID d \<and> dMessageID (f d) = dMessageID d \<and> dSubscriptionID (f d) = dSubscriptionID d) \<and>
    SeekSubscriptionToTime_Execute later i n t (db\<lparr>deliveries := map f (deliveries db)\<rparr>) =
      Inr (\<lparr>skNumAcked = 0, skNumDeAcked = 0\<rparr>, [], db\<lparr>deliveries := map f (deliveries db)\<rparr>)"
proof -
  let ?f = "seek_time_effect now t s"
  let ?db' = "db\<lparr>deliveries := map ?f (deliveries db)\<rparr>"
  have "find_sub i n ?db' = Inr s" using assms(1) by (simp add: find_sub_def)
  then obtain r ns where again: "SeekSubscriptionToTime_Execute later i n t ?db' =
      Inr (r, ns, ?db'\<lparr>deliveries := map (seek_time_effect later t s) (deliveries ?db')\<rparr>)"
    and counts: "skNumAcked r = count_where (\<lambda>d. dSubscriptionID d = sID s \<and> dExpiresAt d \<ge> later \<and>
        dPublishedAt d \<le> t \<and> dCompletedAt d = None) (map ?f (deliveries db))"
      "skNumDeAcked r = count_where (\<lambda>d. dSubscriptionID d = sID s \<and> dExpiresAt d \<ge> later \<and>
        dPublishedAt d > t \<and> dCompletedAt d \<noteq> None) (map ?f (deliveries db))"
    and ns: "ns = (if skNumAcked r = 0 \<and> skNumDeAcked r = 0 then [] else [NotifyPublish [sID s]])"
    using SeekSubscriptionToTime_eq[of i n ?db' s later t] by auto
  have "seek_time_effect later t s (?f d) = ?f d" for d
    using assms(2) by (auto simp: seek_time_effect_def)
  then have same: "map (seek_time_effect later t s) (deliveries ?db') = deliveries ?db'" by simp
  have "skNumAcked r = 0" "skNumDeAcked r = 0"
    unfolding counts count_where_0_iff using assms(2) by (auto simp: seek_time_effect_def split: if_splits)
  then have "r = \<lparr>skNumAcked = 0, skNumDeAcked = 0\<rparr>" by (cases r) simp
  with again same ns have "SeekSubscriptionToTime_Execute later i n t ?db' =
      Inr (\<lparr>skNumAcked = 0, skNumDeAcked = 0\<rparr>, [], ?db')" by simp
  moreover have "\<forall>d\<in>set (deliveries db).
       (if dSubscriptionID d = sID s \<and> dExpiresAt d \<ge> now
        then (dCompletedAt (?f d) \<noteq> None \<longleftrightarrow> dPublishedAt d \<le> t) \<and>
          (dCompletedAt d \<noteq> None \<and> dPublishedAt d > t \<longrightarrow>
             dAttemptAt (?f d) = now \<and> dExpiresAt (?f d) = now + sMessageTTL s)
        else ?f d = d) \<and>
       dID (?f d) = dID d \<and> dMessageID (?f d) = dMessageID d \<and> dSubscriptionID (?f d) = dSubscriptionID d"
    by (auto simp: seek_time_effect_def)
  ultimately show ?thesis
    using SeekSubscriptionToTime_eq[OF assms(1), of now t] by blast
qed

theorem SeekSubscriptionToTime_correct_witness:
  "\<exists>r ns db'. SeekSubscriptionToTime_Execute 50 None ''s'' 15 sample_db = Inr (r, ns, db') \<and>
     map (\<lambda>d. dCompletedAt d \<noteq> None) (deliveries db') = [True, False]"
proof -
  have "find_sub None ''s'' sample_db = Inr sample_sub"
    by (simp add: find_sub_def matches_def sample_defs not_found_def)
  from SeekSubscriptionToTime_correct[OF this, of 50 60 15] obtain r ns f where
    "SeekSubscriptionToTime_Execute 50 None ''s'' 15 sample_db =
      Inr (r, ns, sample_db\<lparr>deliveries := map f (deliveries sample_db)\<rparr>)"
    and "dCompletedAt (f sample_del1) \<noteq> None" and "dCompletedAt (f sample_del2) = None"
    by (auto simp: sample_db_def) (auto simp: sample_defs)
  then show ?thesis by (auto simp: sample_db_def)
qed

subsection \<open>Snapshots\<close>

definition snap_acked :: "snapshot \<Rightarrow> delivery \<Rightarrow> bool" where
  "snap_acked snap d \<longleftrightarrow> dPublishedAt d < nAckedMessagesBefore snap \<or> dMessageID d \<in> set (nAckedMessageIDs snap)"

definition seek_snapshot_effect :: "time \<Rightarrow> subscription \<Rightarrow> snapshot \<Rightarrow> delivery \<Rightarrow> delivery" where
  "seek_snapshot_effect now s snap d =
     (if dSubscriptionID d \<noteq> sID s then d
      else if snap_acked snap d then
        (if dExpiresAt d \<ge> now \<and> dCompletedAt d = None then set_completed now d else d)
      else (if dCompletedAt d \<noteq> None then reopen now (sMessageTTL s) d else d))"

lemma SeekSubscriptionToSnapshot_eq:
  assumes "find_sub i n db = Inr s" and "find_snapshot si sn db = Inr snap"
  shows "\<exists>r ns. SeekSubscriptionToSnapshot_Execute now i n si sn db =
      Inr (r, ns, db\<lparr>deliveries := map (seek_snapshot_effect now s snap) (deliveries db)\<rparr>)"
proof -
  let ?ack1 = "\<lambda>d. dSubscriptionID d = sID s \<and> dExpiresAt d \<ge> now \<and> dPublishedAt d < nAckedMessagesBefore snap \<and>
    dCompletedAt d = None"
  let ?ack2 = "\<lambda>d. dSubscriptionID d = sID s \<and> dExpiresAt d \<ge> now \<and> dMessageID d \<in> set (nAckedMessageIDs snap) \<and>
    dCompletedAt d = None"
  let ?deack = "\<lambda>d. dSubscriptionID d = sID s \<and> dPublishedAt d \<ge> nAckedMessagesBefore snap \<and>
    dMessageID d \<notin> set (nAckedMessageIDs snap) \<and> dCompletedAt d \<noteq> None"
  have rows: "update_where ?deack (reopen now (sMessageTTL s)) (update_where ?ack2 (set_completed now)
      (update_where ?ack1 (set_completed now) ds)) = map (seek_snapshot_effect now s snap) ds" for ds
    by (induction ds) (auto simp: seek_snapshot_effect_def snap_acked_def set_completed_def reopen_def)
  have none: "update_where ?ack2 (set_completed now) ds = ds" if "nAckedMessageIDs snap = []" for ds
    using that by (intro update_where_none) auto
  show ?thesis
  proof (cases "nAckedMessageIDs snap = []")
    case True
    then show ?thesis
      using assms rows[of "deliveries db"] none[OF True]
      by (auto simp: SeekSubscriptionToSnapshot_Execute_def Let_def update_deliveries_def)
  next
    case False
    then show ?thesis
      using assms rows[of "deliveries db"]
      by (auto simp: SeekSubscriptionToSnapshot_Execute_def Let_def update_deliveries_def)
  qed
qed

text \<open>
  A subscription is regular when its deliveries are the ones publishing made: of messages of its
  own topic, stamped with the message's publish time, and one per message. (Dead-lettered
  messages reach a subscription from another topic and with another stamp.)
\<close>

definition regular :: "subscription \<Rightarrow> time \<Rightarrow> database \<Rightarrow> bool" where
  "regular s now db \<longleftrightarrow>
     (\<forall>d\<in>set (deliveries db). dSubscriptionID d = sID s \<longrightarrow> dPublishedAt d < now \<and>
        (\<exists>m\<in>set (messages db). mID m = dMessageID d \<and> mTopicID m = sTopicID s \<and> mPublishedAt m = dPublishedAt d) \<and>
        (\<forall>e\<in>set (deliveries db). dSubscriptionID e = sID s \<and> dMessageID e = dMessageID d \<longrightarrow> e = d))"

lemma oldestUnAcked_least:
  assumes "oldestUnAcked now s db = Some o'" and "d \<in> set (deliveries db)" and "dSubscriptionID d = sID s"
    and "dCompletedAt d = None" and "dExpiresAt d > now"
  shows "dPublishedAt o' \<le> dPublishedAt d"
proof -
  let ?ds = "filter (\<lambda>d. dSubscriptionID d = sID s \<and> dCompletedAt d = None \<and> dExpiresAt d > now) (deliveries db)"
  obtain rest where r: "sort_key dPublishedAt ?ds = o' # rest"
    using assms(1) by (cases "sort_key dPublishedAt ?ds") (simp_all add: oldestUnAcked_def)
  have "d \<in> set (sort_key dPublishedAt ?ds)" using assms by simp
  moreover have "sorted (map dPublishedAt (sort_key dPublishedAt ?ds))" by (rule sorted_sort_key)
  ultimately show ?thesis unfolding r by auto
qed

lemma oldestUnAcked_None:
  assumes "oldestUnAcked now s db = None" and "d \<in> set (deliveries db)" and "dSubscriptionID d = sID s"
    and "dExpiresAt d > now"
  shows "dCompletedAt d \<noteq> None"
proof -
  have "filter (\<lambda>d. dSubscriptionID d = sID s \<and> dCompletedAt d = None \<and> dExpiresAt d > now) (deliveries db) = []"
    using assms(1) by (simp add: oldestUnAcked_def)
  then have "\<not> (dSubscriptionID d = sID s \<and> dCompletedAt d = None \<and> dExpiresAt d > now)"
    using assms(2) unfolding filter_empty_conv by (rule bspec)
  with assms(3,4) show ?thesis by simp
qed

text \<open>What a snapshot of a regular subscription says of an unexpired delivery is its state.\<close>

lemma snapshot_state_acked:
  assumes "regular s now db" and "d \<in> set (deliveries db)" and "dSubscriptionID d = sID s" and "dExpiresAt d > now"
    and "nAckedMessagesBefore snap = fst (snapshot_state now s db)"
    and "nAckedMessageIDs snap = snd (snapshot_state now s db)"
  shows "snap_acked snap d \<longleftrightarrow> dCompletedAt d \<noteq> None"
proof (cases "oldestUnAcked now s db")
  case None
  then show ?thesis
    using assms oldestUnAcked_None[OF None assms(2-4)]
    by (auto simp: snap_acked_def snapshot_state_def regular_def)
next
  case (Some o')
  obtain m where m: "m \<in> set (messages db)" "mID m = dMessageID d" "mTopicID m = sTopicID s"
    "mPublishedAt m = dPublishedAt d" using assms(1-3) by (auto simp: regular_def)
  have uniq: "e = d" if "e \<in> set (deliveries db)" "dSubscriptionID e = sID s" "dMessageID e = dMessageID d" for e
    using assms(1-3) that unfolding regular_def by blast
  have ids: "nAckedMessageIDs snap = ackedIDs (dPublishedAt o') s db" and bef: "nAckedMessagesBefore snap = dPublishedAt o'"
    using assms(5,6) Some by (simp_all add: snapshot_state_def)
  show ?thesis
  proof (cases "dCompletedAt d = None")
    case True
    then have "dPublishedAt o' \<le> dPublishedAt d" using oldestUnAcked_least[OF Some assms(2,3)] assms(4) by simp
    moreover have "dMessageID d \<notin> set (ackedIDs (dPublishedAt o') s db)"
      using True uniq by (auto simp: ackedIDs_def)
    ultimately show ?thesis using True by (simp add: snap_acked_def ids bef)
  next
    case False
    have "dMessageID d \<in> set (ackedIDs (dPublishedAt o') s db)" if "dPublishedAt o' \<le> dPublishedAt d"
    proof -
      let ?ms = "filter (\<lambda>m. mTopicID m = sTopicID s \<and> mPublishedAt m \<ge> dPublishedAt o') (messages db)"
      have "m \<in> set ?ms" using m that by simp
      moreover have "mID m \<in> set (map (\<lambda>_. mID m) (filter (\<lambda>d. dMessageID d = mID m \<and>
          dSubscriptionID d = sID s \<and> dCompletedAt d \<noteq> None) (deliveries db)))"
        using assms(2,3) False m(2) by (auto simp: image_iff)
      ultimately show ?thesis unfolding ackedIDs_def m(2)[symmetric] by (auto simp del: set_filter)
    qed
    then show ?thesis using False by (force simp: snap_acked_def ids bef not_less[symmetric])
  qed
qed

lemma CreateSnapshot_ok:
  assumes "CreateSnapshot_Execute i now p db = Inr (r, ns, db1)" and "live_subs (snSubscriptionName p) db = [s]"
  shows "\<exists>snap. db1 = db\<lparr>snapshots := snapshots db @ [snap]\<rparr> \<and> nName snap = snName p \<and> snName p \<noteq> [] \<and>
    nAckedMessagesBefore snap = fst (snapshot_state now s db) \<and>
    nAckedMessageIDs snap = snd (snapshot_state now s db) \<and>
    (\<forall>n\<in>set (snapshots db). nName n \<noteq> snName p)"
proof -
  let ?st = "snapshot_state now s db"
  let ?snap = "\<lparr>nID = i, nTopicID = sTopicID s, nName = snName p, nCreatedAt = now,
    nExpiresAt = now + defaultSnapshotTTL, nLabels = snLabels p,
    nAckedMessagesBefore = fst ?st, nAckedMessageIDs = snd ?st\<rparr>"
  have new: "filter (\<lambda>s. nName s = snName p) (snapshots db) = []" and "insert_snapshot ?snap db = Inr db1"
    using assms
    by (cases "first_row (filter (\<lambda>t. tID t = sTopicID s) (topics db))";
        auto simp: CreateSnapshot_Execute_def not_found_def Let_def case_prod_beta bind_res_Inr_iff
        split: if_splits)+
  then have "db1 = db\<lparr>snapshots := snapshots db @ [?snap]\<rparr>" "snName p \<noteq> []"
    by (auto simp: insert_snapshot_def split: if_splits)
  with new show ?thesis by (intro exI[of _ ?snap]) (auto simp: filter_empty_conv)
qed

lemma seek_snapshot_effect_completed:
  assumes "dSubscriptionID d = sID s" and "dExpiresAt d \<ge> now"
  shows "dCompletedAt (seek_snapshot_effect now s snap d) \<noteq> None \<longleftrightarrow> snap_acked snap d"
  using assms by (auto simp: seek_snapshot_effect_def set_completed_def reopen_def)

text \<open>
  Property C17. A snapshot followed by a seek to it restores the acknowledgements of a
  subscription. Whatever has been acknowledged, delayed, attempted or reopened since (\<open>g\<close>), the
  seek leaves each delivery that has not expired completed if and only if it was completed when
  the snapshot was taken. The subscription is one whose deliveries come from publishing.
\<close>

theorem snapshot_seek_roundtrip:
  assumes "wf_db db" and "s \<in> set (subscriptions db)" and "sDeletedAt s = None" and "sName s = snSubscriptionName p"
    and "regular s now db" and "CreateSnapshot_Execute i now p db = Inr (r, ns, db1)"
    and "\<And>d. dMessageID (g d) = dMessageID d \<and> dSubscriptionID (g d) = dSubscriptionID d \<and>
      dPublishedAt (g d) = dPublishedAt d"
  shows "\<exists>r' ns' h. SeekSubscriptionToSnapshot_Execute later None (sName s) None (snName p)
        (db1\<lparr>deliveries := map g (deliveries db1)\<rparr>) =
      Inr (r', ns', db1\<lparr>deliveries := map h (map g (deliveries db1))\<rparr>) \<and>
    (\<forall>d\<in>set (deliveries db). dSubscriptionID d = sID s \<and> dExpiresAt d > now \<and> dExpiresAt (g d) \<ge> later \<longrightarrow>
       (dCompletedAt (h (g d)) \<noteq> None \<longleftrightarrow> dCompletedAt d \<noteq> None)) \<and>
    (\<forall>d\<in>set (deliveries db). dSubscriptionID d \<noteq> sID s \<longrightarrow> h (g d) = g d)"
proof -
  have ls: "live_subs (sName s) db = [s]" using assms(1-3) by (intro live_subs_singleton) auto
  obtain snap where db1: "db1 = db\<lparr>snapshots := snapshots db @ [snap]\<rparr>"
    and snap: "nName snap = snName p" "snName p \<noteq> []" "nAckedMessagesBefore snap = fst (snapshot_state now s db)"
      "nAckedMessageIDs snap = snd (snapshot_state now s db)" "\<forall>n\<in>set (snapshots db). nName n \<noteq> snName p"
    using CreateSnapshot_ok[OF assms(6)] ls assms(4) by auto
  let ?db2 = "db1\<lparr>deliveries := map g (deliveries db1)\<rparr>"
  let ?h = "seek_snapshot_effect later s snap"
  have "sName s \<noteq> []" using assms(1,2) by (auto simp: wf_db_def subs_wf_def list_all_iff)
  then have "filter (\<lambda>q. sDeletedAt q = None \<and> matches None (sName s) (sID q) (sName q)) (subscriptions ?db2) = [s]"
    using ls by (simp add: db1 live_subs_def matches_def conj_commute)
  then have fs: "find_sub None (sName s) ?db2 = Inr s" by (simp add: find_sub_def not_found_def)
  have "filter (\<lambda>q. matches None (snName p) (nID q) (nName q)) (snapshots ?db2) = [snap]"
    using snap by (simp add: db1 matches_def)
  then have fn: "find_snapshot None (snName p) ?db2 = Inr snap" by (simp add: find_snapshot_def not_found_def)
  have state: "snap_acked snap (g d) \<longleftrightarrow> dCompletedAt d \<noteq> None"
    if "d \<in> set (deliveries db)" "dSubscriptionID d = sID s" "dExpiresAt d > now" for d
    using snapshot_state_acked[OF assms(5) that snap(3,4)] assms(7)[of d] by (simp add: snap_acked_def)
  have "dCompletedAt (?h (g d)) \<noteq> None \<longleftrightarrow> dCompletedAt d \<noteq> None"
    if "d \<in> set (deliveries db)" "dSubscriptionID d = sID s" "dExpiresAt d > now" "dExpiresAt (g d) \<ge> later" for d
    using seek_snapshot_effect_completed[of "g d" s later snap] state[OF that(1-3)] that assms(7)[of d] by simp
  moreover have "?h (g d) = g d" if "dSubscriptionID d \<noteq> sID s" for d
    using that assms(7)[of d] by (simp add: seek_snapshot_effect_def)
  moreover obtain r' ns' where "SeekSubscriptionToSnapshot_Execute later None (sName s) None (snName p) ?db2 =
      Inr (r', ns', db1\<lparr>deliveries := map ?h (map g (deliveries db1))\<rparr>)"
    using SeekSubscriptionToSnapshot_eq[OF fs fn, of later] by auto
  ultimately show ?thesis by (intro exI[of _ r'] exI[of _ ns'] exI[of _ ?h]) simp
qed

definition sample_acked_db :: database where
  "sample_acked_db = sample_db\<lparr>deliveries := [sample_del1, set_completed 25 sample_del2]\<rparr>"

definition sample_snapshot_params :: createSnapshotParams where
  "sample_snapshot_params = \<lparr>snSubscriptionName = ''s'', snName = ''m'', snLabels = Map.empty\<rparr>"

lemma wf_sample_acked_db: "wf_db sample_acked_db"
proof -
  have "wf_db (update_deliveries (\<lambda>d. dID d = 32) (set_completed 25) sample_db)"
    using wf_sample_db by (rule wf_update_deliveries) (simp add: keeps_delivery_refs_def set_completed_def)
  then show ?thesis by (simp add: update_deliveries_def sample_acked_db_def sample_defs)
qed

lemma sample_snapshot_ok:
  "\<exists>r ns db1. CreateSnapshot_Execute 99 50 sample_snapshot_params sample_acked_db = Inr (r, ns, db1) \<and>
     deliveries db1 = deliveries sample_acked_db"
  by (simp add: CreateSnapshot_Execute_def sample_snapshot_params_def sample_acked_db_def sample_defs live_subs_def
      not_found_def snapshot_state_def oldestUnAcked_def ackedIDs_def set_completed_def insert_snapshot_def
      id_defs Let_def)

theorem snapshot_seek_roundtrip_witness:
  "\<exists>r ns db1 r' ns' db2. CreateSnapshot_Execute 99 50 sample_snapshot_params sample_acked_db = Inr (r, ns, db1) \<and>
     SeekSubscriptionToSnapshot_Execute 60 None ''s'' None ''m''
       (db1\<lparr>deliveries := map (set_completed 55) (deliveries db1)\<rparr>) = Inr (r', ns', db2) \<and>
     map (\<lambda>d. dCompletedAt d \<noteq> None) (deliveries db2) = [False, True]"
proof -
  obtain r ns db1 where ok: "CreateSnapshot_Execute 99 50 sample_snapshot_params sample_acked_db = Inr (r, ns, db1)"
    and ds: "deliveries db1 = [sample_del1, set_completed 25 sample_del2]"
    using sample_snapshot_ok by (auto simp: sample_acked_db_def)
  have reg: "regular sample_sub 50 sample_acked_db"
    by (simp add: regular_def sample_acked_db_def sample_defs set_completed_def)
  have sub: "sample_sub \<in> set (subscriptions sample_acked_db)" "sDeletedAt sample_sub = None"
    "sName sample_sub = snSubscriptionName sample_snapshot_params" "sName sample_sub = ''s''"
    "snName sample_snapshot_params = ''m''"
    by (simp_all add: sample_acked_db_def sample_db_def sample_sub_def sample_snapshot_params_def)
  have keep: "dMessageID (set_completed 55 d) = dMessageID d \<and> dSubscriptionID (set_completed 55 d) = dSubscriptionID d \<and>
      dPublishedAt (set_completed 55 d) = dPublishedAt d" for d by (simp add: set_completed_def)
  obtain r' ns' h where "SeekSubscriptionToSnapshot_Execute 60 None ''s'' None ''m''
      (db1\<lparr>deliveries := map (set_completed 55) (deliveries db1)\<rparr>) =
      Inr (r', ns', db1\<lparr>deliveries := map h (map (set_completed 55) (deliveries db1))\<rparr>)"
    and "\<forall>d\<in>set (deliveries sample_acked_db). dSubscriptionID d = sID sample_sub \<and> dExpiresAt d > 50 \<and>
       dExpiresAt (set_completed 55 d) \<ge> 60 \<longrightarrow>
       (dCompletedAt (h (set_completed 55 d)) \<noteq> None \<longleftrightarrow> dCompletedAt d \<noteq> None)"
    using snapshot_seek_roundtrip[OF wf_sample_acked_db sub(1-3) reg ok keep, of 60] sub(4,5) by metis
  with ok ds show ?thesis by (auto simp: sample_acked_db_def sample_defs set_completed_def)
qed

end
