(* ===== verification/Prune.thy ===== *)
theory Prune
  imports Subscriptions Sample
begin

text \<open>
  The pruning actions \<open>actions/prune-*.go\<close> and the background service of
  \<open>services/prune-common.go\<close> that runs them. Each action selects at most \<open>MaxDelete\<close> rows that
  are due and deletes them by identifier; \<open>actions/delete-expired-subscriptions.go\<close>, modelled
  with the subscriptions, is driven by the same service.
\<close>

subsection \<open>The actions\<close>

text \<open>The rows that are due, per action. A null column never satisfies a comparison.\<close>

definition lte :: "time option \<Rightarrow> time \<Rightarrow> bool" where
  "lte x t \<longleftrightarrow> (case x of None \<Rightarrow> False | Some y \<Rightarrow> y \<le> t)"

definition PruneCompletedDeliveries_Execute :: "time \<Rightarrow> pruneCommonParams \<Rightarrow> pruneCommonResults exec" where
  "PruneCompletedDeliveries_Execute now p db =
     (let ids = map dID (limit p (filter (\<lambda>d. lte (dCompletedAt d) (now - pcMinAge p)) (deliveries db)));
          numDeleted = count_where (\<lambda>d. dID d \<in> set ids) (deliveries db)
      in Inr (\<lparr>pcNumDeleted = numDeleted\<rparr>, [], delete_deliveries (\<lambda>d. dID d \<in> set ids) db))"

definition PruneCompletedMessages_Execute :: "time \<Rightarrow> pruneCommonParams \<Rightarrow> pruneCommonResults exec" where
  "PruneCompletedMessages_Execute now p db =
     (let ids = map mID (limit p (filter (\<lambda>m. mPublishedAt m \<le> now - pcMinAge p \<and>
            \<not> list_ex (\<lambda>d. dMessageID d = mID m) (deliveries db)) (messages db)));
          numDeleted = count_where (\<lambda>m. mID m \<in> set ids) (messages db)
      in bind_res (delete_messages (\<lambda>m. mID m \<in> set ids) db) (\<lambda>db'.
           Inr (\<lparr>pcNumDeleted = numDeleted\<rparr>, [], db')))"

definition PruneDeletedSubscriptionDeliveries_Execute ::
    "time \<Rightarrow> pruneCommonParams \<Rightarrow> pruneCommonResults exec" where
  "PruneDeletedSubscriptionDeliveries_Execute now p db =
     (let ids = map dID (limit p (filter (\<lambda>d. list_ex (\<lambda>s. sID s = dSubscriptionID d \<and>
            lte (sDeletedAt s) (now - pcMinAge p)) (subscriptions db)) (deliveries db)));
          numDeleted = count_where (\<lambda>d. dID d \<in> set ids) (deliveries db)
      in Inr (\<lparr>pcNumDeleted = numDeleted\<rparr>, [], delete_deliveries (\<lambda>d. dID d \<in> set ids) db))"

definition PruneDeletedSubscriptions_Execute :: "time \<Rightarrow> pruneCommonParams \<Rightarrow> pruneCommonResults exec" where
  "PruneDeletedSubscriptions_Execute now p db =
     (let subs = limit p (filter (\<lambda>s. lte (sDeletedAt s) (now - pcMinAge p) \<and>
            \<not> list_ex (\<lambda>d. dSubscriptionID d = sID s) (deliveries db)) (subscriptions db));
          ids = map sID subs;
          numDeleted = count_where (\<lambda>s. sID s \<in> set ids) (subscriptions db)
      in bind_res (delete_subscriptions (\<lambda>s. sID s \<in> set ids) db) (\<lambda>db'.
           Inr (\<lparr>pcNumDeleted = numDeleted\<rparr>, [], db')))"

definition PruneDeletedTopics_Execute :: "time \<Rightarrow> pruneCommonParams \<Rightarrow> pruneCommonResults exec" where
  "PruneDeletedTopics_Execute now p db =
     (let tops = limit p (filter (\<lambda>t. lte (tDeletedAt t) (now - pcMinAge p) \<and>
            \<not> list_ex (\<lambda>s. sTopicID s = tID t) (subscriptions db)) (topics db));
          ids = map tID tops;
          numDeleted = count_where (\<lambda>t. tID t \<in> set ids) (topics db)
      in bind_res (delete_topics (\<lambda>t. tID t \<in> set ids) db) (\<lambda>db'.
           Inr (\<lparr>pcNumDeleted = numDeleted\<rparr>, [], db')))"

definition PruneExpiredDeliveries_Execute :: "time \<Rightarrow> pruneCommonParams \<Rightarrow> pruneCommonResults exec" where
  "PruneExpiredDeliveries_Execute now p db =
     (let ids = map dID (limit p (filter (\<lambda>d. dExpiresAt d < now) (deliveries db)));
          orderedSubs = filter (\<lambda>s. sOrderedDelivery s \<and>
            list_ex (\<lambda>d. dSubscriptionID d = sID s \<and> dID d \<in> set ids) (deliveries db)) (subscriptions db);
          numDeleted = count_where (\<lambda>d. dID d \<in> set ids) (deliveries db)
      in Inr (\<lparr>pcNumDeleted = numDeleted\<rparr>,
           if orderedSubs \<noteq> [] then [WakeEach (map sID orderedSubs)] else [],
           delete_deliveries (\<lambda>d. dID d \<in> set ids) db))"

subsection \<open>The registered pruning services\<close>

text \<open>The services of \<open>init\<close>, by the action that each builds.\<close>

datatype prune_service =
    PruneCompletedDeliveries
  | PruneExpiredDeliveries
  | PruneCompletedMessages
  | PruneDeletedSubscriptionDeliveries
  | PruneDeletedSubscriptions
  | PruneDeletedTopics
  | DeleteExpiredSubscriptions

definition prune_services :: "(string \<times> prune_service) list" where
  "prune_services =
     [(''prune-completed-deliveries'', PruneCompletedDeliveries),
      (''prune-expired-deliveries'', PruneExpiredDeliveries),
      (''prune-completed-messages'', PruneCompletedMessages),
      (''prune-deleted-subscription-deliveries'', PruneDeletedSubscriptionDeliveries),
      (''prune-deleted-subscriptions'', PruneDeletedSubscriptions),
      (''prune-deleted-topics'', PruneDeletedTopics),
      (''delete-expired-subscriptions'', DeleteExpiredSubscriptions)]"

fun prune_Execute :: "prune_service \<Rightarrow> time \<Rightarrow> pruneCommonParams \<Rightarrow> pruneCommonResults exec" where
  "prune_Execute PruneCompletedDeliveries now p = PruneCompletedDeliveries_Execute now p"
| "prune_Execute PruneExpiredDeliveries now p = PruneExpiredDeliveries_Execute now p"
| "prune_Execute PruneCompletedMessages now p = PruneCompletedMessages_Execute now p"
| "prune_Execute PruneDeletedSubscriptionDeliveries now p = PruneDeletedSubscriptionDeliveries_Execute now p"
| "prune_Execute PruneDeletedSubscriptions now p = PruneDeletedSubscriptions_Execute now p"
| "prune_Execute PruneDeletedTopics now p = PruneDeletedTopics_Execute now p"
| "prune_Execute DeleteExpiredSubscriptions now p = DeleteExpiredSubscriptions_Execute now p"

text \<open>What each of them is after: the identifiers of the rows that are due.\<close>

fun prune_due :: "prune_service \<Rightarrow> pruneCommonParams \<Rightarrow> time \<Rightarrow> database \<Rightarrow> uuid list" where
  "prune_due PruneCompletedDeliveries p now db =
     map dID (filter (\<lambda>d. lte (dCompletedAt d) (now - pcMinAge p)) (deliveries db))"
| "prune_due PruneExpiredDeliveries p now db =
     map dID (filter (\<lambda>d. dExpiresAt d < now) (deliveries db))"
| "prune_due PruneCompletedMessages p now db =
     map mID (filter (\<lambda>m. mPublishedAt m \<le> now - pcMinAge p \<and> mID m \<notin> dMessageID ` set (deliveries db)) (messages db))"
| "prune_due PruneDeletedSubscriptionDeliveries p now db =
     map dID (filter (\<lambda>d. dSubscriptionID d \<in> sID ` {s \<in> set (subscriptions db). lte (sDeletedAt s) (now - pcMinAge p)})
       (deliveries db))"
| "prune_due PruneDeletedSubscriptions p now db =
     map sID (filter (\<lambda>s. lte (sDeletedAt s) (now - pcMinAge p) \<and> sID s \<notin> dSubscriptionID ` set (deliveries db))
       (subscriptions db))"
| "prune_due PruneDeletedTopics p now db =
     map tID (filter (\<lambda>t. lte (tDeletedAt t) (now - pcMinAge p) \<and> tID t \<notin> sTopicID ` set (subscriptions db)) (topics db))"
| "prune_due DeleteExpiredSubscriptions p now db =
     map sID (filter (\<lambda>s. sExpiresAt s < now \<and> sDeletedAt s = None) (subscriptions db))"

subsection \<open>Rows selected by a limited query\<close>

lemma lte_mono: "lte x t \<Longrightarrow> t \<le> t' \<Longrightarrow> lte x t'"
  by (auto simp: lte_def split: option.splits)

lemma filter_key_in_take:
  assumes "distinct (map k rs)"
  shows "filter (\<lambda>r. k r \<in> set (map k (take n (filter P rs)))) rs = take n (filter P rs)"
proof -
  let ?sel = "take n (filter P rs)"
  have P: "P r" if r: "r \<in> set rs" and "k r \<in> set (map k ?sel)" for r
  proof -
    from that(2) obtain q where "q \<in> set ?sel" and q: "k r = k q" by auto
    then have "q \<in> set rs" and "P q" by (auto dest!: in_set_takeD)
    then show ?thesis using distinct_map_eqD[OF assms r _ q] by simp
  qed
  have "filter (\<lambda>r. k r \<in> set (map k ?sel)) rs = filter (\<lambda>r. k r \<in> set (map k ?sel)) (filter P rs)"
    unfolding filter_filter by (rule filter_cong[OF refl]) (rule iffI, rule conjI, rule P, assumption+, erule conjunct2)
  also have "\<dots> = filter (\<lambda>r. k r \<in> set (map k ?sel)) ?sel @
      filter (\<lambda>r. k r \<in> set (map k ?sel)) (drop n (filter P rs))"
    by (metis append_take_drop_id filter_append)
  also have "filter (\<lambda>r. k r \<in> set (map k ?sel)) (drop n (filter P rs)) = []"
  proof -
    have "distinct (map k (?sel @ drop n (filter P rs)))" using assms by (simp add: distinct_map_filter)
    then show ?thesis unfolding map_append distinct_append by (auto simp: filter_empty_conv)
  qed
  finally show ?thesis by simp
qed

lemma count_key_in_take:
  assumes "distinct (map k rs)"
  shows "count_where (\<lambda>r. k r \<in> set (map k (take n (filter P rs)))) rs = min n (length (filter P rs))"
  unfolding count_where_def filter_key_in_take[OF assms] by (simp add: min.commute)

lemma due_after_delete:
  "map k (filter P (delete_where (\<lambda>r. k r \<in> S) rs)) = filter (\<lambda>i. i \<notin> S) (map k (filter P rs))"
  by (induction rs) auto

subsection \<open>The contract of a pruning action\<close>

text \<open>
  A pruning action that succeeds takes the first \<open>MaxDelete\<close> due rows, reports how many they
  were, and takes nothing else out of what is or will be due. Rows only become due as time
  goes by. \<open>after\<close> is the database after a list of runs at the given times.
\<close>

locale pruner =
  fixes act :: "time \<Rightarrow> pruneCommonParams \<Rightarrow> pruneCommonResults exec"
    and due :: "pruneCommonParams \<Rightarrow> time \<Rightarrow> database \<Rightarrow> uuid list"
  assumes act_wf: "wf_db db \<Longrightarrow> act now p db = Inr (r, ns, db') \<Longrightarrow> wf_db db'"
    and act_count: "wf_db db \<Longrightarrow> act now p db = Inr (r, ns, db') \<Longrightarrow>
      pcNumDeleted r = min (nat (pcMaxDelete p)) (length (due p now db))"
    and act_due: "wf_db db \<Longrightarrow> act now p db = Inr (r, ns, db') \<Longrightarrow>
      due p t db' = filter (\<lambda>i. i \<notin> set (take (nat (pcMaxDelete p)) (due p now db))) (due p t db)"
    and due_mono: "t \<le> t' \<Longrightarrow> set (due p t db) \<subseteq> set (due p t' db)"
    and due_distinct: "wf_db db \<Longrightarrow> distinct (due p t db)"
begin

lemma due_now: "wf_db db \<Longrightarrow> act now p db = Inr (r, ns, db') \<Longrightarrow>
    due p now db' = drop (nat (pcMaxDelete p)) (due p now db)"
proof -
  let ?n = "nat (pcMaxDelete p)"
  assume a: "wf_db db" "act now p db = Inr (r, ns, db')"
  have d: "distinct (take ?n (due p now db) @ drop ?n (due p now db))" using due_distinct[OF a(1)] by simp
  have "filter (\<lambda>i. i \<notin> set (take ?n (due p now db))) (take ?n (due p now db) @ drop ?n (due p now db)) =
      drop ?n (due p now db)"
    using d unfolding distinct_append filter_append by (auto simp: filter_empty_conv intro!: filter_True)
  then show ?thesis using act_due[OF a, of now] by simp
qed

lemma due_decreases:
  assumes "wf_db db" and "act now p db = Inr (r, ns, db')" and "now \<le> t"
  shows "length (due p t db') + pcNumDeleted r = length (due p t db)"
proof -
  let ?sel = "take (nat (pcMaxDelete p)) (due p now db)"
  have sub: "set ?sel \<subseteq> set (due p t db)" using due_mono[OF assms(3)] by (meson order_trans set_take_subset)
  have "length (due p t db) = length (filter (\<lambda>i. i \<notin> set ?sel) (due p t db)) + length (filter (\<lambda>i. i \<in> set ?sel) (due p t db))"
    using sum_length_filter_compl[of "\<lambda>i. i \<in> set ?sel" "due p t db"] by simp
  moreover have "length (filter (\<lambda>i. i \<in> set ?sel) (due p t db)) = length ?sel"
  proof -
    have "set (filter (\<lambda>i. i \<in> set ?sel) (due p t db)) = set ?sel" using sub by auto
    then show ?thesis
      using due_distinct[OF assms(1)] by (metis distinct_card distinct_filter distinct_take)
  qed
  ultimately show ?thesis
    unfolding act_due[OF assms(1,2)] act_count[OF assms(1,2)] by (simp add: min.commute)
qed

lemma due_empty_stays:
  assumes "wf_db db" and "act now p db = Inr (r, ns, db')" and "due p t db = []"
  shows "due p t db' = []"
  using act_due[OF assms(1,2), of t] assms(3) by simp

text \<open>A run either takes its whole quota or leaves nothing that was due behind.\<close>

lemma progress:
  assumes "wf_db db" and "act now p db = Inr (r, ns, db')" and "t \<le> now"
  shows "due p t db' = [] \<or> pcNumDeleted r = nat (pcMaxDelete p)"
proof (cases "length (due p now db) \<le> nat (pcMaxDelete p)")
  case True
  then have "due p now db' = []" using due_now[OF assms(1,2)] by simp
  then show ?thesis using due_mono[OF assms(3), of p db'] by simp
next
  case False
  then show ?thesis using act_count[OF assms(1,2)] by simp
qed

end

subsection \<open>The actions meet the contract\<close>

lemma due_set_null:
  assumes "\<And>d x. P (d\<lparr>dNotBeforeID := x\<rparr>) = P d"
  shows "map dID (filter P (deliveries (delete_deliveries Q db))) = map dID (filter P (delete_where Q (deliveries db)))"
proof -
  have "map dID (filter P (map (\<lambda>d. d\<lparr>dNotBeforeID := set_null g (dNotBeforeID d)\<rparr>) ds)) = map dID (filter P ds)" for g ds
    by (induction ds) (auto simp: assms)
  then show ?thesis by (simp add: delete_deliveries_def Let_def)
qed

lemma delete_deliveries_others [simp]:
  "subscriptions (delete_deliveries P db) = subscriptions db"
  "messages (delete_deliveries P db) = messages db"
  "topics (delete_deliveries P db) = topics db"
  by (simp_all add: delete_deliveries_def Let_def)

lemma list_ex_key: "list_ex (\<lambda>x. k x = i \<and> Q x) xs \<longleftrightarrow> i \<in> k ` {x \<in> set xs. Q x}"
  by (auto simp: list_ex_iff)

lemma list_ex_key': "list_ex (\<lambda>x. k x = i) xs \<longleftrightarrow> i \<in> k ` set xs"
  by (auto simp: list_ex_iff)

definition prunes ::
    "(pruneCommonParams \<Rightarrow> time \<Rightarrow> database \<Rightarrow> uuid list) \<Rightarrow> pruneCommonParams \<Rightarrow> time \<Rightarrow> database \<Rightarrow>
      nat \<Rightarrow> database \<Rightarrow> bool" where
  "prunes due p now db n db' \<longleftrightarrow>
     n = min (nat (pcMaxDelete p)) (length (due p now db)) \<and>
     (\<forall>t. due p t db' = filter (\<lambda>i. i \<notin> set (take (nat (pcMaxDelete p)) (due p now db))) (due p t db))"

lemma prunes_deliveries:
  assumes "wf_db db" and "\<And>t d x. P t (d\<lparr>dNotBeforeID := x\<rparr>) = P t d"
    and "ids = map dID (limit p (filter (P now) (deliveries db)))"
    and "\<And>t. due p t db = map dID (filter (P t) (deliveries db))"
    and "\<And>t. due p t (delete_deliveries (\<lambda>d. dID d \<in> set ids) db) =
      map dID (filter (P t) (deliveries (delete_deliveries (\<lambda>d. dID d \<in> set ids) db)))"
  shows "prunes due p now db (count_where (\<lambda>d. dID d \<in> set ids) (deliveries db))
    (delete_deliveries (\<lambda>d. dID d \<in> set ids) db)"
proof -
  have "due p t (delete_deliveries (\<lambda>d. dID d \<in> set ids) db) = filter (\<lambda>i. i \<notin> set ids) (due p t db)" for t
    unfolding assms(4,5) using due_set_null[where P = "P t", OF assms(2)] by (simp add: due_after_delete)
  with count_key_in_take[OF wf_db_distinct(4)[OF assms(1)], of "nat (pcMaxDelete p)" "P now"]
  show ?thesis by (simp add: prunes_def assms(3,4) limit_def take_map)
qed

lemma prunes_PruneCompletedDeliveries:
  assumes "wf_db db" and "prune_Execute PruneCompletedDeliveries now p db = Inr (r, ns, db')"
  shows "wf_db db' \<and> prunes (prune_due PruneCompletedDeliveries) p now db (pcNumDeleted r) db'"
proof -
  let ?P = "\<lambda>t d. lte (dCompletedAt d) (t - pcMinAge p)"
  have "prunes (prune_due PruneCompletedDeliveries) p now db
      (count_where (\<lambda>d. dID d \<in> set (map dID (limit p (filter (?P now) (deliveries db))))) (deliveries db))
      (delete_deliveries (\<lambda>d. dID d \<in> set (map dID (limit p (filter (?P now) (deliveries db))))) db)"
    by (rule prunes_deliveries[OF assms(1), where P = ?P]) simp_all
  with assms show ?thesis
    by (auto simp: PruneCompletedDeliveries_Execute_def Let_def wf_delete_deliveries simp del: set_map)
qed

lemma prunes_PruneExpiredDeliveries:
  assumes "wf_db db" and "prune_Execute PruneExpiredDeliveries now p db = Inr (r, ns, db')"
  shows "wf_db db' \<and> prunes (prune_due PruneExpiredDeliveries) p now db (pcNumDeleted r) db'"
proof -
  let ?P = "\<lambda>t d. dExpiresAt d < t"
  have "prunes (prune_due PruneExpiredDeliveries) p now db
      (count_where (\<lambda>d. dID d \<in> set (map dID (limit p (filter (?P now) (deliveries db))))) (deliveries db))
      (delete_deliveries (\<lambda>d. dID d \<in> set (map dID (limit p (filter (?P now) (deliveries db))))) db)"
    by (rule prunes_deliveries[OF assms(1), where P = ?P]) simp_all
  with assms show ?thesis
    by (auto simp: PruneExpiredDeliveries_Execute_def Let_def wf_delete_deliveries simp del: set_map)
qed

lemma prunes_PruneDeletedSubscriptionDeliveries:
  assumes "wf_db db" and "prune_Execute PruneDeletedSubscriptionDeliveries now p db = Inr (r, ns, db')"
  shows "wf_db db' \<and> prunes (prune_due PruneDeletedSubscriptionDeliveries) p now db (pcNumDeleted r) db'"
proof -
  let ?P = "\<lambda>t d. dSubscriptionID d \<in> sID ` {s \<in> set (subscriptions db). lte (sDeletedAt s) (t - pcMinAge p)}"
  have "prunes (prune_due PruneDeletedSubscriptionDeliveries) p now db
      (count_where (\<lambda>d. dID d \<in> set (map dID (limit p (filter (?P now) (deliveries db))))) (deliveries db))
      (delete_deliveries (\<lambda>d. dID d \<in> set (map dID (limit p (filter (?P now) (deliveries db))))) db)"
    by (rule prunes_deliveries[OF assms(1), where P = ?P]) simp_all
  with assms show ?thesis
    by (auto simp: PruneDeletedSubscriptionDeliveries_Execute_def Let_def list_ex_key wf_delete_deliveries
        simp del: set_map)
qed

lemma prunes_PruneCompletedMessages:
  assumes "wf_db db" and "prune_Execute PruneCompletedMessages now p db = Inr (r, ns, db')"
  shows "wf_db db' \<and> prunes (prune_due PruneCompletedMessages) p now db (pcNumDeleted r) db'"
proof -
  let ?P = "\<lambda>t m. mPublishedAt m \<le> t - pcMinAge p \<and> mID m \<notin> dMessageID ` set (deliveries db)"
  let ?ids = "map mID (limit p (filter (?P now) (messages db)))"
  have del: "delete_messages (\<lambda>m. mID m \<in> set ?ids) db = Inr db'"
    and n: "pcNumDeleted r = count_where (\<lambda>m. mID m \<in> set ?ids) (messages db)"
    using assms(2) by (auto simp: PruneCompletedMessages_Execute_def Let_def list_ex_key' bind_res_Inr_iff simp del: set_map)
  then have "db' = db\<lparr>messages := delete_where (\<lambda>m. mID m \<in> set ?ids) (messages db)\<rparr>"
    by (auto simp: delete_messages_def Let_def simp del: set_map split: if_splits)
  then have "prunes (prune_due PruneCompletedMessages) p now db (pcNumDeleted r) db'"
    using count_key_in_take[OF wf_db_distinct(3)[OF assms(1)], of "nat (pcMaxDelete p)" "?P now"]
    by (simp add: prunes_def n due_after_delete limit_def take_map)
  with wf_delete_messages[OF assms(1) del] show ?thesis by simp
qed

lemma prunes_PruneDeletedSubscriptions:
  assumes "wf_db db" and "prune_Execute PruneDeletedSubscriptions now p db = Inr (r, ns, db')"
  shows "wf_db db' \<and> prunes (prune_due PruneDeletedSubscriptions) p now db (pcNumDeleted r) db'"
proof -
  let ?P = "\<lambda>t s. lte (sDeletedAt s) (t - pcMinAge p) \<and> sID s \<notin> dSubscriptionID ` set (deliveries db)"
  let ?ids = "map sID (limit p (filter (?P now) (subscriptions db)))"
  have del: "delete_subscriptions (\<lambda>s. sID s \<in> set ?ids) db = Inr db'"
    and n: "pcNumDeleted r = count_where (\<lambda>s. sID s \<in> set ?ids) (subscriptions db)"
    using assms(2) by (auto simp: PruneDeletedSubscriptions_Execute_def Let_def list_ex_key' bind_res_Inr_iff simp del: set_map)
  then have "db' = db\<lparr>subscriptions := delete_where (\<lambda>s. sID s \<in> set ?ids) (subscriptions db)\<rparr>"
    by (auto simp: delete_subscriptions_def Let_def simp del: set_map split: if_splits)
  then have "prunes (prune_due PruneDeletedSubscriptions) p now db (pcNumDeleted r) db'"
    using count_key_in_take[OF wf_db_distinct(2)[OF assms(1)], of "nat (pcMaxDelete p)" "?P now"]
    by (simp add: prunes_def n due_after_delete limit_def take_map)
  with wf_delete_subscriptions[OF assms(1) del] show ?thesis by simp
qed

lemma delete_topics_ok:
  assumes "delete_topics P db = Inr db'"
  shows "topics db' = delete_where P (topics db) \<and> sTopicID ` set (subscriptions db') = sTopicID ` set (subscriptions db)"
  using assms by (auto simp: delete_topics_def Let_def image_image split: if_splits)

lemma prunes_PruneDeletedTopics:
  assumes "wf_db db" and "prune_Execute PruneDeletedTopics now p db = Inr (r, ns, db')"
  shows "wf_db db' \<and> prunes (prune_due PruneDeletedTopics) p now db (pcNumDeleted r) db'"
proof -
  let ?P = "\<lambda>u t. lte (tDeletedAt t) (u - pcMinAge p) \<and> tID t \<notin> sTopicID ` set (subscriptions db)"
  let ?ids = "map tID (limit p (filter (?P now) (topics db)))"
  have del: "delete_topics (\<lambda>t. tID t \<in> set ?ids) db = Inr db'"
    and n: "pcNumDeleted r = count_where (\<lambda>t. tID t \<in> set ?ids) (topics db)"
    using assms(2) by (auto simp: PruneDeletedTopics_Execute_def Let_def list_ex_key' bind_res_Inr_iff simp del: set_map)
  then have "topics db' = delete_where (\<lambda>t. tID t \<in> set ?ids) (topics db)"
    and "sTopicID ` set (subscriptions db') = sTopicID ` set (subscriptions db)"
    using delete_topics_ok[OF del] by simp_all
  then have "prunes (prune_due PruneDeletedTopics) p now db (pcNumDeleted r) db'"
    using count_key_in_take[OF wf_db_distinct(1)[OF assms(1)], of "nat (pcMaxDelete p)" "?P now"]
    by (simp add: prunes_def n due_after_delete limit_def take_map)
  with wf_delete_topics[OF assms(1) del] show ?thesis by simp
qed

lemma due_after_mark:
  "map sID (filter (\<lambda>s. Q s \<and> sDeletedAt s = None)
      (update_where (\<lambda>s. sID s \<in> S) (\<lambda>s. s\<lparr>sLive := None, sDeletedAt := Some now\<rparr>) ss)) =
    filter (\<lambda>i. i \<notin> S) (map sID (filter (\<lambda>s. Q s \<and> sDeletedAt s = None) ss))"
  by (induction ss) auto

lemma prunes_DeleteExpiredSubscriptions:
  assumes "wf_db db" and "prune_Execute DeleteExpiredSubscriptions now p db = Inr (r, ns, db')"
  shows "wf_db db' \<and> prunes (prune_due DeleteExpiredSubscriptions) p now db (pcNumDeleted r) db'"
proof -
  let ?P = "\<lambda>t s. sExpiresAt s < t \<and> sDeletedAt s = None"
  let ?ids = "map sID (limit p (filter (?P now) (subscriptions db)))"
  have db': "db' = db\<lparr>subscriptions := update_where (\<lambda>s. sID s \<in> set ?ids)
      (\<lambda>s. s\<lparr>sLive := None, sDeletedAt := Some now\<rparr>) (subscriptions db)\<rparr>"
    and n: "pcNumDeleted r = count_where (\<lambda>s. sID s \<in> set ?ids) (subscriptions db)"
    using assms(2) by (auto simp: DeleteExpiredSubscriptions_Execute_def Let_def soft_delete_subscriptions_eq simp del: set_map)
  have "prunes (prune_due DeleteExpiredSubscriptions) p now db (pcNumDeleted r) db'"
    unfolding prunes_def n db' using count_key_in_take[OF wf_db_distinct(2)[OF assms(1)], of "nat (pcMaxDelete p)" "?P now"]
    by (simp add: due_after_mark limit_def take_map)
  with wf_DeleteExpiredSubscriptions[OF assms(1)] assms(2) show ?thesis by simp
qed

lemmas prunes_actions = prunes_PruneCompletedDeliveries prunes_PruneExpiredDeliveries
  prunes_PruneCompletedMessages prunes_PruneDeletedSubscriptionDeliveries prunes_PruneDeletedSubscriptions
  prunes_PruneDeletedTopics prunes_DeleteExpiredSubscriptions

lemma prunes_prune_Execute:
  "wf_db db \<Longrightarrow> prune_Execute k now p db = Inr (r, ns, db') \<Longrightarrow>
    wf_db db' \<and> prunes (prune_due k) p now db (pcNumDeleted r) db'"
  by (cases k; hypsubst; rule prunes_actions; assumption)

lemma prune_due_mono: "t \<le> t' \<Longrightarrow> set (prune_due k p t db) \<subseteq> set (prune_due k p t' db)"
proof -
  assume t: "t \<le> t'"
  then have "lte x (t - pcMinAge p) \<Longrightarrow> lte x (t' - pcMinAge p)" for x by (auto intro: lte_mono)
  with t show ?thesis by (cases k) auto
qed

lemma prune_due_distinct: "wf_db db \<Longrightarrow> distinct (prune_due k p t db)"
  using wf_db_distinct by (cases k) (auto intro: distinct_map_filter)

interpretation prune: pruner "prune_Execute k" "prune_due k" for k
proof unfold_locales
  fix db now p r ns db' t
  assume a: "wf_db db" "prune_Execute k now p db = Inr (r, ns, db')"
  show "wf_db db'" "pcNumDeleted r = min (nat (pcMaxDelete p)) (length (prune_due k p now db))"
    "prune_due k p t db' = filter (\<lambda>i. i \<notin> set (take (nat (pcMaxDelete p)) (prune_due k p now db))) (prune_due k p t db)"
    using prunes_prune_Execute[OF a] by (simp_all add: prunes_def)
qed (simp_all add: prune_due_mono prune_due_distinct)

interpretation prune_actions: db_action "\<lambda>(k, now, p). prune_Execute k now p" "\<lambda>_. True"
  by unfold_locales (use prune.act_wf in auto)

subsection \<open>Which actions can fail\<close>

lemma free_of_refs:
  assumes "distinct (map k rs)" and "\<And>r. P r \<Longrightarrow> k r \<notin> ref ` set ds"
  shows "\<not> list_ex (\<lambda>d. ref d \<in> set (map k (filter (\<lambda>r. k r \<in> set (map k (take n (filter P rs)))) rs))) ds"
  unfolding filter_key_in_take[OF assms(1)] using assms(2)
  by (force simp: list_ex_iff dest!: in_set_takeD)

lemma prune_Execute_total:
  assumes "wf_db db" and "k \<noteq> PruneDeletedTopics"
  shows "\<exists>r ns db'. prune_Execute k now p db = Inr (r, ns, db')"
proof (cases k)
  case PruneCompletedMessages
  let ?P = "\<lambda>m. mPublishedAt m \<le> now - pcMinAge p \<and> mID m \<notin> dMessageID ` set (deliveries db)"
  have "\<not> list_ex (\<lambda>d. dMessageID d \<in> set (map mID (filter (\<lambda>m. mID m \<in> set (map mID
      (take (nat (pcMaxDelete p)) (filter ?P (messages db))))) (messages db)))) (deliveries db)"
    by (rule free_of_refs[OF wf_db_distinct(3)[OF assms(1)]]) simp
  then show ?thesis
    by (simp add: PruneCompletedMessages PruneCompletedMessages_Execute_def Let_def delete_messages_def limit_def
        list_ex_key' del: set_map)
next
  case PruneDeletedSubscriptions
  let ?P = "\<lambda>s. lte (sDeletedAt s) (now - pcMinAge p) \<and> sID s \<notin> dSubscriptionID ` set (deliveries db)"
  have "\<not> list_ex (\<lambda>d. dSubscriptionID d \<in> set (map sID (filter (\<lambda>s. sID s \<in> set (map sID
      (take (nat (pcMaxDelete p)) (filter ?P (subscriptions db))))) (subscriptions db)))) (deliveries db)"
    by (rule free_of_refs[OF wf_db_distinct(2)[OF assms(1)]]) simp
  then show ?thesis
    by (simp add: PruneDeletedSubscriptions PruneDeletedSubscriptions_Execute_def Let_def delete_subscriptions_def limit_def
        list_ex_key' del: set_map)
qed (use assms in \<open>simp_all add: PruneCompletedDeliveries_Execute_def PruneExpiredDeliveries_Execute_def
  PruneDeletedSubscriptionDeliveries_Execute_def DeleteExpiredSubscriptions_Execute_def Let_def
  soft_delete_subscriptions_eq\<close>)

subsection \<open>What pruning never takes\<close>

definition outstanding :: "time \<Rightarrow> database \<Rightarrow> delivery \<Rightarrow> bool" where
  "outstanding now db d \<longleftrightarrow> d \<in> set (deliveries db) \<and> dCompletedAt d = None \<and> dExpiresAt d \<ge> now \<and>
     (\<forall>s\<in>set (subscriptions db). sID s = dSubscriptionID d \<longrightarrow> sDeletedAt s = None)"

lemma outstanding_not_due:
  assumes "wf_db db" and "outstanding now db d" and "k \<in> {PruneCompletedDeliveries, PruneExpiredDeliveries, PruneDeletedSubscriptionDeliveries}"
  shows "dID d \<notin> set (prune_due k p now db)"
proof
  assume "dID d \<in> set (prune_due k p now db)"
  then obtain e where e: "e \<in> set (deliveries db)" "dID e = dID d" and due: "lte (dCompletedAt e) (now - pcMinAge p) \<or>
      dExpiresAt e < now \<or> (\<exists>s\<in>set (subscriptions db). dSubscriptionID e = sID s \<and> lte (sDeletedAt s) (now - pcMinAge p))"
    using assms(3) by fastforce
  have "e = d" using distinct_map_eqD[OF wf_db_distinct(4)[OF assms(1)] e(1) _ e(2)] assms(2) by (simp add: outstanding_def)
  then show False using due assms(2) by (auto simp: outstanding_def lte_def)
qed

lemma delete_deliveries_keeps:
  assumes "d \<in> set (deliveries db)" and "\<not> P d"
  shows "\<exists>x. d\<lparr>dNotBeforeID := x\<rparr> \<in> set (deliveries (delete_deliveries P db))"
  using assms by (auto simp: delete_deliveries_def Let_def)

lemma prune_deliveries_or_same:
  assumes "wf_db db" and "prune_Execute k now p db = Inr (r, ns, db')"
  shows "deliveries db' = deliveries db \<or>
    (k \<in> {PruneCompletedDeliveries, PruneExpiredDeliveries, PruneDeletedSubscriptionDeliveries} \<and>
     db' = delete_deliveries (\<lambda>d. dID d \<in> set (take (nat (pcMaxDelete p)) (prune_due k p now db))) db)"
proof (cases k)
  case PruneDeletedTopics
  then show ?thesis using assms(2)
    by (auto simp: PruneDeletedTopics_Execute_def delete_topics_def Let_def elim!: bind_res_InrE split: if_splits)
next
  case PruneCompletedMessages
  then show ?thesis using assms(2)
    by (auto simp: PruneCompletedMessages_Execute_def delete_messages_def Let_def elim!: bind_res_InrE split: if_splits)
next
  case PruneDeletedSubscriptions
  then show ?thesis using assms(2)
    by (auto simp: PruneDeletedSubscriptions_Execute_def delete_subscriptions_def Let_def elim!: bind_res_InrE split: if_splits)
qed (use assms(2) in \<open>auto simp: PruneCompletedDeliveries_Execute_def PruneExpiredDeliveries_Execute_def
    PruneDeletedSubscriptionDeliveries_Execute_def DeleteExpiredSubscriptions_Execute_def Let_def
    soft_delete_subscriptions_eq limit_def take_map list_ex_key simp del: set_map\<close>)

text \<open>
  Property C20. A pruning action that succeeds takes exactly the first \<open>MaxDelete\<close> of the rows that
  are due and reports their number; and no pruning action ever takes a delivery that is still
  outstanding (not completed, not expired, its subscription not deleted), nor the message and the
  subscription it needs.
\<close>

theorem prune_Execute_correct:
  assumes "wf_db db" and "prune_Execute k now p db = Inr (r, ns, db')"
  shows "pcNumDeleted r = min (nat (pcMaxDelete p)) (length (prune_due k p now db)) \<and>
    prune_due k p now db' = drop (nat (pcMaxDelete p)) (prune_due k p now db) \<and>
    (\<forall>d. outstanding now db d \<longrightarrow> (\<exists>x. d\<lparr>dNotBeforeID := x\<rparr> \<in> set (deliveries db')) \<and>
       dMessageID d \<in> message_ids db' \<and> dSubscriptionID d \<in> sub_ids db')"
proof -
  have kept: "\<exists>x. d\<lparr>dNotBeforeID := x\<rparr> \<in> set (deliveries db')" if o: "outstanding now db d" for d
    using prune_deliveries_or_same[OF assms]
  proof
    assume "deliveries db' = deliveries db"
    moreover have "d\<lparr>dNotBeforeID := dNotBeforeID d\<rparr> = d" by simp
    ultimately show ?thesis using o unfolding outstanding_def by metis
  next
    assume del: "k \<in> {PruneCompletedDeliveries, PruneExpiredDeliveries, PruneDeletedSubscriptionDeliveries} \<and>
      db' = delete_deliveries (\<lambda>d. dID d \<in> set (take (nat (pcMaxDelete p)) (prune_due k p now db))) db"
    then have "dID d \<notin> set (take (nat (pcMaxDelete p)) (prune_due k p now db))"
      using outstanding_not_due[OF assms(1) o] by (meson in_set_takeD)
    with delete_deliveries_keeps[of d db] o del show ?thesis by (auto simp: outstanding_def)
  qed
  have refs: "dMessageID d \<in> message_ids db' \<and> dSubscriptionID d \<in> sub_ids db'" if "outstanding now db d" for d
    using kept[OF that] wf_db_refs(4,5)[OF prune.act_wf[OF assms]] by fastforce
  show ?thesis
    using prune.act_count[OF assms] prune.due_now[OF assms] kept refs by blast
qed

theorem prune_Execute_correct_witness:
  "\<exists>r ns db'. prune_Execute PruneExpiredDeliveries (hour + 15) \<lparr>pcMinAge = 0, pcMaxDelete = 5\<rparr> sample_db = Inr (r, ns, db') \<and>
     pcNumDeleted r = 1 \<and> (\<exists>x. sample_del2\<lparr>dNotBeforeID := x\<rparr> \<in> set (deliveries db'))"
proof -
  let ?p = "\<lparr>pcMinAge = 0, pcMaxDelete = 5\<rparr>"
  obtain r ns db' where ex: "prune_Execute PruneExpiredDeliveries (hour + 15) ?p sample_db = Inr (r, ns, db')"
    using prune_Execute_total[OF wf_sample_db, of PruneExpiredDeliveries] by blast
  have "outstanding (hour + 15) sample_db sample_del2" by (simp add: outstanding_def sample_defs)
  moreover have "length (prune_due PruneExpiredDeliveries ?p (hour + 15) sample_db) = 1" by (simp add: sample_defs)
  ultimately show ?thesis using prune_Execute_correct[OF wf_sample_db ex] ex by auto
qed

text \<open>
  Property C38. Pruning deleted topics looks at subscriptions only: as soon as one of the selected
  topics still has a message or a snapshot, the whole batch fails on the foreign key, and so does
  every later run on the same rows.
\<close>

theorem PruneDeletedTopics_blocked:
  assumes "t \<in> set (take (nat (pcMaxDelete p)) (prune_due PruneDeletedTopics p now db))"
    and "t \<in> mTopicID ` set (messages db) \<or> t \<in> nTopicID ` set (snapshots db)"
  shows "PruneDeletedTopics_Execute now p db = Inl ForeignKeyViolation"
proof -
  let ?ids = "map tID (limit p (filter (\<lambda>t. lte (tDeletedAt t) (now - pcMinAge p) \<and>
    \<not> list_ex (\<lambda>s. sTopicID s = tID t) (subscriptions db)) (topics db)))"
  have t: "t \<in> set ?ids" using assms(1) by (simp add: list_ex_key' limit_def take_map)
  moreover have "set ?ids \<subseteq> tID ` set (topics db)" by (auto simp: limit_def dest!: in_set_takeD)
  ultimately have "t \<in> set (map tID (filter (\<lambda>t. tID t \<in> set ?ids) (topics db)))"
    by (auto simp del: set_map simp: set_map[of tID "filter _ _"])
  with assms(2) have "delete_topics (\<lambda>t. tID t \<in> set ?ids) db = Inl ForeignKeyViolation"
    by (auto simp: delete_topics_def Let_def list_ex_iff simp del: set_map)
  then show ?thesis by (simp add: PruneDeletedTopics_Execute_def Let_def del: set_map)
qed

definition sample_deleted_topic_db :: database where
  "sample_deleted_topic_db = sample_db\<lparr>topics := [sample_topic\<lparr>tLive := None, tDeletedAt := Some 0\<rparr>],
     subscriptions := [], deliveries := []\<rparr>"

theorem PruneDeletedTopics_blocked_witness:
  "PruneDeletedTopics_Execute hour \<lparr>pcMinAge = 0, pcMaxDelete = 5\<rparr> sample_deleted_topic_db = Inl ForeignKeyViolation"
  by (rule PruneDeletedTopics_blocked[where t = 1])
    (simp_all add: sample_deleted_topic_db_def sample_defs lte_def)

end
