(* ===== verification/BackgroundServices.thy ===== *)
theory BackgroundServices
  imports Prune DeadLetter
begin

text \<open>
  The background services: the pruning service of \<open>services/prune-common.go\<close>, one instance per
  registered pruning action, and the dead-letter service of \<open>services/deadletter.go\<close>. Each waits
  on a ticker, runs its action in a transaction and sets the period of the ticker from the
  outcome, until its context ends.

  A run is driven by a list of events. A tick carries the clock reading, the number that
  \<open>rand.Int63n\<close> draws (reduced to its range), the driver's answers and what other transactions did
  since the last tick. Logging is left out.
\<close>

subsection \<open>The pruning service\<close>

record pruneCommonSettings =
  psParams :: pruneCommonParams
  psInterval :: duration
  psFuzz :: duration
  psBackoff :: duration

definition pcDefaults :: pruneCommonSettings where
  "pcDefaults = \<lparr>psParams = \<lparr>pcMinAge = 1 * hour, pcMaxDelete = 100\<rparr>, psInterval = minute,
     psFuzz = 10 * second, psBackoff = 100 * millisecond\<rparr>"

definition or_default :: "int \<Rightarrow> int \<Rightarrow> int" where
  "or_default x d = (if x = 0 then d else x)"

definition PruneCommonSettings_ApplyDefaults :: "pruneCommonSettings \<Rightarrow> pruneCommonSettings" where
  "PruneCommonSettings_ApplyDefaults s =
     \<lparr>psParams = \<lparr>pcMinAge = or_default (pcMinAge (psParams s)) (pcMinAge (psParams pcDefaults)),
        pcMaxDelete = or_default (pcMaxDelete (psParams s)) (pcMaxDelete (psParams pcDefaults))\<rparr>,
      psInterval = or_default (psInterval s) (psInterval pcDefaults),
      psFuzz = or_default (psFuzz s) (psFuzz pcDefaults),
      psBackoff = or_default (psBackoff s) (psBackoff pcDefaults)\<rparr>"

record pruneService =
  svcAction :: prune_service
  svcSettings :: pruneCommonSettings
  svcResults :: "pruneCommonResults option"
  svcPeriod :: duration

definition pruneService_Initialize :: "prune_service \<Rightarrow> pruneCommonSettings \<Rightarrow> pruneService res" where
  "pruneService_Initialize k settings =
     (let s = PruneCommonSettings_ApplyDefaults settings in
      bind_res (newPruneAction (psParams s)) (\<lambda>_.
        Inr \<lparr>svcAction = k, svcSettings = s, svcResults = None, svcPeriod = 0\<rparr>))"

text \<open>\<open>time.NewTicker\<close> and \<open>Reset\<close> panic on a period that is not positive, \<open>Int63n\<close> on such a bound.\<close>

definition ticker_Reset :: "duration \<Rightarrow> duration res" where
  "ticker_Reset d = (if d \<le> 0 then Inl (Panic ''non-positive interval for Ticker.Reset'') else Inr d)"

definition rand_Int63n :: "nat \<Rightarrow> int \<Rightarrow> int res" where
  "rand_Int63n rnd n = (if n \<le> 0 then Inl (Panic ''invalid argument to Int63n'') else Inr (int rnd mod n))"

text \<open>
  One run of the action. The action object is kept between runs, so the results that are read
  after a run that failed are those of the last run that got as far as setting them.
\<close>

definition runOnce :: "driver \<Rightarrow> time \<Rightarrow> pruneService \<Rightarrow> world \<Rightarrow> nat \<times> err option \<times> pruneService \<times> world" where
  "runOnce drv now s w =
     (case drvBegin drv of
        Some e \<Rightarrow> (0, Some e, s, w)
      | None \<Rightarrow>
          let (e, results, w') =
            (case prune_Execute (svcAction s) now (psParams (svcSettings s)) (wDb w) of
               Inl e \<Rightarrow> (Some e, svcResults s, w)
             | Inr (r, hs, db') \<Rightarrow>
                 let (e, st) = run_commit hs (drvCommit drv) (wNotify w) in
                 (e, Some r, w\<lparr>wDb := (if drvCommit drv = None \<or> drvCommitApplied drv then db' else wDb w),
                    wNotify := st\<rparr>))
          in (case results of Some r \<Rightarrow> pcNumDeleted r | None \<Rightarrow> 0, e, s\<lparr>svcResults := results\<rparr>, w'))"

text \<open>What a service does on a tick, given how many rows it handled and whether it failed.\<close>

definition next_period :: "nat \<Rightarrow> duration \<Rightarrow> duration \<Rightarrow> duration \<Rightarrow> int \<Rightarrow> nat \<Rightarrow> err option \<Rightarrow> duration \<Rightarrow> duration res" where
  "next_period rnd interval fuzz backoff maxRows n e period =
     (if e \<noteq> None \<or> n = 0 then bind_res (rand_Int63n rnd fuzz) (\<lambda>f. ticker_Reset (interval + f))
      else if int n \<ge> maxRows then ticker_Reset backoff
      else Inr period)"

datatype service_event =
    Tick time nat driver "world \<Rightarrow> world"
  | CtxDone

fun pruneService_step :: "service_event \<Rightarrow> pruneService \<times> world \<Rightarrow> (pruneService \<times> world) res" where
  "pruneService_step (Tick now rnd drv others) (s, w) =
     (let (n, e, s', w') = runOnce drv now s (others w); set = svcSettings s in
      bind_res (next_period rnd (psInterval set) (psFuzz set) (psBackoff set) (pcMaxDelete (psParams set)) n e
          (svcPeriod s'))
        (\<lambda>p. Inr (s'\<lparr>svcPeriod := p\<rparr>, w')))"
| "pruneService_step CtxDone sw = Inr sw"

fun service_loop :: "(service_event \<Rightarrow> 's \<Rightarrow> 's res) \<Rightarrow> service_event list \<Rightarrow> 's \<Rightarrow> 's res" where
  "service_loop step [] s = Inr s"
| "service_loop step (CtxDone # rest) s = Inr s"
| "service_loop step (e # rest) s = bind_res (step e s) (service_loop step rest)"

definition pruneService_Start :: "service_event list \<Rightarrow> pruneService \<Rightarrow> world \<Rightarrow> (pruneService \<times> world) res" where
  "pruneService_Start events s w =
     bind_res (ticker_Reset (psBackoff (svcSettings s))) (\<lambda>p.
       service_loop pruneService_step events (s\<lparr>svcPeriod := p\<rparr>, w))"

subsection \<open>The dead-letter service\<close>

record deadLetterSettings =
  dsMaxDeliveries :: int
  dsInterval :: duration
  dsFuzz :: duration
  dsBackoff :: duration

definition dlDefaults :: deadLetterSettings where
  "dlDefaults = \<lparr>dsMaxDeliveries = 100, dsInterval = minute, dsFuzz = 10 * second,
     dsBackoff = 100 * millisecond\<rparr>"

definition DeadLetterSettings_ApplyDefaults :: "deadLetterSettings \<Rightarrow> deadLetterSettings" where
  "DeadLetterSettings_ApplyDefaults s =
     \<lparr>dsMaxDeliveries = or_default (dsMaxDeliveries s) (dsMaxDeliveries dlDefaults),
      dsInterval = or_default (dsInterval s) (dsInterval dlDefaults),
      dsFuzz = or_default (dsFuzz s) (dsFuzz dlDefaults),
      dsBackoff = or_default (dsBackoff s) (dsBackoff dlDefaults)\<rparr>"

record deadLetterService =
  dlsSettings :: deadLetterSettings
  dlsPeriod :: duration

text \<open>
  The action is new on every tick; its results are there when its execution got to the end, also
  when the commit then fails. \<open>newIDs\<close> gives the identifiers drawn at a time.
\<close>

fun deadLetter_step :: "filter_parser \<Rightarrow> (time \<Rightarrow> nat \<Rightarrow> uuid) \<Rightarrow> service_event \<Rightarrow> deadLetterService \<times> world \<Rightarrow>
    (deadLetterService \<times> world) res" where
  "deadLetter_step parse newIDs (Tick now rnd drv others) (s, w) =
     (let set = dlsSettings s in
      bind_res (NewDeadLetterDeliveries (dsMaxDeliveries set)) (\<lambda>maxDeliveries.
      let act = DeadLetterDeliveries_Execute parse (newIDs now) now maxDeliveries;
          w0 = others w;
          (res, w') = DoCtxTx drv (\<lambda>_. act) () w0;
          n = (if drvBegin drv \<noteq> None then 0
               else case act (wDb w0) of Inr (r, _, _) \<Rightarrow> dldNumDeadLettered r | Inl _ \<Rightarrow> 0);
          e = (case res of Inl e \<Rightarrow> Some e | Inr _ \<Rightarrow> None)
      in bind_res (next_period rnd (dsInterval set) (dsFuzz set) (dsBackoff set) (dsMaxDeliveries set) n e (dlsPeriod s))
        (\<lambda>p. Inr (s\<lparr>dlsPeriod := p\<rparr>, w'))))"
| "deadLetter_step parse newIDs CtxDone sw = Inr sw"

definition deadLetter_Start :: "filter_parser \<Rightarrow> (time \<Rightarrow> nat \<Rightarrow> uuid) \<Rightarrow> service_event list \<Rightarrow> deadLetterSettings \<Rightarrow>
    world \<Rightarrow> (deadLetterService \<times> world) res" where
  "deadLetter_Start parse newIDs events settings w =
     (let set = DeadLetterSettings_ApplyDefaults settings in
      bind_res (ticker_Reset (dsBackoff set)) (\<lambda>p.
        service_loop (deadLetter_step parse newIDs) events (\<lparr>dlsSettings = set, dlsPeriod = p\<rparr>, w)))"

subsection \<open>The pruning service catches up\<close>

definition positive_settings :: "pruneCommonSettings \<Rightarrow> bool" where
  "positive_settings s \<longleftrightarrow> 0 < psInterval s \<and> 0 < psFuzz s \<and> 0 < psBackoff s"

lemma next_period_ok:
  assumes "0 < interval" and "0 < fuzz" and "0 < backoff"
  shows "\<exists>p. next_period rnd interval fuzz backoff m n e period = Inr p"
proof -
  have "0 \<le> int rnd mod fuzz" using assms(2) by simp
  with assms have "\<not> interval + int rnd mod fuzz \<le> 0" by linarith
  with assms show ?thesis by (auto simp: next_period_def rand_Int63n_def ticker_Reset_def)
qed

definition quiet_tick :: "time \<times> nat \<Rightarrow> service_event" where
  "quiet_tick x = Tick (fst x) (snd x) good_driver id"

lemma service_loop_quiet [simp]:
  "service_loop step (quiet_tick x # rest) s = bind_res (step (quiet_tick x) s) (service_loop step rest)"
  by (simp add: quiet_tick_def)

lemma quiet_tick_step:
  assumes "wf_db (wDb w)" and "svcAction s \<noteq> PruneDeletedTopics" and "positive_settings (svcSettings s)"
  shows "\<exists>s' w' r ns. pruneService_step (quiet_tick (now, rnd)) (s, w) = Inr (s', w') \<and>
    svcAction s' = svcAction s \<and> svcSettings s' = svcSettings s \<and> wf_db (wDb w') \<and>
    prune_Execute (svcAction s) now (psParams (svcSettings s)) (wDb w) = Inr (r, ns, wDb w')"
proof -
  obtain r ns db' where ex: "prune_Execute (svcAction s) now (psParams (svcSettings s)) (wDb w) = Inr (r, ns, db')"
    using prune_Execute_total[OF assms(1,2)] by blast
  let ?set = "svcSettings s"
  obtain p where "next_period rnd (psInterval ?set) (psFuzz ?set) (psBackoff ?set) (pcMaxDelete (psParams ?set))
      (pcNumDeleted r) None (svcPeriod s) = Inr p"
    using next_period_ok assms(3) unfolding positive_settings_def by blast
  then show ?thesis
    using ex prune.act_wf[OF assms(1) ex]
    by (simp add: quiet_tick_def runOnce_def good_driver_def run_commit_ok)
qed

lemma quiet_ticks_catch_up:
  assumes "wf_db (wDb w)" and "svcAction s \<noteq> PruneDeletedTopics" and "positive_settings (svcSettings s)"
    and "\<forall>x\<in>set ts. t0 \<le> fst x \<and> fst x \<le> t1"
  shows "\<exists>s' w'. service_loop pruneService_step (map quiet_tick ts) (s, w) = Inr (s', w') \<and> wf_db (wDb w') \<and>
    (prune_due (svcAction s) (psParams (svcSettings s)) t0 (wDb w) = [] \<longrightarrow>
     prune_due (svcAction s) (psParams (svcSettings s)) t0 (wDb w') = []) \<and>
    (prune_due (svcAction s) (psParams (svcSettings s)) t0 (wDb w') = [] \<or>
     length ts * nat (pcMaxDelete (psParams (svcSettings s))) +
       length (prune_due (svcAction s) (psParams (svcSettings s)) t1 (wDb w')) =
     length (prune_due (svcAction s) (psParams (svcSettings s)) t1 (wDb w)))"
  using assms
proof (induction ts arbitrary: s w)
  case (Cons x ts)
  let ?k = "svcAction s" and ?p = "psParams (svcSettings s)"
  obtain now rnd where x: "x = (now, rnd)" by (cases x)
  with Cons.prems(4) have now: "t0 \<le> now" "now \<le> t1" by auto
  obtain s1 w1 r ns where st: "pruneService_step (quiet_tick x) (s, w) = Inr (s1, w1)"
    and same: "svcAction s1 = ?k" "svcSettings s1 = svcSettings s" and wf: "wf_db (wDb w1)"
    and ex: "prune_Execute ?k now ?p (wDb w) = Inr (r, ns, wDb w1)"
    using quiet_tick_step[OF Cons.prems(1-3)] x by blast
  obtain s' w' where rest: "service_loop pruneService_step (map quiet_tick ts) (s1, w1) = Inr (s', w')" "wf_db (wDb w')"
    and ih: "prune_due ?k ?p t0 (wDb w') = [] \<or> length ts * nat (pcMaxDelete ?p) + length (prune_due ?k ?p t1 (wDb w')) =
      length (prune_due ?k ?p t1 (wDb w1))"
    and stays: "prune_due ?k ?p t0 (wDb w1) = [] \<longrightarrow> prune_due ?k ?p t0 (wDb w') = []"
    using Cons.IH[OF wf, of s1] Cons.prems(2-4) same by auto
  have "prune_due ?k ?p t0 (wDb w1) = [] \<or> pcNumDeleted r = nat (pcMaxDelete ?p)"
    by (rule prune.progress[OF Cons.prems(1) ex now(1)])
  then have "prune_due ?k ?p t0 (wDb w') = [] \<or>
      length (x # ts) * nat (pcMaxDelete ?p) + length (prune_due ?k ?p t1 (wDb w')) = length (prune_due ?k ?p t1 (wDb w))"
    using ih stays prune.due_decreases[OF Cons.prems(1) ex now(2)] by auto
  moreover have "prune_due ?k ?p t0 (wDb w) = [] \<longrightarrow> prune_due ?k ?p t0 (wDb w') = []"
    using stays prune.due_empty_stays[OF Cons.prems(1) ex] by blast
  ultimately show ?case using st rest by simp
qed auto

text \<open>
  Property C33. A pruning service catches up. With a working database and nobody else writing,
  once its ticks at times from \<open>t0\<close> to \<open>t1\<close> are more than the rows due at \<open>t1\<close> divided by
  \<open>MaxDelete\<close>, the service is still running and no row that was due at \<open>t0\<close> is left. (The pruning
  of topics is the exception.)
\<close>

theorem pruneService_catches_up:
  assumes "wf_db (wDb w)" and "k \<noteq> PruneDeletedTopics" and "pruneService_Initialize k settings = Inr s"
    and "positive_settings (svcSettings s)" and "\<forall>x\<in>set ts. t0 \<le> fst x \<and> fst x \<le> t1"
    and "length (prune_due k (psParams (svcSettings s)) t1 (wDb w)) <
      length ts * nat (pcMaxDelete (psParams (svcSettings s)))"
  shows "\<exists>s' w'. pruneService_Start (map quiet_tick ts) s w = Inr (s', w') \<and> wf_db (wDb w') \<and>
    prune_due k (psParams (svcSettings s)) t0 (wDb w') = []"
proof -
  have k: "svcAction s = k" using assms(3) by (auto simp: pruneService_Initialize_def Let_def elim!: bind_res_InrE)
  let ?s = "s\<lparr>svcPeriod := psBackoff (svcSettings s)\<rparr>"
  have "\<exists>s' w'. service_loop pruneService_step (map quiet_tick ts) (?s, w) = Inr (s', w') \<and> wf_db (wDb w') \<and>
      prune_due k (psParams (svcSettings s)) t0 (wDb w') = []"
    using quiet_ticks_catch_up[of w ?s ts t0 t1] assms(1,2,4,5,6) k by auto
  then show ?thesis
    using assms(4) by (simp add: pruneService_Start_def ticker_Reset_def positive_settings_def)
qed

theorem pruneService_catches_up_witness:
  "\<exists>s s' w'. pruneService_Initialize PruneExpiredDeliveries
        \<lparr>psParams = \<lparr>pcMinAge = 0, pcMaxDelete = 1\<rparr>, psInterval = 0, psFuzz = 0, psBackoff = 0\<rparr> = Inr s \<and>
     pruneService_Start (map quiet_tick [(3 * hour, 7), (4 * hour, 5), (5 * hour, 3)]) s
       \<lparr>wDb = sample_db, wNotify = init_notify\<rparr> = Inr (s', w') \<and>
     prune_due PruneExpiredDeliveries (psParams (svcSettings s)) (2 * hour) (wDb w') = []"
proof -
  let ?s = "\<lparr>svcAction = PruneExpiredDeliveries, svcSettings = \<lparr>psParams = \<lparr>pcMinAge = hour, pcMaxDelete = 1\<rparr>,
    psInterval = minute, psFuzz = 10 * second, psBackoff = 100 * millisecond\<rparr>, svcResults = None, svcPeriod = 0\<rparr>"
  let ?w = "\<lparr>wDb = sample_db, wNotify = init_notify\<rparr>"
  have init: "pruneService_Initialize PruneExpiredDeliveries
        \<lparr>psParams = \<lparr>pcMinAge = 0, pcMaxDelete = 1\<rparr>, psInterval = 0, psFuzz = 0, psBackoff = 0\<rparr> = Inr ?s"
    by (simp add: pruneService_Initialize_def PruneCommonSettings_ApplyDefaults_def or_default_def pcDefaults_def
        newPruneAction_def PruneCommonParams_Validate_def)
  have wf: "wf_db (wDb ?w)" by (simp add: wf_sample_db)
  have pos: "positive_settings (svcSettings ?s)" by (simp add: positive_settings_def)
  have times: "\<forall>x\<in>set [(3 * hour, 7), (4 * hour, 5), (5 * hour, 3)]. 2 * hour \<le> fst x \<and> fst x \<le> 5 * hour" by simp
  have due: "length (prune_due PruneExpiredDeliveries (psParams (svcSettings ?s)) (5 * hour) (wDb ?w)) <
      length [(3 * hour, 7), (4 * hour, 5), (5 * hour, 3)] * nat (pcMaxDelete (psParams (svcSettings ?s)))"
    by (simp add: sample_defs)
  show ?thesis using pruneService_catches_up[OF wf _ init pos times due] init by auto
qed

end
