(* ===== verification/Bus.thy ===== *)
theory Bus
  imports GetMessages Seek BackgroundServices
begin

text \<open>
  The whole bus as a transition system: clients and background services run their actions in
  transactions, readers come and go, in any order and with any answer of the SQL driver. The
  invariant of the database and of the notification tables holds in every reachable state, and
  with it what the components promise about each other.
\<close>

subsection \<open>The transition system\<close>

text \<open>A transaction that runs some action of the system, its result forgotten.\<close>

inductive bus_action :: "driver \<Rightarrow> world \<Rightarrow> world \<Rightarrow> bool" for drv w where
  create_topic: "bus_action drv w (snd (DoTx drv (CreateTopic_Execute i now ct) w))"
| delete_topic: "bus_action drv w (snd (DoTx drv (DeleteTopic_Execute now n) w))"
| create_subscription: "bus_action drv w (snd (DoTx drv (CreateSubscription_Execute parse i now c cs) w))"
| delete_subscription: "bus_action drv w (snd (DoTx drv (DeleteSubscription_Execute now n) w))"
| publish: "bus_action drv w (snd (DoTx drv (PublishMessage_Execute parse i newID now pm) w))"
| get_start: "bus_action drv w (snd (DoTx drv (get_start now gm) w))"
| get_pass: "bus_action drv w (snd (DoTx drv (get_pass parse ps gm) w))"
| get_final: "bus_action drv w (snd (DoTx drv (applyResults parse newID arrange gm s now ds) w))"
| ack: "bus_action drv w (snd (DoTx drv (AckDeliveries_Execute now ids) w))"
| nack: "bus_action drv w (snd (DoTx drv (NackDeliveries_Execute parse newID now ids) w))"
| delay: "bus_action drv w (snd (DoTx drv (DelayDeliveries_Execute now ids d) w))"
| dead_letter: "bus_action drv w (snd (DoTx drv (DeadLetterDeliveries_Execute parse newID now m) w))"
| seek_time: "bus_action drv w (snd (DoTx drv (SeekSubscriptionToTime_Execute now oi n t) w))"
| seek_snapshot: "bus_action drv w (snd (DoTx drv (SeekSubscriptionToSnapshot_Execute now oi n si sn) w))"
| snapshot: "bus_action drv w (snd (DoTx drv (CreateSnapshot_Execute i now cn) w))"
| prune: "bus_action drv w (snd (DoTx drv (prune_Execute k now p) w))"

inductive bus_step :: "world \<Rightarrow> world \<Rightarrow> bool" where
  action: "bus_action drv w w' \<Longrightarrow> bus_step w w'"
| listener: "notify_step (wNotify w) st \<Longrightarrow> bus_step w (w\<lparr>wNotify := st\<rparr>)"

inductive_simps bus_step_iff: "bus_step w w'"

definition initial_world :: world where
  "initial_world = \<lparr>wDb = empty_db, wNotify = init_notify\<rparr>"

lemma bus_action_wf:
  assumes "bus_action drv w w'" and "wf_world w"
  shows "wf_world w'"
  using assms
proof (cases rule: bus_action.cases)
  case (create_topic i now ct)
  then show ?thesis using create_topic.DoTx_wf[where p = "(i, now, ct)" and w = w and drv = drv] assms(2) by simp
next
  case (delete_topic now n)
  then show ?thesis using delete_topic.DoTx_wf[where p = "(now, n)" and w = w and drv = drv] assms(2) by simp
next
  case (create_subscription parse i now c cs)
  then show ?thesis
    using create_subscription.DoTx_wf[where p = "(parse, i, now, c, cs)" and w = w and drv = drv] assms(2) by simp
next
  case (delete_subscription now n)
  then show ?thesis using delete_subscription.DoTx_wf[where p = "(now, n)" and w = w and drv = drv] assms(2) by simp
next
  case (publish parse i newID now pm)
  then show ?thesis
    using publish_message.DoTx_wf[where p = "(parse, i, newID, now, pm)" and w = w and drv = drv] assms(2) by simp
next
  case (get_start now gm)
  then show ?thesis using get_start.DoTx_wf[where p = "(now, gm)" and w = w and drv = drv] assms(2) by simp
next
  case (get_pass parse ps gm)
  then show ?thesis using get_pass.DoTx_wf[where p = "(parse, ps, gm)" and w = w and drv = drv] assms(2) by simp
next
  case (get_final parse newID arrange gm s now ds)
  then show ?thesis
    using apply_results.DoTx_wf[where p = "(parse, newID, arrange, gm, s, now, ds)" and w = w and drv = drv] assms(2) by simp
next
  case (ack now ids)
  then show ?thesis using ack_deliveries.DoTx_wf[where p = "(now, ids)" and w = w and drv = drv] assms(2) by simp
next
  case (nack parse newID now ids)
  then show ?thesis
    using nack_deliveries.DoTx_wf[where p = "(parse, newID, now, ids)" and w = w and drv = drv] assms(2) by simp
next
  case (delay now ids d)
  then show ?thesis using delay_deliveries.DoTx_wf[where p = "(now, ids, d)" and w = w and drv = drv] assms(2) by simp
next
  case (dead_letter parse newID now m)
  then show ?thesis
    using dead_letter_deliveries.DoTx_wf[where p = "(parse, newID, now, m)" and w = w and drv = drv] assms(2) by simp
next
  case (seek_time now oi n t)
  then show ?thesis using seek_to_time.DoTx_wf[where p = "(now, oi, n, t)" and w = w and drv = drv] assms(2) by simp
next
  case (seek_snapshot now oi n si sn)
  then show ?thesis
    using seek_to_snapshot.DoTx_wf[where p = "(now, oi, n, si, sn)" and w = w and drv = drv] assms(2) by simp
next
  case (snapshot i now cn)
  then show ?thesis using create_snapshot.DoTx_wf[where p = "(i, now, cn)" and w = w and drv = drv] assms(2) by simp
next
  case (prune k now p)
  then show ?thesis using prune_actions.DoTx_wf[where p = "(k, now, p)" and w = w and drv = drv] assms(2) by simp
qed

lemma bus_step_wf: "bus_step w w' \<Longrightarrow> wf_world w \<Longrightarrow> wf_world w'"
  by (cases rule: bus_step.cases, assumption)
    (blast intro: bus_action_wf, simp add: wf_world_def notify_step_wf)

lemma wf_initial_world: "wf_world initial_world"
  by (simp add: wf_world_def initial_world_def wf_init_notify wf_db_def empty_db_def topics_wf_def subs_wf_def
      snapshots_wf_def all_consistent_def)

lemma bus_reachable_wf: "bus_step\<^sup>*\<^sup>* initial_world w \<Longrightarrow> wf_world w"
  by (induction rule: rtranclp_induct) (auto intro: bus_step_wf wf_initial_world)

text \<open>
  In every state that the bus can reach from an empty database, whatever the clients
  and services did, in whatever order and with whatever failures of the database: at most one live
  topic and one live subscription of a name, a row is marked deleted exactly when it is not live,
  every subscription, message, delivery and snapshot refers to rows that exist, and no waiter's
  channel was closed twice or is closed while still waited on.
\<close>

theorem bus_invariant:
  assumes "bus_step\<^sup>*\<^sup>* initial_world w"
  shows "length (live_topics n (wDb w)) \<le> 1 \<and> length (live_subs n (wDb w)) \<le> 1 \<and>
    (\<forall>t\<in>set (topics (wDb w)). (tLive t = Some True \<and> tDeletedAt t = None) \<or> (tLive t = None \<and> tDeletedAt t \<noteq> None)) \<and>
    (\<forall>s\<in>set (subscriptions (wDb w)). sTopicID s \<in> topic_ids (wDb w) \<and> opt_in (sDeadLetterTopicID s) (topic_ids (wDb w))) \<and>
    (\<forall>m\<in>set (messages (wDb w)). mTopicID m \<in> topic_ids (wDb w)) \<and>
    (\<forall>d\<in>set (deliveries (wDb w)). dMessageID d \<in> message_ids (wDb w) \<and> dSubscriptionID d \<in> sub_ids (wDb w) \<and>
       opt_in (dNotBeforeID d) (delivery_ids (wDb w))) \<and>
    (\<forall>x\<in>set (snapshots (wDb w)). nTopicID x \<in> topic_ids (wDb w)) \<and>
    wf_notify (wNotify w)"
proof -
  have wf: "wf_db (wDb w)" and nt: "wf_notify (wNotify w)" using bus_reachable_wf[OF assms] by (auto simp: wf_world_def)
  have "live_consistent (tLive t) (tDeletedAt t)" if "t \<in> set (topics (wDb w))" for t
    using wf_db_live(2)[OF wf] that by (simp add: all_consistent_def list_all_iff)
  then have "\<forall>t\<in>set (topics (wDb w)). (tLive t = Some True \<and> tDeletedAt t = None) \<or> (tLive t = None \<and> tDeletedAt t \<noteq> None)"
    by (simp add: live_consistent_def)
  then show ?thesis
    using wf nt live_subs_le_1[OF wf] live_topics_le_1[OF wf]
    by (auto simp: wf_db_def list_all_iff sub_refs_def delivery_refs_def)
qed

lemma topics_empty: "topics (empty_db\<lparr>topics := ts\<rparr>) = ts"
  by (simp add: empty_db_def)

theorem bus_invariant_witness:
  "\<exists>w. bus_step\<^sup>*\<^sup>* initial_world w \<and> live_topics ''t'' (wDb w) \<noteq> [] \<and> length (live_topics ''t'' (wDb w)) \<le> 1"
proof -
  let ?w = "snd (DoTx good_driver (CreateTopic_Execute 1 0 \<lparr>ctName = ''t'', ctLabels = Map.empty\<rparr>) initial_world)"
  have r: "bus_step\<^sup>*\<^sup>* initial_world ?w" by (rule r_into_rtranclp, rule bus_step.action, rule bus_action.create_topic)
  let ?p = "\<lparr>ctName = ''t'', ctLabels = Map.empty\<rparr> :: createTopicParams"
  have "CreateTopic_Execute 1 0 ?p (wDb initial_world) = Inr (\<lparr>ctrID = 1\<rparr>, [NotifyModifyTopic 1 ''t''],
      empty_db\<lparr>topics := [\<lparr>tID = 1, tName = ''t'', tCreatedAt = 0, tLive = Some True, tDeletedAt = None, tLabels = Map.empty\<rparr>]\<rparr>)"
    using CreateTopic_ok[OF wf_empty_db, of ?p 1 0]
    by (simp add: initial_world_def empty_db_def live_topics_def topic_ids_def)
  then have "wDb ?w = empty_db\<lparr>topics := [\<lparr>tID = 1, tName = ''t'', tCreatedAt = 0, tLive = Some True,
      tDeletedAt = None, tLabels = Map.empty\<rparr>]\<rparr>"
    by (subst DoTx_ok) (simp_all add: good_driver_def)
  then have "live_topics ''t'' (wDb ?w) \<noteq> []" unfolding live_topics_def by (simp only: topics_empty) simp
  with r bus_invariant[OF r, of "''t''"] show ?thesis by blast
qed

subsection \<open>The bus as a set of queues\<close>

text \<open>
  The abstract view: each subscription has a backlog, the deliveries that are not completed with
  their messages. Publishing enqueues, acknowledging dequeues, and moving a deadline does nothing.
\<close>

type_synonym backlog = "uuid \<Rightarrow> (uuid \<times> uuid) set"

definition backlog :: "database \<Rightarrow> backlog" where
  "backlog db s = (\<lambda>d. (dID d, dMessageID d)) ` {d \<in> set (deliveries db). dSubscriptionID d = s \<and> dCompletedAt d = None}"

definition enqueue :: "uuid \<Rightarrow> (uuid \<times> uuid) list \<Rightarrow> backlog \<Rightarrow> backlog" where
  "enqueue msg entries b s = b s \<union> {(d, msg) |d. (s, d) \<in> set entries}"

definition dequeue :: "uuid list \<Rightarrow> backlog \<Rightarrow> backlog" where
  "dequeue ids b s = {e \<in> b s. fst e \<notin> set ids}"

lemma backlog_map:
  assumes "deliveries db' = map g (deliveries db)"
    and "\<And>d. dID (g d) = dID d \<and> dMessageID (g d) = dMessageID d \<and> dSubscriptionID (g d) = dSubscriptionID d"
  shows "backlog db' s = (\<lambda>d. (dID d, dMessageID d)) ` {d \<in> set (deliveries db). dSubscriptionID d = s \<and> dCompletedAt (g d) = None}"
  using assms(2) by (force simp: backlog_def assms(1) image_iff)

lemma backlog_ack:
  assumes "AckDeliveries_Execute now ids db = Inr (r, ns, db')"
  shows "backlog db' = dequeue ids (backlog db)"
proof -
  let ?g = "\<lambda>d. if open_among ids d then set_completed now d else d"
  have "deliveries db' = map ?g (deliveries db)"
    using assms by (auto simp: AckDeliveries_Execute_def Let_def update_deliveries_def update_where_def)
  then have "backlog db' s = (\<lambda>d. (dID d, dMessageID d)) `
      {d \<in> set (deliveries db). dSubscriptionID d = s \<and> dCompletedAt (?g d) = None}" for s
    by (rule backlog_map) (simp add: set_completed_def)
  then show ?thesis by (auto simp: fun_eq_iff backlog_def dequeue_def open_among_def set_completed_def)
qed

lemma backlog_delay:
  assumes "DelayDeliveries_Execute now ids delay db = Inr (r, ns, db')"
  shows "backlog db' = backlog db"
proof -
  let ?g = "\<lambda>d. if open_among ids d \<and> (delay \<le> 0 \<or> dAttemptAt d < now + delay) then set_attemptAt (now + delay) d else d"
  have "deliveries db' = map ?g (deliveries db)"
    using assms by (auto simp: DelayDeliveries_Execute_def Let_def update_deliveries_def update_where_def)
  then have "backlog db' s = (\<lambda>d. (dID d, dMessageID d)) `
      {d \<in> set (deliveries db). dSubscriptionID d = s \<and> dCompletedAt (?g d) = None}" for s
    by (rule backlog_map) (simp add: set_attemptAt_def)
  then show ?thesis by (auto simp: fun_eq_iff backlog_def set_attemptAt_def)
qed

lemma backlog_publish:
  assumes "wf_db db" and "parse_wf parse" and "pmTopicName p \<noteq> [] \<or> pmTopicID p \<noteq> None"
    and "i \<notin> message_ids db" and "fresh_ids newID (length (subscriptions db)) db"
    and "PublishMessage_Execute parse i newID now p db = Inr (r, ns, db')"
  shows "\<exists>t\<in>set (topics db). topicMatch p t \<and>
    backlog db' = enqueue i (map (\<lambda>(j, s). (sID s, newID j)) (enumerate 0
      (filter (\<lambda>s. accepts parse s (pmAttributes p)) (topic_live_subs (tID t) db)))) (backlog db)"
proof -
  obtain t ts where t: "filter (topicMatch p) (topics db) = t # ts"
    using PublishMessage_eq[OF assms(1-5), of now] assms(6) by (cases "filter (topicMatch p) (topics db)") auto
  obtain m ds where res: "publish_result parse i newID now p t db = (m, ds, db')"
    using PublishMessage_eq[OF assms(1-5), of now] assms(6) t by (auto split: prod.splits)
  then have "deliveries db' = deliveries db @ ds" and m: "mID m = i" "mAttributes m = pmAttributes p"
    and ds: "ds = deliveries_for parse (db\<lparr>messages := messages db @ [m]\<rparr>) m now newID 0 (topic_live_subs (tID t) db)"
    by (auto simp: publish_result_def Let_def)
  then have "backlog db' = enqueue i (map (\<lambda>(j, s). (sID s, newID j)) (enumerate 0
      (filter (\<lambda>s. accepts parse s (pmAttributes p)) (topic_live_subs (tID t) db)))) (backlog db)"
    by (fastforce simp: fun_eq_iff backlog_def enqueue_def deliveries_for_def image_iff)
  moreover have "t \<in> set (topics db)" "topicMatch p t" using arg_cong[OF t, of set] by auto
  ultimately show ?thesis by blast
qed

text \<open>
  Property C2. The relational implementation refines a queue per subscription. Publishing adds one
  entry, under a new identifier, to the backlog of each live subscription of the topic whose
  filter accepts the message and to no other; acknowledging takes exactly the named entries out
  of every backlog; changing deadlines leaves all backlogs as they are.
\<close>

theorem bus_refines_queues:
  assumes "wf_db db" and "parse_wf parse" and "pmTopicName p \<noteq> [] \<or> pmTopicID p \<noteq> None"
    and "i \<notin> message_ids db" and "fresh_ids newID (length (subscriptions db)) db"
  shows "(case PublishMessage_Execute parse i newID now p db of
      Inl e \<Rightarrow> \<forall>t\<in>set (topics db). \<not> topicMatch p t
    | Inr (r, ns, db') \<Rightarrow> \<exists>t\<in>set (topics db). topicMatch p t \<and>
        backlog db' = enqueue i (map (\<lambda>(j, s). (sID s, newID j)) (enumerate 0
          (filter (\<lambda>s. accepts parse s (pmAttributes p)) (topic_live_subs (tID t) db)))) (backlog db)) \<and>
    (case AckDeliveries_Execute now ids db of
      Inl e \<Rightarrow> False
    | Inr (r, ns, db') \<Rightarrow> backlog db' = dequeue ids (backlog db)) \<and>
    (case DelayDeliveries_Execute now ids delay db of
      Inl e \<Rightarrow> False
    | Inr (r, ns, db') \<Rightarrow> backlog db' = backlog db)"
proof (intro conjI)
  show "case PublishMessage_Execute parse i newID now p db of
      Inl e \<Rightarrow> \<forall>t\<in>set (topics db). \<not> topicMatch p t
    | Inr (r, ns, db') \<Rightarrow> \<exists>t\<in>set (topics db). topicMatch p t \<and>
        backlog db' = enqueue i (map (\<lambda>(j, s). (sID s, newID j)) (enumerate 0
          (filter (\<lambda>s. accepts parse s (pmAttributes p)) (topic_live_subs (tID t) db)))) (backlog db)"
  proof (cases "PublishMessage_Execute parse i newID now p db")
    case (Inl e)
    then have "filter (topicMatch p) (topics db) = []"
      using PublishMessage_eq[OF assms, of now] by (cases "filter (topicMatch p) (topics db)") (auto split: prod.splits)
    with Inl show ?thesis by (simp add: filter_empty_conv)
  next
    case (Inr x)
    then show ?thesis using backlog_publish[OF assms] by (cases x) auto
  qed
qed (use backlog_ack backlog_delay in
    \<open>auto simp: AckDeliveries_Execute_def DelayDeliveries_Execute_def Let_def split: sum.splits\<close>)

theorem bus_refines_queues_witness:
  "case AckDeliveries_Execute 50 [31] sample_db of Inl e \<Rightarrow> False
   | Inr (r, ns, db') \<Rightarrow> backlog db' = dequeue [31] (backlog sample_db)"
proof -
  have p: "parse_wf (\<lambda>_. None)" by (simp add: parse_wf_def)
  have t: "pmTopicName \<lparr>pmTopicName = ''t'', pmTopicID = None, pmPayload = ''x'', pmAttributes = Map.empty, pmOrderKey = []\<rparr> \<noteq> [] \<or>
      pmTopicID \<lparr>pmTopicName = ''t'', pmTopicID = None, pmPayload = ''x'', pmAttributes = Map.empty, pmOrderKey = []\<rparr> \<noteq> None"
    by simp
  have i: "23 \<notin> message_ids sample_db" by (simp add: message_ids_def sample_defs)
  from bus_refines_queues[OF wf_sample_db p t i fresh_sample_ids, of 50 "[31]"] show ?thesis by simp
qed




end
