(* ===== verification/GrpcCommon.thy ===== *)
theory GrpcCommon
  imports Bus
begin

text \<open>
  What the gRPC handlers share: resource names and error mapping (\<open>services/grpc.go\<close>,
  \<open>grpc/errors.go\<close>, \<open>db/postgres/error-codes.go\<close>, \<open>internal/ps-name.go\<close>) and the construction of
  pages. A handler takes the answers of the SQL driver, the identifiers and instants it draws,
  the request and the world, and returns its response or an error with the world it leaves. The
  text of a status is its fixed part.
\<close>

subsection \<open>Status codes\<close>

definition Canceled :: int where "Canceled = 1"
definition Unknown :: int where "Unknown = 2"
definition InvalidArgument :: int where "InvalidArgument = 3"
definition DeadlineExceeded :: int where "DeadlineExceeded = 4"
definition NotFound :: int where "NotFound = 5"
definition AlreadyExists :: int where "AlreadyExists = 6"
definition Aborted :: int where "Aborted = 10"
definition Unimplemented :: int where "Unimplemented = 12"

lemmas code_defs = Canceled_def Unknown_def InvalidArgument_def DeadlineExceeded_def NotFound_def
  AlreadyExists_def Aborted_def Unimplemented_def

text \<open>\<open>errors.As\<close> for a status and for a PostgreSQL error: through the wrapping of a failed rollback.\<close>

fun status_of :: "err \<Rightarrow> int option" where
  "status_of (StatusError c m) = Some c"
| "status_of (During op e e') = status_of e'"
| "status_of e = None"

definition AsStatusError :: "err \<Rightarrow> err" where
  "AsStatusError e =
     (case e of
        StatusError c m \<Rightarrow> e
      | _ \<Rightarrow> StatusError (if errors_Is e ContextCanceled then Canceled
               else if errors_Is e ContextDeadlineExceeded then DeadlineExceeded
               else Unknown) [])"

definition isNotFound :: "err \<Rightarrow> bool" where
  "isNotFound e \<longleftrightarrow> errors_Is e EntNotFound \<or> errors_Is e ErrNotFound"

lemma AsStatusError_status: "status_of (AsStatusError e) \<noteq> None"
  by (cases e) (simp_all add: AsStatusError_def)

subsection \<open>Names\<close>

fun split_on :: "char \<Rightarrow> string \<Rightarrow> string list" where
  "split_on c [] = [[]]"
| "split_on c (x # xs) = (if x = c then [] # split_on c xs
     else (case split_on c xs of [] \<Rightarrow> [[x]] | s # ss \<Rightarrow> (x # s) # ss))"

definition isValidName :: "string \<Rightarrow> string \<Rightarrow> bool" where
  "isValidName kind name =
     (let segments = split_on CHR ''/'' name in
      length segments = 4 \<and> segments ! 0 = ''projects'' \<and> segments ! 1 \<noteq> [] \<and> segments ! 2 = kind \<and> segments ! 3 \<noteq> [])"

definition isValidTopicName :: "string \<Rightarrow> bool" where
  "isValidTopicName = isValidName ''topics''"

definition isValidSubscriptionName :: "string \<Rightarrow> bool" where
  "isValidSubscriptionName = isValidName ''subscriptions''"

definition isValidSnapshotName :: "string \<Rightarrow> bool" where
  "isValidSnapshotName = isValidName ''snapshots''"

definition projectTopicPrefix :: "string \<Rightarrow> string" where
  "projectTopicPrefix project = project @ ''/topics/''"

definition projectSubscriptionPrefix :: "string \<Rightarrow> string" where
  "projectSubscriptionPrefix project = project @ ''/subscriptions/''"

definition PSTopicName :: "string \<Rightarrow> string \<Rightarrow> string" where
  "PSTopicName project topic = ''projects/'' @ project @ ''/topics/'' @ topic"

definition PSSubName :: "string \<Rightarrow> string \<Rightarrow> string" where
  "PSSubName project sub = ''projects/'' @ project @ ''/subscriptions/'' @ sub"

lemma split_on_Cons: "\<exists>s ss. split_on c xs = s # ss"
proof (induction xs)
  case (Cons x xs)
  then show ?case by auto
qed simp

lemma split_on_plain: "c \<notin> set xs \<Longrightarrow> split_on c xs = [xs]"
  by (induction xs) auto

lemma split_on_append: "c \<notin> set xs \<Longrightarrow> split_on c (xs @ c # ys) = xs # split_on c ys"
  by (induction xs) auto

lemma split_on_join: "concat (map (\<lambda>s. s @ [c]) (split_on c xs)) = xs @ [c]"
proof (induction xs)
  case (Cons x xs)
  obtain s ss where "split_on c xs = s # ss" using split_on_Cons by blast
  with Cons show ?case by auto
qed simp

lemma split_on_no_sep: "s \<in> set (split_on c xs) \<Longrightarrow> c \<notin> set s"
proof (induction xs arbitrary: s)
  case (Cons x xs)
  obtain t ts where "split_on c xs = t # ts" using split_on_Cons by blast
  with Cons show ?case by (auto split: if_splits)
qed simp

text \<open>
  A name is valid exactly when it is built from a project and a name that are not empty and hold
  no slash.
\<close>

lemma isValidName_iff:
  assumes "CHR ''/'' \<notin> set kind"
  shows "isValidName kind name \<longleftrightarrow> (\<exists>p n. p \<noteq> [] \<and> n \<noteq> [] \<and> CHR ''/'' \<notin> set p \<and> CHR ''/'' \<notin> set n \<and>
    name = ''projects/'' @ p @ ''/'' @ kind @ ''/'' @ n)"
proof
  assume v: "isValidName kind name"
  then obtain p n where seg: "split_on CHR ''/'' name = [''projects'', p, kind, n]" and pn: "p \<noteq> []" "n \<noteq> []"
    by (auto simp: isValidName_def Let_def length_Suc_conv numeral_eq_Suc)
  have "name @ ''/'' = ''projects/'' @ p @ ''/'' @ kind @ ''/'' @ n @ ''/''"
    using split_on_join[of "CHR ''/''" name] seg by simp
  then have "name = ''projects/'' @ p @ ''/'' @ kind @ ''/'' @ n"
    by (metis (no_types, lifting) append.assoc append_same_eq)
  moreover have "CHR ''/'' \<notin> set p" "CHR ''/'' \<notin> set n" using split_on_no_sep[of _ "CHR ''/''" name] seg by auto
  ultimately show "\<exists>p n. p \<noteq> [] \<and> n \<noteq> [] \<and> CHR ''/'' \<notin> set p \<and> CHR ''/'' \<notin> set n \<and>
    name = ''projects/'' @ p @ ''/'' @ kind @ ''/'' @ n" using pn by blast
next
  assume "\<exists>p n. p \<noteq> [] \<and> n \<noteq> [] \<and> CHR ''/'' \<notin> set p \<and> CHR ''/'' \<notin> set n \<and>
    name = ''projects/'' @ p @ ''/'' @ kind @ ''/'' @ n"
  then obtain p n where pn: "p \<noteq> []" "n \<noteq> []" "CHR ''/'' \<notin> set p" "CHR ''/'' \<notin> set n"
    and name: "name = ''projects'' @ CHR ''/'' # p @ CHR ''/'' # kind @ CHR ''/'' # n" by auto
  have "split_on CHR ''/'' name = [''projects'', p, kind, n]"
    unfolding name using pn assms by (simp add: split_on_append split_on_plain del: append_Cons)
  with pn show "isValidName kind name" by (simp add: isValidName_def)
qed

subsection \<open>Pages\<close>

text \<open>
  The listing handlers share one construction: at most a hundred rows, in the order of their
  identifiers, after the row that the token names; the token of a full page names its last row.
  Reading and printing an identifier is the \<open>uuid\<close> package's.
\<close>

definition page_size :: "int \<Rightarrow> int" where
  "page_size n = (if 0 < n \<and> n < 100 then n else 100)"

definition after_token :: "(string \<Rightarrow> err + uuid) \<Rightarrow> string \<Rightarrow> (uuid \<Rightarrow> bool) res" where
  "after_token parse_uuid token =
     (if token = [] then Inr (\<lambda>_. True)
      else case parse_uuid token of
        Inl e \<Rightarrow> Inl (StatusError InvalidArgument [])
      | Inr i \<Rightarrow> Inr (\<lambda>j. i < j))"

definition list_page :: "(string \<Rightarrow> err + uuid) \<Rightarrow> (uuid \<Rightarrow> string) \<Rightarrow> ('r \<Rightarrow> uuid) \<Rightarrow> int \<Rightarrow> string \<Rightarrow> 'r list \<Rightarrow>
    ('r list \<times> string) res" where
  "list_page parse_uuid show_uuid key psize token rows =
     bind_res (after_token parse_uuid token) (\<lambda>after.
       let rs = take (nat (page_size psize)) (sort_key key (filter (\<lambda>r. after (key r)) rows)) in
       Inr (rs, if int (length rs) \<ge> page_size psize then show_uuid (key (last rs)) else []))"

text \<open>A client that follows the tokens until there is none, for at most \<open>n\<close> requests.\<close>

fun follow :: "nat \<Rightarrow> (string \<Rightarrow> ('a list \<times> string) res) \<Rightarrow> string \<Rightarrow> 'a list option" where
  "follow 0 f token = None"
| "follow (Suc n) f token =
     (case f token of
        Inl e \<Rightarrow> None
      | Inr (xs, next) \<Rightarrow> if next = [] then Some xs else map_option ((@) xs) (follow n f next))"

definition uuid_text :: "(string \<Rightarrow> err + uuid) \<Rightarrow> (uuid \<Rightarrow> string) \<Rightarrow> bool" where
  "uuid_text parse_uuid show_uuid \<longleftrightarrow> (\<forall>i. show_uuid i \<noteq> [] \<and> parse_uuid (show_uuid i) = Inr i)"

lemma page_size_pos: "0 < page_size n" "page_size n \<le> 100"
  by (auto simp: page_size_def)

lemma filter_after_nth:
  fixes key :: "'r \<Rightarrow> uuid"
  assumes "sorted (map key xs)" and "distinct (map key xs)" and "0 < k" and "k \<le> length xs"
  shows "filter (\<lambda>x. key (xs ! (k - 1)) < key x) xs = drop k xs"
proof -
  let ?ys = "take k xs" and ?zs = "drop k xs"
  let ?l = "key (xs ! (k - 1))"
  have strict: "key (xs ! i) < key (xs ! j)" if "i < j" "j < length xs" for i j
  proof -
    have "key (xs ! i) \<le> key (xs ! j)" using sorted_nth_mono[OF assms(1), of i j] that by simp
    moreover have "key (xs ! i) \<noteq> key (xs ! j)" using nth_eq_iff_index_eq[OF assms(2), of i j] that by simp
    ultimately show ?thesis by simp
  qed
  have "filter (\<lambda>x. ?l < key x) ?ys = []"
    unfolding filter_empty_conv
  proof (rule ballI)
    fix x assume "x \<in> set ?ys"
    then obtain i where i: "i < k" "x = xs ! i" "i < length xs" by (auto simp: in_set_conv_nth)
    show "\<not> ?l < key x"
    proof (cases "i = k - 1")
      case False
      with i assms(3,4) have "i < k - 1" "k - 1 < length xs" by auto
      from strict[OF this] show ?thesis using i(2) by simp
    qed (use i in simp)
  qed
  moreover have "filter (\<lambda>x. ?l < key x) ?zs = ?zs"
  proof (rule filter_True, intro ballI)
    fix x assume "x \<in> set ?zs"
    then obtain i where "i < length xs - k" "x = xs ! (k + i)" by (auto simp: in_set_conv_nth)
    then show "?l < key x" using strict[of "k - 1" "k + i"] assms(3,4) by simp
  qed
  ultimately show ?thesis by (metis append_take_drop_id filter_append append_Nil)
qed

lemma follow_pages_after:
  assumes "uuid_text parse_uuid show_uuid" and "distinct (map key rows)"
    and "after_token parse_uuid token = Inr P" and "\<And>i j. P i \<Longrightarrow> i < j \<Longrightarrow> P j"
    and "length (filter (\<lambda>r. P (key r)) rows) < n"
  shows "follow n (\<lambda>t. list_page parse_uuid show_uuid key psize t rows) token =
    Some (sort_key key (filter (\<lambda>r. P (key r)) rows))"
  using assms(3-5)
proof (induction n arbitrary: token P)
  case (Suc n)
  let ?k = "nat (page_size psize)"
  let ?xs = "sort_key key (filter (\<lambda>r. P (key r)) rows)"
  have k: "0 < ?k" using page_size_pos(1)[of psize] by simp
  show ?case
  proof (cases "?k \<le> length ?xs")
    case False
    then have "list_page parse_uuid show_uuid key psize token rows = Inr (?xs, [])"
      using Suc.prems(1) k by (simp add: list_page_def Let_def)
    then show ?thesis by simp
  next
    case True
    let ?l = "key (?xs ! (?k - 1))"
    let ?Q = "\<lambda>j. ?l < j"
    have len: "length (take ?k ?xs) = ?k" using True by simp
    have "take ?k ?xs \<noteq> []" using len k by (metis list.size(3) not_less_zero)
    then have "last (take ?k ?xs) = ?xs ! (?k - 1)" using last_conv_nth[of "take ?k ?xs"] len k by simp
    then have page: "list_page parse_uuid show_uuid key psize token rows = Inr (take ?k ?xs, show_uuid ?l)"
      using Suc.prems(1) len page_size_pos(1)[of psize] by (simp add: list_page_def Let_def)
    have dist: "distinct (map key ?xs)" using assms(2) by (simp add: distinct_map_sort_key distinct_map_filter)
    have "P ?l"
    proof -
      have "?xs ! (?k - 1) \<in> set ?xs" using True k by (intro nth_mem) simp
      then show ?thesis by simp
    qed
    have "filter (\<lambda>r. ?Q (key r)) rows = filter (\<lambda>r. ?Q (key r)) (filter (\<lambda>r. P (key r)) rows)"
      unfolding filter_filter
      by (rule filter_cong[OF refl]) (rule iffI, rule conjI, erule Suc.prems(2)[OF \<open>P ?l\<close>], assumption, erule conjunct2)
    then have rest: "sort_key key (filter (\<lambda>r. ?Q (key r)) rows) = drop ?k ?xs"
      using filter_after_nth[OF sorted_sort_key dist k True] by (simp only: filter_sort)
    have "length (filter (\<lambda>r. ?Q (key r)) rows) < n"
      using Suc.prems(3) arg_cong[OF rest, of length] k True by simp
    moreover have "after_token parse_uuid (show_uuid ?l) = Inr ?Q"
      using assms(1) by (simp add: after_token_def uuid_text_def)
    ultimately have "follow n (\<lambda>t. list_page parse_uuid show_uuid key psize t rows) (show_uuid ?l) = Some (drop ?k ?xs)"
      using Suc.IH[of "show_uuid ?l" ?Q] rest by simp
    moreover have "show_uuid ?l \<noteq> []" using assms(1) by (simp add: uuid_text_def)
    ultimately show ?thesis using page by simp
  qed
qed simp

text \<open>All rows, once each, in the order of their identifiers.\<close>

lemma follow_pages:
  assumes "uuid_text parse_uuid show_uuid" and "distinct (map key rows)" and "length rows < n"
  shows "follow n (\<lambda>t. list_page parse_uuid show_uuid key psize t rows) [] = Some (sort_key key rows)"
  using follow_pages_after[OF assms(1,2), of "[]" "\<lambda>_. True" n psize] assms(3) by (simp add: after_token_def)

lemma list_page_length:
  "list_page parse_uuid show_uuid key psize token rows = Inr (rs, next) \<Longrightarrow> length rs \<le> 100"
  using page_size_pos[of psize] by (auto simp: list_page_def Let_def bind_res_Inr_iff)

lemma follow_map:
  "follow n (\<lambda>t. map_sum id (map_prod (map g) id) (f t)) token = map_option (map g) (follow n f token)"
  by (induction n arbitrary: token) (auto split: sum.splits simp: option.map_comp comp_def)

subsection \<open>The interface of the listing handlers\<close>

definition drv_ok :: "driver \<Rightarrow> bool" where
  "drv_ok drv \<longleftrightarrow> drvBegin drv = None \<and> drvCommit drv = None \<and> drvRollback drv = None"

text \<open>
  What a listing handler promises: on a request that it accepts it leaves the world as it is, and
  its answer is the page of the rows that the request asks for, converted one by one.
\<close>

locale paged_listing =
  fixes handler :: "(string \<Rightarrow> err + uuid) \<Rightarrow> (uuid \<Rightarrow> string) \<Rightarrow> driver \<Rightarrow> 'q \<Rightarrow> int \<Rightarrow> string \<Rightarrow> world \<Rightarrow>
      ('a list \<times> string) res \<times> world"
    and valid :: "'q \<Rightarrow> database \<Rightarrow> bool"
    and rows :: "'q \<Rightarrow> database \<Rightarrow> 'r list"
    and key :: "'r \<Rightarrow> uuid"
    and item :: "database \<Rightarrow> 'r \<Rightarrow> 'a"
  assumes handler_page: "valid q (wDb w) \<Longrightarrow> drv_ok drv \<Longrightarrow>
      handler parse_uuid show_uuid drv q psize token w =
        (map_sum id (map_prod (map (item (wDb w))) id) (list_page parse_uuid show_uuid key psize token (rows q (wDb w))), w)"
    and keys_distinct: "wf_db db \<Longrightarrow> distinct (map key (rows q db))"
begin

lemma follow_complete:
  assumes "uuid_text parse_uuid show_uuid" and "wf_db (wDb w)" and "valid q (wDb w)" and "drv_ok drv"
    and "length (rows q (wDb w)) < n"
  shows "follow n (\<lambda>t. fst (handler parse_uuid show_uuid drv q psize t w)) [] =
    Some (map (item (wDb w)) (sort_key key (rows q (wDb w))))"
proof -
  have "(\<lambda>t. fst (handler parse_uuid show_uuid drv q psize t w)) =
      (\<lambda>t. map_sum id (map_prod (map (item (wDb w))) id) (list_page parse_uuid show_uuid key psize t (rows q (wDb w))))"
    using handler_page[OF assms(3,4)] by simp
  then show ?thesis
    using follow_pages[OF assms(1) keys_distinct[OF assms(2)] assms(5)] by (simp add: follow_map)
qed

lemma page_bounded:
  assumes "valid q (wDb w)" and "drv_ok drv"
    and "handler parse_uuid show_uuid drv q psize token w = (Inr (xs, next), w')"
  shows "length xs \<le> 100 \<and> w' = w"
proof -
  let ?p = "list_page parse_uuid show_uuid key psize token (rows q (wDb w))"
  have h: "map_sum id (map_prod (map (item (wDb w))) id) ?p = Inr (xs, next)" "w' = w"
    using handler_page[OF assms(1,2), of parse_uuid show_uuid psize token] assms(3) by simp_all
  then obtain rs where "?p = Inr (rs, next)" "xs = map (item (wDb w)) rs" by (cases ?p) auto
  then show ?thesis using h(2) list_page_length[of parse_uuid show_uuid key psize token] by simp
qed

end

text \<open>A transaction that only reads.\<close>

lemma DoTx_read:
  assumes "drv_ok drv" and "inner (wDb w) = map_sum id (\<lambda>x. (g x, [], wDb w)) r" and "\<And>e. r = Inl e \<Longrightarrow> \<not> is_panic e"
  shows "DoTx drv inner w = (map_sum id g r, w)"
  using assms by (cases r) (simp_all add: DoTx_def drv_ok_def finish_error_def)

lemma bind_res_Inr_map: "bind_res r (\<lambda>x. Inr (g x)) = map_sum id g r"
  by (cases r) simp_all

lemma list_page_no_panic: "list_page parse_uuid show_uuid key psize token rows = Inl e \<Longrightarrow> \<not> is_panic e"
  by (auto simp: list_page_def after_token_def bind_res_def Let_def split: if_splits sum.splits)

text \<open>A concrete way to print identifiers, in unary, for the witnesses.\<close>

definition unary_show :: "uuid \<Rightarrow> string" where
  "unary_show i = replicate (Suc (unat i)) CHR ''1''"

definition unary_parse :: "string \<Rightarrow> err + uuid" where
  "unary_parse s = Inr (of_nat (length s - 1))"

lemma uuid_text_unary: "uuid_text unary_parse unary_show"
  by (simp add: uuid_text_def unary_show_def unary_parse_def)

subsection \<open>Transactions of handlers\<close>

lemma wf_DoTx:
  assumes "wf_world w" and "\<And>r ns db'. inner (wDb w) = Inr (r, ns, db') \<Longrightarrow> wf_db db'"
  shows "wf_world (snd (DoTx drv inner w))"
  using assms
  by (cases "drvBegin drv"; cases "drvCommit drv"; cases "inner (wDb w)")
    (auto simp: DoTx_def run_commit_ok run_commit_failed wf_world_def wf_fold_notices)

lemma wf_worldD: "wf_world w \<Longrightarrow> wf_db (wDb w)"
  by (simp add: wf_world_def)

end
