(* ===== verification/JsRuntime.thy ===== *)
theory JsRuntime
  imports Prelude
begin

text \<open>
  What the JavaScript and TypeScript parts of the repository use of the language: object
  literals with spread and duplicate keys, promises that settle once, \<open>Promise.all\<close>, and an
  \<open>async\<close> function as a program that alternates between running to its next \<open>await\<close> and being
  resumed by the event loop.
\<close>

subsection \<open>Values\<close>

text \<open>
  A number is an integer or a quotient of two (the programs print averages and compute with
  nothing else); \<open>JExt\<close> is a value that an imported library provides, by its path.
\<close>

datatype jsvalue =
    JUndefined
  | JNull
  | JBool bool
  | JNum int
  | JQuot int int
  | JStr string
  | JArr "jsvalue list"
  | JObj "(string \<times> jsvalue) list"
  | JDate int
  | JExt string

text \<open>
  Defining a property that is already there replaces its value and keeps its position.
\<close>

fun js_define :: "string \<Rightarrow> jsvalue \<Rightarrow> (string \<times> jsvalue) list \<Rightarrow> (string \<times> jsvalue) list" where
  "js_define k v [] = [(k, v)]"
| "js_define k v ((k', v') # ps) = (if k' = k then (k, v) # ps else (k', v') # js_define k v ps)"

datatype js_member = Prop string jsvalue | Spread jsvalue

fun js_entries :: "jsvalue \<Rightarrow> (string \<times> jsvalue) list" where
  "js_entries (JObj ps) = ps"
| "js_entries v = []"

fun js_member_apply :: "js_member \<Rightarrow> (string \<times> jsvalue) list \<Rightarrow> (string \<times> jsvalue) list" where
  "js_member_apply (Prop k v) ps = js_define k v ps"
| "js_member_apply (Spread v) ps = fold (\<lambda>(k, x). js_define k x) (js_entries v) ps"

definition js_object :: "js_member list \<Rightarrow> jsvalue" where
  "js_object ms = JObj (fold js_member_apply ms [])"

text \<open>Optional chaining: a missing property, or a property of nothing, is \<open>undefined\<close>.\<close>

definition js_get :: "jsvalue \<Rightarrow> string \<Rightarrow> jsvalue" where
  "js_get v k = (case map_of (js_entries v) k of Some x \<Rightarrow> x | None \<Rightarrow> JUndefined)"

lemma map_of_js_define: "map_of (js_define k v ps) = (map_of ps)(k \<mapsto> v)"
  by (induction k v ps rule: js_define.induct) auto

lemma keys_js_define: "map fst (js_define k v ps) = (if k \<in> fst ` set ps then map fst ps else map fst ps @ [k])"
  by (induction k v ps rule: js_define.induct) auto

lemma distinct_js_define: "distinct (map fst ps) \<Longrightarrow> distinct (map fst (js_define k v ps))"
  by (auto simp: keys_js_define)

lemma distinct_fold_define: "distinct (map fst ps) \<Longrightarrow> distinct (map fst (fold (\<lambda>(k, x). js_define k x) es ps))"
  by (induction es arbitrary: ps) (auto intro: distinct_js_define)

text \<open>An object literal never has a key twice; a later member wins.\<close>

lemma js_object_keys_distinct: "distinct (map fst (js_entries (js_object ms)))"
proof -
  have "distinct (map fst ps) \<Longrightarrow> distinct (map fst (fold js_member_apply ms ps))" for ps
  proof (induction ms arbitrary: ps)
    case (Cons m ms)
    then show ?case by (cases m) (auto intro!: Cons.IH distinct_js_define distinct_fold_define)
  qed simp
  then show ?thesis by (simp add: js_object_def)
qed

lemma js_get_last: "js_get (js_object (ms @ [Prop k v])) k' = (if k' = k then v else js_get (js_object ms) k')"
  by (simp add: js_get_def js_object_def map_of_js_define)

subsection \<open>Promises\<close>

datatype 'e promise = Pending | Fulfilled | Rejected 'e

fun settle :: "'e promise \<Rightarrow> 'e promise \<Rightarrow> 'e promise" where
  "settle to Pending = to"
| "settle to p = p"

text \<open>
  \<open>Promise.all\<close> of two promises, after one of them may have settled: the first rejection wins, and
  it is fulfilled when both are.
\<close>

fun all_after :: "'e promise \<Rightarrow> 'e promise \<Rightarrow> 'e promise \<Rightarrow> 'e promise" where
  "all_after Pending (Rejected e) q = Rejected e"
| "all_after Pending p (Rejected e) = Rejected e"
| "all_after Pending Fulfilled Fulfilled = Fulfilled"
| "all_after a p q = a"

lemma settle_settled [simp]: "p \<noteq> Pending \<Longrightarrow> settle to p = p"
  by (cases p) auto

lemma settle_Rejected_iff: "settle Fulfilled p = Rejected e \<longleftrightarrow> p = Rejected e"
  by (cases p) auto

lemma all_after_cases:
  "all_after a p q = Fulfilled \<longleftrightarrow> a = Fulfilled \<or> (a = Pending \<and> p = Fulfilled \<and> q = Fulfilled)"
  by (cases "(a, p, q)" rule: all_after.cases) auto

subsection \<open>Asynchronous functions\<close>

text \<open>
  \<open>Do\<close> runs synchronous code, \<open>Await\<close> calls a library function that returns a promise and
  suspends until the reply, \<open>AwaitUntil\<close> suspends until a promise of the program itself has
  settled. A reply is the value of a fulfilled promise or the error of a rejected one.
\<close>

datatype client_error = ClientError int string

type_synonym reply = "client_error + jsvalue"

datatype ('s, 'c) main =
    Do "'s \<Rightarrow> 's" "('s, 'c) main"
  | Await "'s \<Rightarrow> 'c" "reply \<Rightarrow> ('s, 'c) main"
  | AwaitUntil "'s \<Rightarrow> reply option" "reply \<Rightarrow> ('s, 'c) main"
  | Finish

fun run_main :: "('s, 'c) main \<Rightarrow> 's \<Rightarrow> 's \<times> ('s, 'c) main" where
  "run_main (Do f m) s = run_main m (f s)"
| "run_main m s = (s, m)"

text \<open>\<open>await\<close> of a call inside and outside of a \<open>try\<close>: the error continuation is the handler.\<close>

definition await_call :: "('s \<Rightarrow> 'c) \<Rightarrow> (client_error \<Rightarrow> ('s, 'c) main) \<Rightarrow> (jsvalue \<Rightarrow> ('s, 'c) main) \<Rightarrow> ('s, 'c) main" where
  "await_call c err ok = Await c (\<lambda>r. case r of Inl e \<Rightarrow> err e | Inr v \<Rightarrow> ok v)"

definition await_promise :: "('s \<Rightarrow> client_error promise) \<Rightarrow> (client_error \<Rightarrow> ('s, 'c) main) \<Rightarrow> ('s, 'c) main \<Rightarrow> ('s, 'c) main" where
  "await_promise p err ok =
     AwaitUntil (\<lambda>s. case p s of Pending \<Rightarrow> None | Fulfilled \<Rightarrow> Some (Inr JUndefined) | Rejected e \<Rightarrow> Some (Inl e))
       (\<lambda>r. case r of Inl e \<Rightarrow> err e | Inr _ \<Rightarrow> ok)"

text \<open>
  The two ways in which the event loop resumes a suspended function. \<open>None\<close> means that it is not
  waiting for that.
\<close>

fun answer :: "reply \<Rightarrow> 's \<times> ('s, 'c) main \<Rightarrow> ('s \<times> ('s, 'c) main) option" where
  "answer r (s, Await c k) = Some (run_main (k r) s)"
| "answer r (s, m) = None"

fun resume :: "'s \<times> ('s, 'c) main \<Rightarrow> ('s \<times> ('s, 'c) main) option" where
  "resume (s, AwaitUntil p k) = (case p s of None \<Rightarrow> None | Some r \<Rightarrow> Some (run_main (k r) s))"
| "resume (s, m) = None"

text \<open>Running to the next \<open>await\<close> never stops in front of synchronous code.\<close>

lemma run_main_suspended: "snd (run_main m s) \<noteq> Do f m'"
  by (induction m s rule: run_main.induct) auto

subsection \<open>Strings\<close>

text \<open>Decimal notation of an integer and \<open>substr(2)\<close>.\<close>

fun digits :: "nat \<Rightarrow> string" where
  "digits n = (if n < 10 then [char_of (48 + n)] else digits (n div 10) @ [char_of (48 + n mod 10)])"

declare digits.simps [simp del]

definition num_toString :: "int \<Rightarrow> string" where
  "num_toString i = (if i < 0 then CHR ''-'' # digits (nat (- i)) else digits (nat i))"

definition substr :: "nat \<Rightarrow> string \<Rightarrow> string" where
  "substr n s = drop n s"

subsection \<open>The client library\<close>

text \<open>
  The calls that the compatibility scripts make to \<open>@google-cloud/pubsub\<close>, by the names of their
  topics and subscriptions, and the lines they print. \<open>DeleteBoth\<close> is the \<open>Promise.all\<close> of the two
  deletions.
\<close>

datatype client_call =
    GetTopics
  | GetSubscriptions
  | ClientCreateTopic string
  | TopicGet string jsvalue
  | TopicSetMetadata string jsvalue
  | SubscriptionGet string string jsvalue
  | SubscriptionSetMetadata string jsvalue
  | TopicPublishMessage string jsvalue
  | SubscriptionDelete string
  | TopicDelete string
  | DeleteBoth string string
  | SubscriptionClose string
  | PubSubClose

datatype console_line =
    ConsoleLog "jsvalue list"
  | ConsoleLogError client_error
  | ConsoleError client_error

subsection \<open>What synchronous code keeps\<close>

text \<open>Every piece of synchronous code of a program keeps \<open>P\<close>; then so does every run to an \<open>await\<close>.\<close>

primrec main_keeps :: "('s \<Rightarrow> bool) \<Rightarrow> ('s, 'c) main \<Rightarrow> bool" where
  "main_keeps P (Do f m) = ((\<forall>s. P s \<longrightarrow> P (f s)) \<and> main_keeps P m)"
| "main_keeps P (Await c k) = (\<forall>r. main_keeps P (k r))"
| "main_keeps P (AwaitUntil p k) = (\<forall>r. main_keeps P (k r))"
| "main_keeps P Finish = True"

lemma main_keeps_run:
  "main_keeps P m \<Longrightarrow> P s \<Longrightarrow> P (fst (run_main m s)) \<and> main_keeps P (snd (run_main m s))"
  by (induction m s rule: run_main.induct) auto

lemma main_keeps_answer:
  assumes "main_keeps P m" and "P s" and "answer r (s, m) = Some c"
  shows "P (fst c) \<and> main_keeps P (snd c)"
  using assms main_keeps_run[of P _ s] by (cases m) auto

lemma main_keeps_resume:
  assumes "main_keeps P m" and "P s" and "resume (s, m) = Some c"
  shows "P (fst c) \<and> main_keeps P (snd c)"
  using assms main_keeps_run[of P _ s] by (cases m) (auto split: option.splits)

lemma main_keeps_await [simp]:
  "main_keeps P (await_call c err ok) \<longleftrightarrow> (\<forall>e. main_keeps P (err e)) \<and> (\<forall>v. main_keeps P (ok v))"
  "main_keeps P (await_promise p err ok') \<longleftrightarrow> (\<forall>e. main_keeps P (err e)) \<and> main_keeps P ok'"
  by (auto simp: await_call_def await_promise_def split: sum.splits)

subsection \<open>Dates\<close>

text \<open>
  \<open>Date.prototype.toISOString\<close> on milliseconds since 1970: the proleptic Gregorian date of the day
  and the time of day, for the years that print with four digits.
\<close>

definition civil_from_days :: "int \<Rightarrow> int \<times> int \<times> int" where
  "civil_from_days d =
     (let z = d + 719468;
          era = z div 146097;
          doe = z mod 146097;
          yoe = (doe - doe div 1460 + doe div 36524 - doe div 146096) div 365;
          doy = doe - (365 * yoe + yoe div 4 - yoe div 100);
          mp = (5 * doy + 2) div 153;
          day = doy - (153 * mp + 2) div 5 + 1;
          mon = (if mp < 10 then mp + 3 else mp - 9)
      in (yoe + era * 400 + (if mon \<le> 2 then 1 else 0), mon, day))"

definition pad :: "nat \<Rightarrow> int \<Rightarrow> string" where
  "pad n i = (let s = num_toString i in replicate (n - length s) CHR ''0'' @ s)"

definition toISOString :: "int \<Rightarrow> string" where
  "toISOString ms =
     (let (y, mo, d) = civil_from_days (ms div 86400000); t = ms mod 86400000 in
      pad 4 y @ ''-'' @ pad 2 mo @ ''-'' @ pad 2 d @ ''T'' @ pad 2 (t div 3600000) @ '':'' @
      pad 2 (t div 60000 mod 60) @ '':'' @ pad 2 (t div 1000 mod 60) @ ''.'' @ pad 3 (t mod 1000) @ ''Z'')"

end
