(* ===== verification/TsStress.thy ===== *)
theory TsStress
  imports JsRuntime
begin

text \<open>
  The stress test of the TypeScript client, \<open>internal/ts-compat/src/stress.ts\<close>: it publishes
  \<open>numMessages\<close> messages through the client library, acknowledges what arrives, and ends when all
  have been sent and as many have been received, or on the first error; then it deletes what it
  created. The library's replies and the messages and errors it emits are events; \<open>stress_handle\<close>
  is the reaction to one of them, \<open>None\<close> when it cannot happen in that state. The number of
  messages is an argument, 5000 in the script.
\<close>

definition numMessages :: nat where
  "numMessages = 5000"

record stress_state =
  stEnvHost :: string
  stProject :: string
  stClock :: int
  stConsole :: "console_line list"
  stCalls :: "client_call list"
  stOptions :: jsvalue
  stListening :: bool
  stNumSent :: nat
  stNumReceived :: nat
  stStart :: int
  stWaiting :: nat
  stInFlight :: nat
  stPublishP :: "client_error promise"
  stDoneP :: "client_error promise"
  stAllP :: "client_error promise"
  stAcked :: "string list"

definition stress_init :: "int \<Rightarrow> stress_state" where
  "stress_init now = \<lparr>stEnvHost = [], stProject = [], stClock = now, stConsole = [], stCalls = [],
     stOptions = JUndefined, stListening = False, stNumSent = 0, stNumReceived = 0, stStart = 0,
     stWaiting = 0, stInFlight = 0, stPublishP = Pending, stDoneP = Pending, stAllP = Pending, stAcked = []\<rparr>"

definition stress_log :: "console_line \<Rightarrow> stress_state \<Rightarrow> stress_state" where
  "stress_log l s = s\<lparr>stConsole := stConsole s @ [l]\<rparr>"

subsection \<open>The main routine\<close>

type_synonym stress_main = "(stress_state, client_call) main"

definition autoCreate :: jsvalue where
  "autoCreate = js_object [Prop ''autoCreate'' (JBool True)]"

definition stress_metadata :: jsvalue where
  "stress_metadata = js_object
     [Prop ''enableMessageOrdering'' (JBool False),
      Prop ''retryPolicy'' (js_object
        [Prop ''minimumBackoff'' (js_object [Prop ''seconds'' (JNum 1), Prop ''nanos'' (JNum 500000000)])])]"

definition stress_options :: jsvalue where
  "stress_options = js_object [Prop ''flowControl'' (js_object [Prop ''maxMessages'' (JNum 20)])]"

text \<open>An error that leaves \<open>main\<close> is logged by the \<open>catch\<close> at the bottom of the script.\<close>

definition stress_fail :: "client_error \<Rightarrow> stress_main" where
  "stress_fail e = Do (stress_log (ConsoleLogError e)) Finish"

definition stress_start :: "nat \<Rightarrow> stress_state \<Rightarrow> stress_state" where
  "stress_start n s = s\<lparr>stOptions := stress_options, stListening := True, stStart := stClock s, stWaiting := n\<rparr>"

definition stress_took :: "nat \<Rightarrow> stress_state \<Rightarrow> stress_state" where
  "stress_took n s =
     (let duration = stClock s - stStart s in
      stress_log (ConsoleLog [JQuot duration (int n), JStr ''ms/msg''])
        (stress_log (ConsoleLog [JStr ''took'', JNum duration, JStr ''ms'']) s))"

definition stress_finally :: "nat \<Rightarrow> string \<Rightarrow> stress_main" where
  "stress_finally n i =
     await_call (\<lambda>_. DeleteBoth i i) stress_fail (\<lambda>_.
     Do (\<lambda>s. stress_log (ConsoleLog [JStr ''done'', JNum (int n), JNum (int (stNumSent s)), JNum (int (stNumReceived s))]) s)
     Finish)"

definition stress_await_all :: "nat \<Rightarrow> string \<Rightarrow> stress_main" where
  "stress_await_all n i =
     await_promise stAllP
       (\<lambda>e. Do (stress_log (ConsoleError e)) (stress_finally n i))
       (Do (stress_took n) (stress_finally n i))"

definition stress_configure :: "nat \<Rightarrow> string \<Rightarrow> stress_main" where
  "stress_configure n i =
     await_call (\<lambda>_. SubscriptionSetMetadata i stress_metadata) stress_fail (\<lambda>_.
     Do (stress_start n) (stress_await_all n i))"

definition stress_subscribe :: "nat \<Rightarrow> string \<Rightarrow> stress_main" where
  "stress_subscribe n i =
     await_call (\<lambda>_. SubscriptionGet i i autoCreate) stress_fail (\<lambda>_. stress_configure n i)"

definition stress_topic :: "nat \<Rightarrow> string \<Rightarrow> stress_main" where
  "stress_topic n i = await_call (\<lambda>_. TopicGet i autoCreate) stress_fail (\<lambda>_. stress_subscribe n i)"

definition stress_id :: "string \<Rightarrow> string" where
  "stress_id random = ''ts-stress-'' @ substr 2 random"

definition stress_main :: "nat \<Rightarrow> string \<Rightarrow> stress_main" where
  "stress_main n random =
     Do (\<lambda>s. s\<lparr>stEnvHost := ''localhost:8802'', stProject := ''ts-compat''\<rparr>)
       (stress_topic n (stress_id random))"

subsection \<open>The handlers\<close>

text \<open>\<open>Promise.all\<close> sees the promises it waits for after each event.\<close>

definition stress_settle :: "stress_state \<Rightarrow> stress_state" where
  "stress_settle s = s\<lparr>stAllP := all_after (stAllP s) (stPublishP s) (stDoneP s)\<rparr>"

definition stress_on_error :: "client_error \<Rightarrow> stress_state \<Rightarrow> stress_state" where
  "stress_on_error e s = stress_settle (s\<lparr>stDoneP := settle (Rejected e) (stDoneP s)\<rparr>)"

definition stress_on_message :: "nat \<Rightarrow> string \<Rightarrow> stress_state \<Rightarrow> stress_state" where
  "stress_on_message n msg s =
     (let s1 = s\<lparr>stNumReceived := stNumReceived s + 1, stAcked := stAcked s @ [msg]\<rparr>; k = stNumReceived s1 in
      if k \<ge> n then
        stress_settle ((stress_log (ConsoleLog [JStr ''all received'']) s1)\<lparr>stDoneP := settle Fulfilled (stDoneP s1)\<rparr>)
      else if k mod 1000 = 0 then
        stress_log (ConsoleLog [JStr ''received'', JNum (int k), JQuot (stClock s1 - stStart s1) (int k), JStr ''ms/msg'']) s1
      else s1)"

text \<open>One of the publishing tasks: its start, and what follows its \<open>await\<close> of the library.\<close>

definition stress_task_start :: "stress_state \<Rightarrow> stress_state" where
  "stress_task_start s = s\<lparr>stWaiting := stWaiting s - 1, stInFlight := stInFlight s + 1\<rparr>"

definition stress_published :: "nat \<Rightarrow> stress_state \<Rightarrow> stress_state" where
  "stress_published n s =
     (let s1 = s\<lparr>stInFlight := stInFlight s - 1, stNumSent := stNumSent s + 1\<rparr>; k = stNumSent s1;
          s2 = (if k \<ge> n then stress_log (ConsoleLog [JStr ''all sent'']) s1
                else if k mod 1000 = 0 then stress_log (ConsoleLog [JStr ''sent'', JNum (int k)]) s1
                else s1)
      in stress_settle (if k = n then s2\<lparr>stPublishP := settle Fulfilled (stPublishP s2)\<rparr> else s2))"

definition stress_publish_failed :: "client_error \<Rightarrow> stress_state \<Rightarrow> stress_state" where
  "stress_publish_failed e s =
     stress_settle (s\<lparr>stInFlight := stInFlight s - 1, stPublishP := settle (Rejected e) (stPublishP s)\<rparr>)"

datatype stress_event =
    Answer reply
  | Resume
  | Advance nat
  | TaskStart
  | Published
  | PublishFailed client_error
  | Message string
  | SubError client_error

fun stress_handle :: "nat \<Rightarrow> stress_event \<Rightarrow> stress_state \<times> stress_main \<Rightarrow> (stress_state \<times> stress_main) option" where
  "stress_handle n (Answer r) (s, m) =
     (case m of Await c k \<Rightarrow> answer r (s\<lparr>stCalls := stCalls s @ [c s]\<rparr>, m) | _ \<Rightarrow> None)"
| "stress_handle n Resume (s, m) = resume (s, m)"
| "stress_handle n (Advance d) (s, m) = Some (s\<lparr>stClock := stClock s + int d\<rparr>, m)"
| "stress_handle n TaskStart (s, m) = (if 0 < stWaiting s then Some (stress_task_start s, m) else None)"
| "stress_handle n Published (s, m) = (if 0 < stInFlight s then Some (stress_published n s, m) else None)"
| "stress_handle n (PublishFailed e) (s, m) =
     (if 0 < stInFlight s then Some (stress_publish_failed e s, m) else None)"
| "stress_handle n (Message msg) (s, m) = (if stListening s then Some (stress_on_message n msg s, m) else None)"
| "stress_handle n (SubError e) (s, m) = (if stListening s then Some (stress_on_error e s, m) else None)"

inductive stress_reach :: "nat \<Rightarrow> string \<Rightarrow> stress_state \<times> stress_main \<Rightarrow> bool" for n random where
  start: "stress_reach n random (run_main (stress_main n random) (stress_init now))"
| step: "stress_reach n random c \<Longrightarrow> stress_handle n e c = Some c' \<Longrightarrow> stress_reach n random c'"

fun stress_run :: "nat \<Rightarrow> stress_event list \<Rightarrow> stress_state \<times> stress_main \<Rightarrow> (stress_state \<times> stress_main) option" where
  "stress_run n [] c = Some c"
| "stress_run n (e # es) c = (case stress_handle n e c of None \<Rightarrow> None | Some c' \<Rightarrow> stress_run n es c')"

lemma stress_run_reach: "stress_reach n random c \<Longrightarrow> stress_run n es c = Some c' \<Longrightarrow> stress_reach n random c'"
  by (induction es arbitrary: c) (auto split: option.splits intro: stress_reach.step)

subsection \<open>The invariant\<close>

definition took_logged :: "stress_state \<Rightarrow> bool" where
  "took_logged s \<longleftrightarrow> list_ex (\<lambda>l. case l of ConsoleLog (JStr w # _) \<Rightarrow> w = ''took'' | _ \<Rightarrow> False) (stConsole s)"

definition times_logged :: "string \<Rightarrow> stress_state \<Rightarrow> nat" where
  "times_logged w s = length (filter (\<lambda>l. l = ConsoleLog [JStr w]) (stConsole s))"

definition stress_inv :: "nat \<Rightarrow> stress_state \<Rightarrow> bool" where
  "stress_inv n s \<longleftrightarrow>
     (\<not> stListening s \<longrightarrow> stNumSent s = 0 \<and> stNumReceived s = 0 \<and> stWaiting s = 0 \<and> stInFlight s = 0 \<and>
        stPublishP s = Pending \<and> stDoneP s = Pending) \<and>
     stNumSent s + stInFlight s + stWaiting s \<le> n \<and>
     (stPublishP s = Fulfilled \<longleftrightarrow> stNumSent s = n) \<and>
     (\<forall>e. stPublishP s = Rejected e \<longrightarrow> stNumSent s + stInFlight s + stWaiting s < n) \<and>
     (stDoneP s = Fulfilled \<longrightarrow> n \<le> stNumReceived s) \<and> (stDoneP s = Pending \<longrightarrow> stNumReceived s < n) \<and>
     (stAllP s = Fulfilled \<longrightarrow> stPublishP s = Fulfilled \<and> stDoneP s = Fulfilled) \<and>
     (\<forall>e. stAllP s = Rejected e \<longrightarrow> stPublishP s = Rejected e \<or> stDoneP s = Rejected e) \<and>
     (stAllP s = Pending \<longrightarrow> (stPublishP s = Pending \<and> stDoneP s \<in> {Pending, Fulfilled}) \<or>
        (stPublishP s = Fulfilled \<and> stDoneP s = Pending)) \<and>
     length (stAcked s) = stNumReceived s \<and>
     (took_logged s \<longrightarrow> stAllP s = Fulfilled) \<and>
     times_logged ''all sent'' s = (if stNumSent s = n then 1 else 0) \<and>
     times_logged ''all received'' s = stNumReceived s + 1 - n"

lemmas stress_defs = stress_log_def took_logged_def times_logged_def stress_settle_def

text \<open>Lines that say none of the three things.\<close>

definition other_line :: "console_line \<Rightarrow> bool" where
  "other_line l \<longleftrightarrow> (case l of ConsoleLog (JStr w # vs) \<Rightarrow> w \<noteq> ''took'' \<and> l \<noteq> ConsoleLog [JStr ''all sent''] \<and>
     l \<noteq> ConsoleLog [JStr ''all received''] | _ \<Rightarrow> True)"

lemma stress_inv_other_line: "other_line l \<Longrightarrow> stress_inv n (stress_log l s) = stress_inv n s"
  by (auto simp: stress_inv_def stress_defs other_line_def split: console_line.splits list.splits jsvalue.splits)

lemma stress_inv_frame [simp]:
  "stress_inv n (s\<lparr>stCalls := x\<rparr>) = stress_inv n s"
  "stress_inv n (s\<lparr>stClock := y\<rparr>) = stress_inv n s"
  "stress_inv n (s\<lparr>stOptions := z\<rparr>) = stress_inv n s"
  "stress_inv n (s\<lparr>stStart := u\<rparr>) = stress_inv n s"
  "stress_inv n (s\<lparr>stEnvHost := a, stProject := b\<rparr>) = stress_inv n s"
  by (simp_all add: stress_inv_def took_logged_def times_logged_def)

lemma all_after_not_Pending [simp]: "a \<noteq> Pending \<Longrightarrow> all_after a p q = a"
  by (cases a) auto

lemma stress_inv_task_start: "stress_inv n s \<Longrightarrow> 0 < stWaiting s \<Longrightarrow> stress_inv n (stress_task_start s)"
  by (auto simp: stress_inv_def stress_task_start_def took_logged_def times_logged_def)

lemma stress_inv_on_error:
  assumes "stress_inv n s" and "stListening s"
  shows "stress_inv n (stress_on_error e s)"
  using assms
  by (cases "stAllP s"; cases "stPublishP s"; cases "stDoneP s")
    (auto simp: stress_inv_def stress_on_error_def stress_defs)

lemma stress_inv_publish_failed:
  assumes "stress_inv n s" and "0 < stInFlight s"
  shows "stress_inv n (stress_publish_failed e s)"
  using assms
  by (cases "stAllP s"; cases "stPublishP s"; cases "stDoneP s")
    (auto simp: stress_inv_def stress_publish_failed_def stress_defs)

text \<open>Counting without reaching the last message settles nothing.\<close>

lemma stress_settle_id: "stress_inv n s \<Longrightarrow> stress_settle s = s"
  by (cases "stAllP s"; cases "stPublishP s"; cases "stDoneP s") (auto simp: stress_inv_def stress_settle_def)

lemma stress_inv_count_sent:
  assumes "stress_inv n s" and "0 < stInFlight s" and "Suc (stNumSent s) \<noteq> n"
  shows "stress_inv n (s\<lparr>stInFlight := stInFlight s - 1, stNumSent := stNumSent s + 1\<rparr>)"
proof -
  have "stNumSent s \<noteq> n" "stPublishP s \<noteq> Fulfilled" using assms by (auto simp: stress_inv_def)
  with assms show ?thesis by (simp add: stress_inv_def took_logged_def times_logged_def)
qed

lemma stress_inv_count_received:
  assumes "stress_inv n s" and "stListening s" and "\<not> n \<le> Suc (stNumReceived s)"
  shows "stress_inv n (s\<lparr>stNumReceived := stNumReceived s + 1, stAcked := stAcked s @ [msg]\<rparr>)"
proof -
  have "stDoneP s \<noteq> Fulfilled" using assms by (auto simp: stress_inv_def)
  with assms show ?thesis by (simp add: stress_inv_def took_logged_def times_logged_def) blast
qed

lemma stress_inv_published:
  assumes "stress_inv n s" and "0 < stInFlight s"
  shows "stress_inv n (stress_published n s)"
proof (cases "Suc (stNumSent s) = n")
  case True
  with assms have "stPublishP s = Pending" by (cases "stPublishP s") (auto simp: stress_inv_def)
  with True assms show ?thesis
    by (cases "stAllP s"; cases "stDoneP s")
      (auto simp: stress_inv_def stress_published_def stress_defs Let_def)
next
  case False
  let ?s1 = "s\<lparr>stInFlight := stInFlight s - 1, stNumSent := stNumSent s + 1\<rparr>"
  let ?l = "ConsoleLog [JStr ''sent'', JNum (int (stNumSent s + 1))]"
  have inv: "stress_inv n ?s1" "stress_inv n (stress_log ?l ?s1)"
    using stress_inv_count_sent[OF assms False] by (simp_all add: stress_inv_other_line other_line_def)
  have "\<not> n \<le> Suc (stNumSent s)" using assms False by (auto simp: stress_inv_def)
  then have "stress_published n s = stress_settle (if Suc (stNumSent s) mod 1000 = 0 then stress_log ?l ?s1 else ?s1)"
    by (simp add: stress_published_def Let_def)
  with inv show ?thesis by (simp add: stress_settle_id)
qed

lemma stress_inv_on_message:
  assumes "stress_inv n s" and "stListening s" and "0 < n"
  shows "stress_inv n (stress_on_message n msg s)"
proof (cases "n \<le> Suc (stNumReceived s)")
  case True
  with assms show ?thesis
    by (cases "stAllP s"; cases "stPublishP s"; cases "stDoneP s")
      (auto simp: stress_inv_def stress_on_message_def stress_defs Let_def)
next
  case False
  then show ?thesis using stress_inv_count_received[OF assms(1,2) False, of msg]
    by (simp add: stress_on_message_def Let_def stress_inv_other_line other_line_def)
qed

lemma stress_inv_start:
  assumes "stress_inv n s" and "\<not> stListening s" and "0 < n"
  shows "stress_inv n (stress_start n s)"
  using assms by (auto simp: stress_inv_def stress_start_def took_logged_def times_logged_def)

lemma stress_inv_took:
  assumes "stress_inv n s" and "stAllP s = Fulfilled"
  shows "stress_inv n (stress_took n s)"
  using assms by (auto simp: stress_inv_def stress_took_def stress_defs Let_def)

lemma stress_inv_init: "0 < n \<Longrightarrow> stress_inv n (stress_init now)"
  by (simp add: stress_inv_def stress_init_def took_logged_def times_logged_def)

text \<open>Where the main routine can be suspended, and what holds there.\<close>

definition stress_phase :: "nat \<Rightarrow> string \<Rightarrow> stress_state \<times> stress_main \<Rightarrow> bool" where
  "stress_phase n i c \<longleftrightarrow> (case c of (s, m) \<Rightarrow>
     m \<in> {stress_topic n i, stress_subscribe n i, stress_configure n i} \<and> \<not> stListening s \<or>
     m = stress_await_all n i \<and> stListening s \<or>
     m = stress_finally n i \<and> stListening s \<and> stAllP s \<noteq> Pending \<or>
     m = Finish \<and> (stListening s \<longrightarrow> stAllP s \<noteq> Pending \<and> DeleteBoth i i \<in> set (stCalls s)))"

lemmas stress_mains = stress_topic_def stress_subscribe_def stress_configure_def stress_await_all_def
  stress_finally_def stress_fail_def await_call_def await_promise_def

lemma run_stress_mains [simp]:
  "run_main (stress_topic n i) s = (s, stress_topic n i)"
  "run_main (stress_subscribe n i) s = (s, stress_subscribe n i)"
  "run_main (stress_configure n i) s = (s, stress_configure n i)"
  "run_main (stress_await_all n i) s = (s, stress_await_all n i)"
  "run_main (stress_finally n i) s = (s, stress_finally n i)"
  "run_main (stress_fail e) s = (stress_log (ConsoleLogError e) s, Finish)"
  by (simp_all add: stress_mains)

lemma stress_phase_handler:
  assumes "stress_phase n i (s, m)" and "stListening s' = stListening s" and "stCalls s' = stCalls s"
    and "stAllP s \<noteq> Pending \<Longrightarrow> stAllP s' = stAllP s"
  shows "stress_phase n i (s', m)"
  using assms by (auto simp: stress_phase_def)

definition add_call :: "client_call \<Rightarrow> stress_state \<Rightarrow> stress_state" where
  "add_call c s = s\<lparr>stCalls := stCalls s @ [c]\<rparr>"

lemma stress_answers:
  "stress_handle n (Answer r) (s, stress_topic k i) = Some (case r of
     Inl e \<Rightarrow> (stress_log (ConsoleLogError e) (add_call (TopicGet i autoCreate) s), Finish)
   | Inr v \<Rightarrow> (add_call (TopicGet i autoCreate) s, stress_subscribe k i))"
  "stress_handle n (Answer r) (s, stress_subscribe k i) = Some (case r of
     Inl e \<Rightarrow> (stress_log (ConsoleLogError e) (add_call (SubscriptionGet i i autoCreate) s), Finish)
   | Inr v \<Rightarrow> (add_call (SubscriptionGet i i autoCreate) s, stress_configure k i))"
  "stress_handle n (Answer r) (s, stress_configure k i) = Some (case r of
     Inl e \<Rightarrow> (stress_log (ConsoleLogError e) (add_call (SubscriptionSetMetadata i stress_metadata) s), Finish)
   | Inr v \<Rightarrow> (stress_start k (add_call (SubscriptionSetMetadata i stress_metadata) s), stress_await_all k i))"
  "stress_handle n (Answer r) (s, stress_await_all k i) = None"
  "stress_handle n (Answer r) (s, stress_finally k i) = Some (case r of
     Inl e \<Rightarrow> (stress_log (ConsoleLogError e) (add_call (DeleteBoth i i) s), Finish)
   | Inr v \<Rightarrow> (let s' = add_call (DeleteBoth i i) s in (stress_log (ConsoleLog [JStr ''done'', JNum (int k),
        JNum (int (stNumSent s')), JNum (int (stNumReceived s'))]) s', Finish)))"
  "stress_handle n (Answer r) (s, Finish) = None"
  by (cases r; simp add: stress_mains add_call_def Let_def)+

lemma stress_resumes:
  "stress_handle n Resume (s, stress_topic k i) = None"
  "stress_handle n Resume (s, stress_subscribe k i) = None"
  "stress_handle n Resume (s, stress_configure k i) = None"
  "stress_handle n Resume (s, stress_finally k i) = None"
  "stress_handle n Resume (s, Finish) = None"
  "stress_handle n Resume (s, stress_await_all k i) = (case stAllP s of
     Pending \<Rightarrow> None
   | Fulfilled \<Rightarrow> Some (stress_took k s, stress_finally k i)
   | Rejected e \<Rightarrow> Some (stress_log (ConsoleError e) s, stress_finally k i))"
  by (simp_all add: stress_mains split: promise.split)

declare stress_handle.simps(1,2) [simp del]

lemma add_call_fields [simp]:
  "stListening (add_call c s) = stListening s" "stAllP (add_call c s) = stAllP s"
  "stCalls (add_call c s) = stCalls s @ [c]" "stress_inv n (add_call c s) = stress_inv n s"
  by (simp_all add: add_call_def)

lemma stress_log_fields [simp]:
  "stListening (stress_log l s) = stListening s" "stAllP (stress_log l s) = stAllP s"
  "stCalls (stress_log l s) = stCalls s"
  by (simp_all add: stress_log_def)

definition stress_ok :: "nat \<Rightarrow> string \<Rightarrow> stress_state \<times> stress_main \<Rightarrow> bool" where
  "stress_ok n i c \<longleftrightarrow> stress_phase n i c \<and> stress_inv n (fst c)"

lemma stress_ok_answer:
  assumes "stress_ok n i (s, m)" and "stress_handle n (Answer r) (s, m) = Some c'" and "0 < n"
  shows "stress_ok n i c'"
proof -
  have inv: "stress_inv n s" and ph: "stress_phase n i (s, m)" using assms(1) by (auto simp: stress_ok_def)
  consider "m \<in> {stress_topic n i, stress_subscribe n i}" "\<not> stListening s" | "m = stress_configure n i" "\<not> stListening s"
    | "m = stress_await_all n i" | "m = stress_finally n i" "stListening s" "stAllP s \<noteq> Pending" | "m = Finish"
    using ph unfolding stress_phase_def by auto
  then show ?thesis
  proof cases
    case 1
    then show ?thesis using assms(2) inv
      by (cases r) (auto simp: stress_answers stress_ok_def stress_phase_def stress_inv_other_line other_line_def)
  next
    case 2
    then show ?thesis
      using assms(2,3) inv stress_inv_start[of n "add_call (SubscriptionSetMetadata i stress_metadata) s"]
      by (cases r) (auto simp: stress_answers stress_ok_def stress_phase_def stress_inv_other_line other_line_def
          stress_start_def)
  next
    case 4
    then show ?thesis using assms(2) inv
      by (cases r) (auto simp: stress_answers stress_ok_def stress_phase_def stress_inv_other_line other_line_def Let_def)
  qed (use assms(2) in \<open>simp_all only: stress_answers option.distinct\<close>)
qed

lemma stress_ok_resume:
  assumes "stress_ok n i (s, m)" and "stress_handle n Resume (s, m) = Some c'"
  shows "stress_ok n i c'"
proof -
  have inv: "stress_inv n s" and "stress_phase n i (s, m)" using assms(1) by (auto simp: stress_ok_def)
  then have m: "m = stress_await_all n i" "stListening s"
    using assms(2) by (auto simp: stress_phase_def stress_resumes)
  show ?thesis
  proof (cases "stAllP s")
    case Fulfilled
    then have "c' = (stress_took n s, stress_finally n i)" using assms(2) m by (simp add: stress_resumes)
    with Fulfilled inv m stress_inv_took show ?thesis
      by (simp add: stress_ok_def stress_phase_def) (simp add: stress_took_def Let_def)
  next
    case (Rejected e)
    then have "c' = (stress_log (ConsoleError e) s, stress_finally n i)"
      using assms(2) m by (simp add: stress_resumes)
    with Rejected inv m show ?thesis
      by (simp add: stress_ok_def stress_phase_def stress_inv_other_line other_line_def)
  qed (use assms(2) m in \<open>simp add: stress_resumes\<close>)
qed

lemma stress_ok_step:
  assumes "stress_ok n i c" and "stress_handle n e c = Some c'" and "0 < n"
  shows "stress_ok n i c'"
proof -
  obtain s m where c: "c = (s, m)" by (cases c)
  have inv: "stress_inv n s" and ph: "stress_phase n i (s, m)" using assms(1) c by (auto simp: stress_ok_def)
  note handlers = stress_task_start_def stress_published_def stress_publish_failed_def stress_on_message_def
    stress_on_error_def stress_settle_def stress_log_def Let_def
  show ?thesis
  proof (cases e)
    case (Answer r)
    then show ?thesis using stress_ok_answer assms c by blast
  next
    case Resume
    then show ?thesis using stress_ok_resume assms c by blast
  next
    case (Advance d)
    then show ?thesis using assms(2) inv c stress_phase_handler[OF ph] by (auto simp: stress_ok_def)
  next
    case TaskStart
    then show ?thesis using assms(2) inv c stress_inv_task_start stress_phase_handler[OF ph, of "stress_task_start s"]
      by (auto simp: stress_ok_def handlers split: if_splits)
  next
    case Published
    then show ?thesis using assms(2) c stress_inv_published[OF inv] stress_phase_handler[OF ph, of "stress_published n s"]
      by (auto simp: stress_ok_def handlers split: if_splits)
  next
    case (PublishFailed x)
    then show ?thesis using assms(2) c stress_inv_publish_failed[OF inv] stress_phase_handler[OF ph, of "stress_publish_failed x s"]
      by (auto simp: stress_ok_def handlers split: if_splits)
  next
    case (Message x)
    then show ?thesis using assms(2,3) c stress_inv_on_message[OF inv] stress_phase_handler[OF ph, of "stress_on_message n x s"]
      by (auto simp: stress_ok_def handlers split: if_splits)
  next
    case (SubError x)
    then show ?thesis using assms(2) c stress_inv_on_error[OF inv] stress_phase_handler[OF ph, of "stress_on_error x s"]
      by (auto simp: stress_ok_def handlers split: if_splits)
  qed
qed

lemma stress_reach_ok: "stress_reach n random c \<Longrightarrow> 0 < n \<Longrightarrow> stress_ok n (stress_id random) c"
proof (induction rule: stress_reach.induct)
  case (start now)
  then show ?case
    using stress_inv_init[of n now]
    by (simp add: stress_main_def stress_ok_def stress_phase_def) (simp add: stress_init_def)
next
  case (step c e c')
  then show ?case using stress_ok_step by blast
qed

subsection \<open>What the script establishes\<close>

text \<open>
  Property C13. Whatever the order in which sends complete, messages arrive and errors are emitted:
  every message that arrives is acknowledged once per arrival; the script reports success only
  after all its messages were sent and at least as many were received; it says that all are sent
  once, and that all are received once for every arrival from the last expected one on; and when
  it ends after it had started publishing, both the subscription and the topic were deleted,
  success or not.
\<close>

theorem stress_reports_truth:
  assumes "0 < n" and "stress_reach n random (s, m)"
  shows "(took_logged s \<longrightarrow> stNumSent s = n \<and> n \<le> stNumReceived s) \<and>
    stNumSent s \<le> n \<and> length (stAcked s) = stNumReceived s \<and>
    times_logged ''all sent'' s = (if stNumSent s = n then 1 else 0) \<and>
    times_logged ''all received'' s = stNumReceived s + 1 - n \<and>
    (m = Finish \<and> stListening s \<longrightarrow> DeleteBoth (stress_id random) (stress_id random) \<in> set (stCalls s))"
proof -
  have "stress_phase n (stress_id random) (s, m)" and inv: "stress_inv n s"
    using stress_reach_ok[OF assms(2,1)] by (auto simp: stress_ok_def)
  then have "m = Finish \<and> stListening s \<longrightarrow> DeleteBoth (stress_id random) (stress_id random) \<in> set (stCalls s)"
    by (auto simp: stress_phase_def stress_mains)
  with inv show ?thesis by (auto simp: stress_inv_def)
qed

definition sample_stress_events :: "stress_event list" where
  "sample_stress_events =
     [Answer (Inr JUndefined), Answer (Inr JUndefined), Answer (Inr JUndefined), TaskStart, TaskStart, Published,
      Message ''m1'', Advance 7, Message ''m1'', Published, Resume, Answer (Inr JUndefined)]"

theorem stress_reports_truth_witness:
  "\<exists>s. stress_run 2 sample_stress_events (run_main (stress_main 2 ''0.25'') (stress_init 0)) = Some (s, Finish) \<and>
     took_logged s \<and> stNumSent s = 2 \<and> stAcked s = [''m1'', ''m1''] \<and> times_logged ''all sent'' s = 1 \<and>
     DeleteBoth ''ts-stress-25'' ''ts-stress-25'' \<in> set (stCalls s)"
proof -
  let ?c0 = "run_main (stress_main 2 ''0.25'') (stress_init 0)"
  obtain s where run: "stress_run 2 sample_stress_events ?c0 = Some (s, Finish)"
    and s: "took_logged s" "stListening s" "stAcked s = [''m1'', ''m1'']"
    by (simp add: sample_stress_events_def stress_main_def stress_answers stress_resumes stress_init_def add_call_def
        stress_start_def stress_task_start_def stress_published_def stress_on_message_def stress_settle_def stress_log_def
        stress_took_def took_logged_def Let_def)
  have "stress_reach 2 ''0.25'' (s, Finish)"
    by (rule stress_run_reach[OF stress_reach.start run])
  from stress_reports_truth[OF _ this] s run show ?thesis by (auto simp: stress_id_def substr_def)
qed

text \<open>
  Property C15. Once the script is waiting, it goes on exactly when it should: after an error of the
  subscription or of a send it prints the error and cleans up; without an error it stays until
  all messages are sent and as many received, and then it prints the time it took and cleans up.
\<close>

theorem stress_waits_for_all:
  assumes "0 < n" and "stress_reach n random (s, stress_await_all n (stress_id random))"
  shows "case (stPublishP s, stDoneP s) of
      (Rejected e, _) \<Rightarrow> \<exists>e' s'. stress_handle n Resume (s, stress_await_all n (stress_id random)) =
        Some (s', stress_finally n (stress_id random)) \<and> ConsoleError e' \<in> set (stConsole s') \<and> \<not> took_logged s'
    | (_, Rejected e) \<Rightarrow> \<exists>e' s'. stress_handle n Resume (s, stress_await_all n (stress_id random)) =
        Some (s', stress_finally n (stress_id random)) \<and> ConsoleError e' \<in> set (stConsole s') \<and> \<not> took_logged s'
    | _ \<Rightarrow> if stNumSent s = n \<and> n \<le> stNumReceived s
        then \<exists>s'. stress_handle n Resume (s, stress_await_all n (stress_id random)) =
          Some (s', stress_finally n (stress_id random)) \<and> took_logged s'
        else stress_handle n Resume (s, stress_await_all n (stress_id random)) = None"
proof -
  have inv: "stress_inv n s" using stress_reach_ok[OF assms(2,1)] by (simp add: stress_ok_def)
  note resume = stress_resumes(6)[of n s n "stress_id random"]
  have took: "took_logged (stress_took n s)" by (simp add: stress_took_def took_logged_def stress_log_def Let_def)
  have quiet: "\<not> took_logged (stress_log (ConsoleError e) s)" if "stAllP s = Rejected e" for e
    using inv that by (auto simp: stress_inv_def took_logged_def stress_log_def)
  show ?thesis
    using inv resume took quiet
    by (cases "stPublishP s"; cases "stDoneP s"; cases "stAllP s") (auto simp: stress_inv_def stress_log_def)
qed

theorem stress_waits_for_all_witness:
  "\<exists>s s'. stress_run 1 [Answer (Inr JUndefined), Answer (Inr JUndefined), Answer (Inr JUndefined), TaskStart,
        Message ''m1'', Published] (run_main (stress_main 1 ''0.5'') (stress_init 0)) =
      Some (s, stress_await_all 1 (stress_id ''0.5'')) \<and>
     stress_handle 1 Resume (s, stress_await_all 1 (stress_id ''0.5'')) = Some (s', stress_finally 1 (stress_id ''0.5'')) \<and>
     took_logged s'"
proof -
  let ?c0 = "run_main (stress_main 1 ''0.5'') (stress_init 0)"
  obtain s where run: "stress_run 1 [Answer (Inr JUndefined), Answer (Inr JUndefined), Answer (Inr JUndefined), TaskStart,
        Message ''m1'', Published] ?c0 = Some (s, stress_await_all 1 (stress_id ''0.5''))"
    and s: "stPublishP s = Fulfilled" "stDoneP s = Fulfilled" "stNumSent s = 1" "stNumReceived s = 1"
    by (simp add: stress_main_def stress_answers stress_init_def add_call_def stress_start_def stress_task_start_def
        stress_published_def stress_on_message_def stress_settle_def stress_log_def Let_def)
  have "stress_reach 1 ''0.5'' (s, stress_await_all 1 (stress_id ''0.5''))"
    by (rule stress_run_reach[OF stress_reach.start run])
  from stress_waits_for_all[OF _ this] s run show ?thesis by auto
qed

end
