(* ===== verification/TsSmoke.thy ===== *)
theory TsSmoke
  imports TsStress "HOL-Library.Multiset"
begin

text \<open>
  The smoke test of the TypeScript client, \<open>internal/ts-compat/src/smoke.ts\<close>: it creates a topic
  twice, sets metadata, publishes one message, acknowledges what arrives until nothing has
  happened for a while, and deletes everything. The library's replies, the messages and errors
  it emits and the timers of the event loop are events. Instants are milliseconds.
\<close>

subsection \<open>Messages\<close>

record smoke_message =
  mgId :: string
  mgAckId :: string
  mgAttributes :: jsvalue
  mgDeliveryAttempt :: jsvalue
  mgOrderingKey :: jsvalue
  mgPublishTime :: int
  mgData :: string

definition trimMsg :: "smoke_message \<Rightarrow> jsvalue" where
  "trimMsg message = js_object
     [Prop ''id'' (JStr (mgId message)),
      Prop ''ackId'' (JStr (mgAckId message)),
      Prop ''attributes'' (mgAttributes message),
      Prop ''deliveryAttempt'' (mgDeliveryAttempt message),
      Prop ''orderingKey'' (mgOrderingKey message),
      Prop ''publishTime'' (JDate (mgPublishTime message)),
      Prop ''data'' (JStr (mgData message))]"

subsection \<open>State\<close>

record smoke_state =
  smEnvHost :: string
  smProject :: string
  smClock :: int
  smConsole :: "console_line list"
  smCalls :: "client_call list"
  smListening :: bool
  smTimer :: "int option"
  smMsgsP :: "client_error promise"
  smGotError :: bool
  smSleeping :: "(smoke_message \<times> int) list"
  smReceived :: "smoke_message list"
  smAcked :: "smoke_message list"
  smSleepUntil :: "int option"
  smSlept :: bool

definition smoke_init :: "int \<Rightarrow> smoke_state" where
  "smoke_init now = \<lparr>smEnvHost = [], smProject = [], smClock = now, smConsole = [], smCalls = [],
     smListening = False, smTimer = None, smMsgsP = Pending, smGotError = False, smSleeping = [],
     smReceived = [], smAcked = [], smSleepUntil = None, smSlept = False\<rparr>"

definition smoke_log :: "console_line \<Rightarrow> smoke_state \<Rightarrow> smoke_state" where
  "smoke_log l s = s\<lparr>smConsole := smConsole s @ [l]\<rparr>"

text \<open>A timer that is set now: \<open>setTimeout\<close> truncates, and waits one millisecond at least.\<close>

definition set_timeout :: "int \<Rightarrow> smoke_state \<Rightarrow> int" where
  "set_timeout ms s = smClock s + (if 1 \<le> ms \<and> ms \<le> 2147483647 then ms else 1)"

text \<open>\<open>sleep(ms)\<close>: the instant at which the promise it awaits is resolved.\<close>

definition sleep :: "int \<Rightarrow> smoke_state \<Rightarrow> int" where
  "sleep ms s = set_timeout ms s"

definition msgTimeout_refresh :: "smoke_state \<Rightarrow> smoke_state" where
  "msgTimeout_refresh s = s\<lparr>smTimer := Some (set_timeout 1100 s)\<rparr>"

subsection \<open>The main routine\<close>

type_synonym smoke_main = "(smoke_state, client_call) main"

definition smoke_fail :: "client_error \<Rightarrow> smoke_main" where
  "smoke_fail e = Do (smoke_log (ConsoleLogError e)) Finish"

fun js_first :: "jsvalue \<Rightarrow> jsvalue" where
  "js_first (JArr (v # vs)) = v"
| "js_first v = JUndefined"

fun js_length :: "jsvalue \<Rightarrow> jsvalue" where
  "js_length (JArr vs) = JNum (int (length vs))"
| "js_length v = JUndefined"

text \<open>The labels of an entity with a new label \<open>b\<close>.\<close>

definition labels_with_b :: "jsvalue \<Rightarrow> smoke_state \<Rightarrow> jsvalue" where
  "labels_with_b entity s = js_object
     [Spread (js_get (js_get entity ''metadata'') ''labels''), Prop ''b'' (JStr (num_toString (smClock s)))]"

definition smoke_listen :: "smoke_state \<Rightarrow> smoke_state" where
  "smoke_listen s = (msgTimeout_refresh s)\<lparr>smGotError := False, smListening := True\<rparr>"

definition smoke_close :: "string \<Rightarrow> smoke_main" where
  "smoke_close i =
     Do (\<lambda>s. smoke_log (ConsoleLog [JStr ''got expected error?'', JBool (smGotError s)]) s)
     (await_call (\<lambda>_. TopicDelete i) smoke_fail (\<lambda>_.
      await_call (\<lambda>_. SubscriptionClose i) smoke_fail (\<lambda>_.
      await_call (\<lambda>_. PubSubClose) smoke_fail (\<lambda>_. Finish))))"

definition smoke_delete :: "string \<Rightarrow> smoke_main" where
  "smoke_delete i =
     await_call (\<lambda>_. SubscriptionDelete i) smoke_fail (\<lambda>_.
     Do (\<lambda>s. s\<lparr>smSleepUntil := Some (sleep 100 s), smSlept := False\<rparr>)
     (AwaitUntil (\<lambda>s. if smSlept s then Some (Inr JUndefined) else None) (\<lambda>_. smoke_close i)))"

definition smoke_wait :: "string \<Rightarrow> smoke_main" where
  "smoke_wait i =
     await_promise smMsgsP smoke_fail
       (Do (smoke_log (ConsoleLog [JStr (''deleting sub, expect '' @ [CHR 0x27] @ ''Not found'' @ [CHR 0x27] @ '' error:'')]))
         (smoke_delete i))"

definition smoke_publish :: "string \<Rightarrow> smoke_main" where
  "smoke_publish i =
     await_call (\<lambda>s. TopicPublishMessage i (js_object
         [Prop ''json'' (js_object [Prop ''hello'' (JStr ''world'')]),
          Prop ''attributes'' (js_object [Prop ''attr1'' (JStr (toISOString (smClock s)))])]))
       smoke_fail (\<lambda>msgID.
     Do (smoke_log (ConsoleLog [JStr ''Published messageID:'', msgID])) (smoke_wait i))"

definition smoke_subscribe :: "string \<Rightarrow> smoke_main" where
  "smoke_subscribe i =
     await_call (\<lambda>_. SubscriptionGet i i autoCreate) smoke_fail (\<lambda>r.
     await_call (\<lambda>s. SubscriptionSetMetadata i (js_object
         [Prop ''enableMessageOrdering'' (JBool True),
          Prop ''labels'' (labels_with_b (js_first r) s),
          Prop ''retryPolicy'' (js_object
            [Prop ''minimumBackoff'' (js_object [Prop ''seconds'' (JNum 1), Prop ''nanos'' (JNum 500000000)])])]))
       smoke_fail (\<lambda>_.
     Do smoke_listen (smoke_publish i)))"

definition smoke_topic :: "string \<Rightarrow> smoke_main" where
  "smoke_topic i =
     await_call (\<lambda>_. TopicGet i autoCreate) smoke_fail (\<lambda>r.
     await_call (\<lambda>s. TopicSetMetadata i (js_object [Prop ''labels'' (labels_with_b (js_first r) s)])) smoke_fail (\<lambda>_.
     smoke_subscribe i))"

text \<open>The \<open>catch\<close> around the two creations.\<close>

definition smoke_create_catch :: "string \<Rightarrow> client_error \<Rightarrow> smoke_main" where
  "smoke_create_catch i e =
     (case e of ClientError code msg \<Rightarrow>
        if code \<noteq> 6 then Do (smoke_log (ConsoleError e)) (smoke_topic i) else smoke_topic i)"

definition smoke_create_again :: "string \<Rightarrow> smoke_main" where
  "smoke_create_again i = await_call (\<lambda>_. ClientCreateTopic i) (smoke_create_catch i) (\<lambda>_. smoke_topic i)"

definition smoke_create :: "string \<Rightarrow> smoke_main" where
  "smoke_create i = await_call (\<lambda>_. ClientCreateTopic i) (smoke_create_catch i) (\<lambda>_. smoke_create_again i)"

definition smoke_main :: "string \<Rightarrow> smoke_main" where
  "smoke_main random =
     Do (\<lambda>s. s\<lparr>smEnvHost := ''localhost:8802'', smProject := ''ts-compat''\<rparr>)
     (await_call (\<lambda>_. GetTopics) smoke_fail (\<lambda>r.
      Do (smoke_log (ConsoleLog [JStr ''Num topics:'', js_length (js_first r)]))
      (await_call (\<lambda>_. GetSubscriptions) smoke_fail (\<lambda>r.
       Do (smoke_log (ConsoleLog [JStr ''Num subs:'', js_length (js_first r)]))
       (smoke_create (''ts-stress-'' @ substr 2 random))))))"

subsection \<open>The handlers\<close>

definition smoke_on_error :: "client_error \<Rightarrow> smoke_state \<Rightarrow> smoke_state" where
  "smoke_on_error e s = smoke_log (ConsoleError e) (s\<lparr>smGotError := True\<rparr>)"

text \<open>The handler up to its \<open>await\<close>; \<open>Math.random()\<close> is \<open>r\<close> divided by two to the power of 53.\<close>

definition random_delay :: "nat \<Rightarrow> int" where
  "random_delay r = 1000 * int r div 2 ^ 53"

definition smoke_on_message :: "smoke_message \<Rightarrow> nat \<Rightarrow> smoke_state \<Rightarrow> smoke_state" where
  "smoke_on_message message r s =
     (let s1 = msgTimeout_refresh (smoke_log (ConsoleLog [JStr ''received'', trimMsg message]) s) in
      s1\<lparr>smReceived := smReceived s1 @ [message], smSleeping := smSleeping s1 @ [(message, sleep (random_delay r) s1)]\<rparr>)"

text \<open>The handler after its \<open>await\<close>.\<close>

definition smoke_ack :: "nat \<Rightarrow> smoke_state \<Rightarrow> smoke_state" where
  "smoke_ack j s =
     (let message = fst (smSleeping s ! j);
          s1 = smoke_log (ConsoleLog [JStr ''ack'', trimMsg message]) s
      in msgTimeout_refresh (s1\<lparr>smAcked := smAcked s1 @ [message],
           smSleeping := take j (smSleeping s1) @ drop (Suc j) (smSleeping s1)\<rparr>))"

datatype smoke_event =
    SmAnswer reply
  | SmResume
  | SmAdvance nat
  | SmMessage smoke_message nat
  | SmWake nat
  | SmTimeout
  | SmSlept
  | SmError client_error

fun smoke_handle :: "smoke_event \<Rightarrow> smoke_state \<times> smoke_main \<Rightarrow> (smoke_state \<times> smoke_main) option" where
  "smoke_handle (SmAnswer r) (s, m) =
     (case m of Await c k \<Rightarrow> answer r (s\<lparr>smCalls := smCalls s @ [c s]\<rparr>, m) | _ \<Rightarrow> None)"
| "smoke_handle SmResume (s, m) = resume (s, m)"
| "smoke_handle (SmAdvance d) (s, m) = Some (s\<lparr>smClock := smClock s + int d\<rparr>, m)"
| "smoke_handle (SmMessage message r) (s, m) =
     (if smListening s \<and> r < 2 ^ 53 then Some (smoke_on_message message r s, m) else None)"
| "smoke_handle (SmWake j) (s, m) =
     (if j < length (smSleeping s) \<and> snd (smSleeping s ! j) \<le> smClock s then Some (smoke_ack j s, m) else None)"
| "smoke_handle SmTimeout (s, m) =
     (case smTimer s of
        None \<Rightarrow> None
      | Some t \<Rightarrow> if t \<le> smClock s
          then Some (s\<lparr>smTimer := None, smMsgsP := settle Fulfilled (smMsgsP s)\<rparr>, m) else None)"
| "smoke_handle SmSlept (s, m) =
     (case smSleepUntil s of
        None \<Rightarrow> None
      | Some t \<Rightarrow> if t \<le> smClock s then Some (s\<lparr>smSleepUntil := None, smSlept := True\<rparr>, m) else None)"
| "smoke_handle (SmError e) (s, m) = (if smListening s then Some (smoke_on_error e s, m) else None)"

text \<open>
  The continuation of an \<open>await\<close> whose promise has settled runs before the event loop takes the next
  event.
\<close>

definition smoke_next :: "smoke_event \<Rightarrow> smoke_state \<times> smoke_main \<Rightarrow> (smoke_state \<times> smoke_main) option" where
  "smoke_next e c = (case (resume c, e) of
     (Some c', SmResume) \<Rightarrow> Some c'
   | (Some c', _) \<Rightarrow> None
   | (None, _) \<Rightarrow> smoke_handle e c)"

text \<open>
  The event loop may be late, by \<open>lag\<close> milliseconds at most: no handler is still asleep that much
  after the end of its sleep.
\<close>

definition within_lag :: "int \<Rightarrow> smoke_state \<Rightarrow> bool" where
  "within_lag lag s \<longleftrightarrow> list_all (\<lambda>(m, w). smClock s \<le> w + lag) (smSleeping s)"

inductive smoke_reach :: "int \<Rightarrow> string \<Rightarrow> smoke_state \<times> smoke_main \<Rightarrow> bool" for lag random where
  start: "smoke_reach lag random (run_main (smoke_main random) (smoke_init now))"
| step: "smoke_reach lag random c \<Longrightarrow> smoke_next e c = Some c' \<Longrightarrow> within_lag lag (fst c') \<Longrightarrow>
    smoke_reach lag random c'"

subsection \<open>The invariant\<close>

definition smoke_inv :: "smoke_state \<Rightarrow> bool" where
  "smoke_inv s \<longleftrightarrow>
     (\<forall>(m, w)\<in>set (smSleeping s). w \<le> smClock s + 999 \<and> (\<exists>t. smTimer s = Some t \<and> w + 101 \<le> t)) \<and>
     mset (smReceived s) = mset (smAcked s) + mset (map fst (smSleeping s)) \<and>
     (smMsgsP s = Pending \<or> smMsgsP s = Fulfilled)"

lemma smoke_inv_frame [simp]:
  "smoke_inv (smoke_log l s) = smoke_inv s"
  "smoke_inv (s\<lparr>smCalls := a\<rparr>) = smoke_inv s"
  "smoke_inv (s\<lparr>smSleepUntil := b, smSlept := b'\<rparr>) = smoke_inv s"
  "smoke_inv (s\<lparr>smGotError := g\<rparr>) = smoke_inv s"
  "smoke_inv (s\<lparr>smGotError := g, smListening := l'\<rparr>) = smoke_inv s"
  "smoke_inv (s\<lparr>smEnvHost := c, smProject := d\<rparr>) = smoke_inv s"
  by (simp_all add: smoke_inv_def smoke_log_def)

lemma smoke_inv_refresh: "smoke_inv s \<Longrightarrow> smoke_inv (msgTimeout_refresh s)"
  by (auto simp: smoke_inv_def msgTimeout_refresh_def set_timeout_def)

lemma main_keeps_smoke: "main_keeps smoke_inv (smoke_main random)"
  by (simp add: smoke_main_def smoke_fail_def smoke_create_def smoke_create_again_def smoke_create_catch_def
      smoke_topic_def smoke_subscribe_def smoke_publish_def smoke_wait_def smoke_delete_def smoke_close_def
      smoke_listen_def smoke_inv_refresh split: client_error.split)

lemma smoke_inv_advance: "smoke_inv s \<Longrightarrow> smoke_inv (s\<lparr>smClock := smClock s + int d\<rparr>)"
  by (fastforce simp: smoke_inv_def)

lemma random_delay_bound: "r < 2 ^ 53 \<Longrightarrow> random_delay r \<le> 999"
proof -
  assume "r < 2 ^ 53"
  then have "int r < 2 ^ 53" by simp
  then have "1000 * int r < 1000 * 2 ^ 53" by simp
  then have "1000 * int r div 2 ^ 53 < 1000" by (simp add: div_less_iff_less_mult)
  then show ?thesis by (simp add: random_delay_def)
qed

lemma smoke_inv_message:
  assumes "smoke_inv s" and "r < 2 ^ 53"
  shows "smoke_inv (smoke_on_message message r s)"
proof -
  have "sleep (random_delay r) s \<le> smClock s + 999"
    using random_delay_bound[OF assms(2)] by (simp add: sleep_def set_timeout_def)
  with smoke_inv_refresh[OF assms(1)] show ?thesis
    by (auto simp: smoke_inv_def smoke_on_message_def msgTimeout_refresh_def smoke_log_def set_timeout_def
        sleep_def Let_def)
qed

lemma mset_drop_nth:
  assumes "j < length xs"
  shows "mset xs = add_mset (xs ! j) (mset (take j xs @ drop (Suc j) xs))"
proof -
  have "mset xs = mset (take j xs @ xs ! j # drop (Suc j) xs)" using id_take_nth_drop[OF assms] by simp
  then show ?thesis by simp
qed

lemma smoke_inv_ack:
  assumes "smoke_inv s" and "j < length (smSleeping s)"
  shows "smoke_inv (smoke_ack j s)"
proof -
  let ?xs = "smSleeping s"
  let ?ys = "take j ?xs @ drop (Suc j) ?xs"
  have "set ?ys \<subseteq> set ?xs" using set_take_subset set_drop_subset by fastforce
  moreover have "mset (map fst ?xs) = add_mset (fst (?xs ! j)) (mset (map fst ?ys))"
    unfolding mset_map mset_drop_nth[OF assms(2)] by simp
  ultimately have "smoke_inv (s\<lparr>smAcked := smAcked s @ [fst (?xs ! j)], smSleeping := ?ys\<rparr>)"
    using assms(1) unfolding smoke_inv_def by (simp add: subset_iff) blast
  then have "smoke_inv (msgTimeout_refresh (smoke_log (ConsoleLog [JStr ''ack'', trimMsg (fst (?xs ! j))])
      (s\<lparr>smAcked := smAcked s @ [fst (?xs ! j)], smSleeping := ?ys\<rparr>)))"
    by (intro smoke_inv_refresh) simp
  then show ?thesis
    by (simp add: smoke_ack_def Let_def smoke_log_def smoke_inv_def msgTimeout_refresh_def set_timeout_def)
qed

lemma smoke_timeout_idle:
  assumes "smoke_inv s" and "within_lag 100 s" and "smTimer s = Some t" and "t \<le> smClock s"
  shows "smSleeping s = []"
proof (rule ccontr)
  assume "smSleeping s \<noteq> []"
  then obtain m w where "(m, w) \<in> set (smSleeping s)" by (metis list.set_intros(1) neq_Nil_conv surj_pair)
  then show False using assms by (fastforce simp: smoke_inv_def within_lag_def list_all_iff)
qed

lemma smoke_inv_timeout:
  assumes "smoke_inv s" and "smSleeping s = []"
  shows "smoke_inv (s\<lparr>smTimer := None, smMsgsP := settle Fulfilled (smMsgsP s)\<rparr>)"
  using assms by (auto simp: smoke_inv_def)

definition smoke_ok :: "smoke_state \<times> smoke_main \<Rightarrow> bool" where
  "smoke_ok c \<longleftrightarrow> smoke_inv (fst c) \<and> main_keeps smoke_inv (snd c)"

lemma smoke_ok_step:
  assumes "smoke_ok c" and "within_lag 100 (fst c)" and "smoke_handle e c = Some c'"
  shows "smoke_ok c'"
proof -
  obtain s m where c: "c = (s, m)" by (cases c)
  have inv: "smoke_inv s" and keeps: "main_keeps smoke_inv m" using assms(1) c by (auto simp: smoke_ok_def)
  show ?thesis
  proof (cases e)
    case (SmAnswer r)
    with assms(3) c obtain g k where m: "m = Await g k" by (cases m) auto
    show ?thesis
      using main_keeps_answer[OF keeps, of "s\<lparr>smCalls := smCalls s @ [g s]\<rparr>" r c'] inv assms(3) c SmAnswer
      by (simp add: m smoke_ok_def)
  next
    case SmResume
    then show ?thesis using main_keeps_resume[OF keeps inv] assms(3) c by (simp add: smoke_ok_def)
  next
    case (SmAdvance d)
    then show ?thesis using smoke_inv_advance[OF inv] keeps assms(3) c by (auto simp: smoke_ok_def)
  next
    case (SmMessage x r)
    then show ?thesis using smoke_inv_message[OF inv] keeps assms(3) c by (auto simp: smoke_ok_def split: if_splits)
  next
    case (SmWake j)
    then show ?thesis using smoke_inv_ack[OF inv] keeps assms(3) c by (auto simp: smoke_ok_def split: if_splits)
  next
    case SmTimeout
    then show ?thesis
      using smoke_inv_timeout[OF inv] smoke_timeout_idle[OF inv] keeps assms(2,3) c
      by (auto simp: smoke_ok_def split: option.splits if_splits)
  next
    case SmSlept
    then show ?thesis using inv keeps assms(3) c by (auto simp: smoke_ok_def split: option.splits if_splits)
  next
    case (SmError x)
    then show ?thesis using inv keeps assms(3) c by (auto simp: smoke_ok_def smoke_on_error_def split: if_splits)
  qed
qed

lemma smoke_next_handle: "smoke_next e c = Some c' \<Longrightarrow> smoke_handle e c = Some c'"
  by (cases c) (auto simp: smoke_next_def split: option.split_asm smoke_event.split_asm)

lemma smoke_reach_ok: "smoke_reach 100 random c \<Longrightarrow> smoke_ok c \<and> within_lag 100 (fst c)"
proof (induction rule: smoke_reach.induct)
  case (start now)
  have "smoke_inv (smoke_init now)" by (simp add: smoke_inv_def smoke_init_def)
  then have "smoke_ok (run_main (smoke_main random) (smoke_init now))"
    using main_keeps_run[OF main_keeps_smoke] by (simp add: smoke_ok_def)
  moreover have "fst (run_main (smoke_main random) (smoke_init now)) =
      (smoke_init now)\<lparr>smEnvHost := ''localhost:8802'', smProject := ''ts-compat''\<rparr>"
    by (simp add: smoke_main_def await_call_def)
  ultimately show ?case by (simp add: within_lag_def smoke_init_def)
next
  case (step c e c')
  then show ?case using smoke_ok_step smoke_next_handle by blast
qed

subsection \<open>What the script establishes\<close>

lemma run_smoke_wait [simp]: "run_main (smoke_wait i) s = (s, smoke_wait i)"
  by (simp add: smoke_wait_def await_promise_def)

lemma run_smoke_delete [simp]: "run_main (smoke_delete i) s = (s, smoke_delete i)"
  by (simp add: smoke_delete_def await_call_def)

definition smoke_deleting :: "smoke_state \<Rightarrow> smoke_state" where
  "smoke_deleting = smoke_log (ConsoleLog [JStr (''deleting sub, expect '' @ [CHR 0x27] @ ''Not found'' @ [CHR 0x27] @ '' error:'')])"

lemma resume_smoke_wait:
  "resume (s, smoke_wait i) = (case smMsgsP s of
     Pending \<Rightarrow> None | Fulfilled \<Rightarrow> Some (smoke_deleting s, smoke_delete i) | Rejected e \<Rightarrow> Some (run_main (smoke_fail e) s))"
  by (simp add: smoke_wait_def await_promise_def smoke_deleting_def split: promise.split)

lemma smoke_answer_publish:
  "\<exists>u1. smoke_next (SmAnswer (Inr v)) (u, smoke_publish i) = Some (u1, smoke_wait i) \<and>
     smMsgsP u1 = smMsgsP u \<and> smSleeping u1 = smSleeping u"
  by (simp add: smoke_next_def smoke_publish_def await_call_def smoke_log_def)

text \<open>
  Property C14. Provided that the event loop runs its timers with at most a tenth of a second of
  delay, the idle timer never fires while the script works on a message: whenever it fires, every
  message that has arrived was acknowledged exactly as often as it arrived. If the script waits for
  the timer by then, all that can happen next is that it goes on to delete the subscription, with
  nothing unacknowledged. But the timer runs from before the publication: if it fires while the
  script still waits for its publish call to be answered, nothing holds the script back later. Once
  the answer is there, all that can happen is that it goes on to the deletion, whatever messages it
  has received in between and is still working on.
\<close>

theorem smoke_acks_before_delete:
  assumes "smoke_reach 100 random (s, m)" and "smoke_next SmTimeout (s, m) = Some (s', m')"
  shows "m' = m \<and> smSleeping s' = [] \<and> mset (smAcked s') = mset (smReceived s') \<and>
    (\<forall>i e c. m = smoke_wait i \<and> smoke_next e (s', m) = Some c \<longrightarrow>
       e = SmResume \<and> c = (smoke_deleting s', smoke_delete i) \<and> mset (smAcked (fst c)) = mset (smReceived (fst c))) \<and>
    (\<forall>i u v e c. m = smoke_publish i \<and> smMsgsP u = smMsgsP s' \<longrightarrow>
       (\<exists>u1. smoke_next (SmAnswer (Inr v)) (u, m) = Some (u1, smoke_wait i) \<and> smSleeping u1 = smSleeping u \<and>
          (smoke_next e (u1, smoke_wait i) = Some c \<longrightarrow> e = SmResume \<and> c = (smoke_deleting u1, smoke_delete i))))"
proof -
  have inv: "smoke_inv s" and lag: "within_lag 100 s"
    using smoke_reach_ok[OF assms(1)] by (auto simp: smoke_ok_def)
  obtain t where t: "smTimer s = Some t" "t \<le> smClock s"
    and s': "s' = s\<lparr>smTimer := None, smMsgsP := settle Fulfilled (smMsgsP s)\<rparr>" "m' = m"
    using smoke_next_handle[OF assms(2)] by (auto split: option.splits if_splits)
  have idle: "smSleeping s = []" by (rule smoke_timeout_idle[OF inv lag t])
  with inv have acked: "mset (smReceived s) = mset (smAcked s)" by (simp add: smoke_inv_def)
  have p: "smMsgsP s' = Fulfilled" using inv by (auto simp: s' smoke_inv_def)
  have next_delete: "e = SmResume \<and> c = (smoke_deleting u, smoke_delete i)"
    if "smMsgsP u = Fulfilled" "smoke_next e (u, smoke_wait i) = Some c" for e u i c
    using that by (cases e) (simp_all add: smoke_next_def resume_smoke_wait)
  have late: "\<exists>u1. smoke_next (SmAnswer (Inr v)) (u, smoke_publish i) = Some (u1, smoke_wait i) \<and> smSleeping u1 = smSleeping u \<and>
      (smoke_next e (u1, smoke_wait i) = Some c \<longrightarrow> e = SmResume \<and> c = (smoke_deleting u1, smoke_delete i))"
    if u: "smMsgsP u = smMsgsP s'" for i u v e c
  proof -
    obtain u1 where "smoke_next (SmAnswer (Inr v)) (u, smoke_publish i) = Some (u1, smoke_wait i)"
      "smMsgsP u1 = smMsgsP u" "smSleeping u1 = smSleeping u"
      using smoke_answer_publish by blast
    with next_delete[of u1] u p show ?thesis by auto
  qed
  have deleting: "smAcked (smoke_deleting x) = smAcked x" "smReceived (smoke_deleting x) = smReceived x" for x
    by (simp_all add: smoke_deleting_def smoke_log_def)
  have "e = SmResume \<and> c = (smoke_deleting s', smoke_delete i) \<and> mset (smAcked (fst c)) = mset (smReceived (fst c))"
    if "m = smoke_wait i" "smoke_next e (s', m) = Some c" for i e c
    using next_delete[OF p, of e i c] that acked by (simp add: deleting s')
  with late idle acked s' show ?thesis by auto
qed

fun smoke_run :: "int \<Rightarrow> smoke_event list \<Rightarrow> smoke_state \<times> smoke_main \<Rightarrow> (smoke_state \<times> smoke_main) option" where
  "smoke_run lag [] c = Some c"
| "smoke_run lag (e # es) c = (case smoke_next e c of None \<Rightarrow> None
     | Some c' \<Rightarrow> if within_lag lag (fst c') then smoke_run lag es c' else None)"

lemma smoke_run_reach: "smoke_reach lag random c \<Longrightarrow> smoke_run lag es c = Some c' \<Longrightarrow> smoke_reach lag random c'"
  by (induction es arbitrary: c) (auto split: option.splits if_splits intro: smoke_reach.step)

definition sample_smoke_message :: smoke_message where
  "sample_smoke_message = \<lparr>mgId = ''1'', mgAckId = ''a1'', mgAttributes = JUndefined, mgDeliveryAttempt = JUndefined,
     mgOrderingKey = JUndefined, mgPublishTime = 0, mgData = []\<rparr>"

definition sample_smoke_events :: "smoke_event list" where
  "sample_smoke_events =
     [SmAnswer (Inr JUndefined), SmAnswer (Inr JUndefined), SmAnswer (Inr JUndefined),
      SmAnswer (Inl (ClientError 6 ''exists'')), SmAnswer (Inr JUndefined), SmAnswer (Inr JUndefined),
      SmAnswer (Inr JUndefined), SmAnswer (Inr JUndefined), SmAnswer (Inr JUndefined),
      SmMessage sample_smoke_message 0, SmAdvance 1, SmWake 0, SmAdvance 1200]"

lemmas smoke_eval = smoke_main_def smoke_create_def smoke_create_again_def smoke_create_catch_def smoke_topic_def
  smoke_subscribe_def smoke_publish_def await_call_def smoke_listen_def msgTimeout_refresh_def set_timeout_def sleep_def
  smoke_log_def smoke_on_message_def smoke_ack_def within_lag_def random_delay_def smoke_init_def Let_def
  smoke_next_def resume_smoke_wait

theorem smoke_acks_before_delete_witness:
  "\<exists>s s' m' s''. smoke_run 100 sample_smoke_events (run_main (smoke_main ''0.5'') (smoke_init 0)) =
      Some (s, smoke_wait ''ts-stress-5'') \<and>
     smoke_next SmTimeout (s, smoke_wait ''ts-stress-5'') = Some (s', m') \<and> smAcked s' = [sample_smoke_message] \<and>
     smoke_next SmResume (s', m') = Some (s'', smoke_delete ''ts-stress-5'') \<and> smAcked s'' = [sample_smoke_message]"
proof -
  let ?c0 = "run_main (smoke_main ''0.5'') (smoke_init 0)"
  obtain s where run: "smoke_run 100 sample_smoke_events ?c0 = Some (s, smoke_wait ''ts-stress-5'')"
    and s: "smMsgsP s = Pending" "smTimer s = Some 1101" "smClock s = 1201" "smAcked s = [sample_smoke_message]"
    by (simp add: sample_smoke_events_def smoke_eval substr_def)
  have reach: "smoke_reach 100 ''0.5'' (s, smoke_wait ''ts-stress-5'')"
    by (rule smoke_run_reach[OF smoke_reach.start run])
  let ?s' = "s\<lparr>smTimer := None, smMsgsP := Fulfilled\<rparr>"
  have out: "smoke_next SmTimeout (s, smoke_wait ''ts-stress-5'') = Some (?s', smoke_wait ''ts-stress-5'')"
    using s by (simp add: smoke_next_def resume_smoke_wait)
  have "smoke_next SmResume (?s', smoke_wait ''ts-stress-5'') \<noteq> None" by (simp add: smoke_next_def resume_smoke_wait)
  then obtain c where c: "smoke_next SmResume (?s', smoke_wait ''ts-stress-5'') = Some c" by blast
  with smoke_acks_before_delete[OF reach out] have "c = (smoke_deleting ?s', smoke_delete ''ts-stress-5'')" by blast
  with run out c s(4) show ?thesis by (simp add: smoke_deleting_def smoke_log_def)
qed

text \<open>
  The publish call takes longer than the timer: the message arrives before the call is answered, and
  the subscription is deleted while its handler sleeps.
\<close>

definition late_smoke_events :: "smoke_event list" where
  "late_smoke_events = take 8 sample_smoke_events @
     [SmAdvance 1101, SmTimeout, SmMessage sample_smoke_message (2 ^ 52), SmAnswer (Inr JUndefined), SmResume]"

theorem smoke_deletes_under_message:
  "\<exists>s. smoke_run 100 late_smoke_events (run_main (smoke_main ''0.5'') (smoke_init 0)) =
      Some (s, smoke_delete ''ts-stress-5'') \<and>
     map fst (smSleeping s) = [sample_smoke_message] \<and> smAcked s = []"
  by (simp add: late_smoke_events_def sample_smoke_events_def smoke_eval substr_def) (simp add: smoke_deleting_def smoke_log_def)

text \<open>
  The first creation makes the topic and the second is meant to fail: whichever of the
  two answers that the topic already exists (code 6), the script goes on with the topic and
  prints nothing; any other error is printed, and the script goes on all the same.
\<close>

theorem smoke_create_tolerant:
  "smoke_handle (SmAnswer (Inr v)) (s, smoke_create i) =
     Some (s\<lparr>smCalls := smCalls s @ [ClientCreateTopic i]\<rparr>, smoke_create_again i) \<and>
   (\<forall>m\<in>{smoke_create i, smoke_create_again i}. \<exists>s'.
     smoke_handle (SmAnswer (Inl (ClientError code msg))) (s, m) = Some (s', smoke_topic i) \<and>
     smConsole s' = smConsole s @ (if code = 6 then [] else [ConsoleError (ClientError code msg)]))"
  by (simp add: smoke_create_def smoke_create_again_def await_call_def smoke_create_catch_def smoke_log_def)
    (simp add: smoke_topic_def await_call_def)

theorem smoke_create_tolerant_witness:
  "\<exists>s'. smoke_handle (SmAnswer (Inl (ClientError 6 ''exists''))) (smoke_init 0, smoke_create_again ''t'') =
     Some (s', smoke_topic ''t'') \<and> smConsole s' = []"
  using smoke_create_tolerant[where s = "smoke_init 0" and i = "''t''" and code = 6 and msg = "''exists''"]
  by (simp only: insert_iff ball_simps) (simp add: smoke_init_def)

text \<open>The spread of an object without duplicate keys keeps every property but those set after it.\<close>

lemma map_of_fold_define:
  "distinct (map fst es) \<Longrightarrow> map_of (fold (\<lambda>(k, x). js_define k x) es ps) = map_of ps ++ map_of es"
proof (induction es arbitrary: ps)
  case (Cons e es)
  obtain k x where e: "e = (k, x)" by (cases e)
  from Cons.prems e have "k \<notin> dom (map_of es)" by (simp add: dom_map_of_conv_image_fst)
  then have "map_of es k = None" by blast
  with Cons e show ?case by (auto simp: map_of_js_define map_add_def fun_eq_iff split: option.splits)
qed simp

text \<open>
  Setting the metadata keeps the labels an entity has: afterwards label \<open>b\<close> is the
  clock and every other label is what it was, also when the entity came without metadata.
\<close>

theorem labels_with_b_keeps_labels:
  assumes "distinct (map fst (js_entries (js_get (js_get entity ''metadata'') ''labels'')))"
  shows "js_get (labels_with_b entity s) k =
    (if k = ''b'' then JStr (num_toString (smClock s)) else js_get (js_get (js_get entity ''metadata'') ''labels'') k)"
  using map_of_fold_define[OF assms, of "[]"]
  by (simp add: js_get_def labels_with_b_def js_object_def map_of_js_define)

theorem labels_with_b_keeps_labels_witness:
  "js_get (labels_with_b (JObj [(''metadata'', JObj [(''labels'', JObj [(''a'', JStr ''1''), (''b'', JStr ''2'')])])])
     (smoke_init 0)) ''a'' = JStr ''1''"
proof -
  let ?e = "JObj [(''metadata'', JObj [(''labels'', JObj [(''a'', JStr ''1''), (''b'', JStr ''2'')])])]"
  have "distinct (map fst (js_entries (js_get (js_get ?e ''metadata'') ''labels'')))" by (simp add: js_get_def)
  from labels_with_b_keeps_labels[OF this, of "smoke_init 0" "''a''"] show ?thesis by (simp add: js_get_def)
qed

end
