(* ===== verification/GrpcPublisher.thy ===== *)
theory GrpcPublisher
  imports GrpcCommon TsSmoke
begin

text \<open>
  The publisher service, \<open>services/grpc-publisher.go\<close>. A handler takes the answers of the SQL
  driver, the identifiers and instants that it draws, the request and the world. Of a protobuf
  message the fields that the handlers look at are kept; for a submessage that is only tested for
  presence that is a boolean.
\<close>

record pbTopic =
  ptName :: string
  ptLabels :: attrs
  ptMessageStoragePolicy :: bool
  ptKmsKeyName :: string
  ptSchemaSettings :: bool

definition entTopicToGrpc :: "topic \<Rightarrow> pbTopic" where
  "entTopicToGrpc t = \<lparr>ptName = tName t, ptLabels = tLabels t, ptMessageStoragePolicy = False,
     ptKmsKeyName = [], ptSchemaSettings = False\<rparr>"

subsection \<open>Handlers\<close>

definition bad_topic_path :: err where
  "bad_topic_path = StatusError InvalidArgument ''Unsupported project / topic path''"

definition topic_not_found :: err where
  "topic_not_found = StatusError NotFound ''Topic not found''"

text \<open>The error that a handler makes of the error of its transaction. A panic is not an error value.\<close>

definition on_error :: "(err \<Rightarrow> err) \<Rightarrow> 'a res \<Rightarrow> 'a res" where
  "on_error f r = (case r of Inl e \<Rightarrow> Inl (if is_panic e then e else f e) | Inr x \<Rightarrow> Inr x)"

definition or_status :: "err \<Rightarrow> err \<Rightarrow> err" where
  "or_status st e = (if isNotFound e then st else AsStatusError e)"

definition ListTopics :: "(string \<Rightarrow> err + uuid) \<Rightarrow> (uuid \<Rightarrow> string) \<Rightarrow> driver \<Rightarrow> string \<Rightarrow> int \<Rightarrow> string \<Rightarrow> world \<Rightarrow>
    (pbTopic list \<times> string) res \<times> world" where
  "ListTopics parse_uuid show_uuid drv project psize token w =
     (if \<not> prefix ''projects/'' project
      then (Inl (StatusError InvalidArgument ''Invalid project ID''), w)
      else DoTx drv (\<lambda>db.
        bind_res (list_page parse_uuid show_uuid tID psize token
          (filter (\<lambda>t. prefix (projectTopicPrefix project) (tName t) \<and> tDeletedAt t = None) (topics db)))
        (\<lambda>(ts, next). Inr ((map entTopicToGrpc ts, next), [], db))) w)"

definition CreateTopic :: "driver \<Rightarrow> uuid \<Rightarrow> time \<Rightarrow> pbTopic \<Rightarrow> world \<Rightarrow> pbTopic res \<times> world" where
  "CreateTopic drv i now req w =
     (if \<not> isValidTopicName (ptName req) then (Inl bad_topic_path, w)
      else if ptMessageStoragePolicy req \<or> ptKmsKeyName req \<noteq> [] \<or> ptSchemaSettings req
      then (Inl (StatusError Unimplemented ''Advanced features not supported''), w)
      else case NewCreateTopic \<lparr>ctName = ptName req, ctLabels = ptLabels req\<rparr> of
        Inl e \<Rightarrow> (Inl e, w)
      | Inr p \<Rightarrow> map_prod (on_error (\<lambda>e.
            if errors_Is e ErrExists then StatusError AlreadyExists ''Topic already exists''
            else if IsPostgreSQLErrorCode e SerializationFailure then StatusError Aborted []
            else AsStatusError e) \<circ> map_sum id (\<lambda>_. req)) id
          (DoTx drv (CreateTopic_Execute i now p) w))"

definition GetTopic :: "driver \<Rightarrow> string \<Rightarrow> world \<Rightarrow> pbTopic res \<times> world" where
  "GetTopic drv name w =
     (if \<not> isValidTopicName name then (Inl bad_topic_path, w)
      else map_prod (on_error (or_status topic_not_found)) id
        (DoTx drv (\<lambda>db. bind_res (only (live_topics name db)) (\<lambda>t. Inr (entTopicToGrpc t, [], db))) w))"

text \<open>The loop over the paths of an update: the labels to set, if any.\<close>

fun topic_updates :: "attrs \<Rightarrow> string list \<Rightarrow> attrs option \<Rightarrow> attrs option res" where
  "topic_updates labels [] upd = Inr upd"
| "topic_updates labels (p # ps) upd =
     (if p = ''name'' then Inl (StatusError InvalidArgument ''Topics cannot be renamed'')
      else if p = ''labels'' then topic_updates labels ps (Some labels)
      else if p \<in> {''message_storage_policy'', ''kms_key_name'', ''schema_settings'', ''satisfies_pzs''}
      then Inl (StatusError Unimplemented ''Modifying Topic is not supported'')
      else Inl (StatusError InvalidArgument ''Modifying Topic is not a recognized topic property''))"

text \<open>An update that changes nothing returns without a response: the nil pointer is \<open>None\<close>.\<close>

definition UpdateTopic :: "driver \<Rightarrow> pbTopic \<Rightarrow> string list \<Rightarrow> world \<Rightarrow> pbTopic option res \<times> world" where
  "UpdateTopic drv req paths w =
     (if \<not> isValidTopicName (ptName req) then (Inl bad_topic_path, w)
      else DoTx drv (\<lambda>db.
        bind_res (on_error (or_status topic_not_found) (only (live_topics (ptName req) db))) (\<lambda>t.
        bind_res (topic_updates (ptLabels req) paths None) (\<lambda>upd.
          case upd of
            None \<Rightarrow> Inr (None, [], db)
          | Some labels \<Rightarrow>
              (let t' = t\<lparr>tLabels := labels\<rparr> in
               bind_res (on_error (\<lambda>e. StatusError Unknown [])
                 (update_topics (\<lambda>x. tID x = tID t) (\<lambda>x. x\<lparr>tLabels := labels\<rparr>) db)) (\<lambda>db'.
               Inr (Some (entTopicToGrpc t'), [NotifyModifyTopic (tID t') (tName t')], db')))))) w)"

definition DeleteTopic :: "driver \<Rightarrow> time \<Rightarrow> string \<Rightarrow> world \<Rightarrow> unit res \<times> world" where
  "DeleteTopic drv now name w =
     (if \<not> isValidTopicName name then (Inl bad_topic_path, w)
      else map_prod (on_error (or_status topic_not_found) \<circ> map_sum id (\<lambda>_. ())) id
        (DoTx drv (DeleteTopic_Execute now name) w))"

definition ListTopicSubscriptions :: "(string \<Rightarrow> err + uuid) \<Rightarrow> (uuid \<Rightarrow> string) \<Rightarrow> driver \<Rightarrow> string \<Rightarrow> int \<Rightarrow>
    string \<Rightarrow> world \<Rightarrow> (string list \<times> string) res \<times> world" where
  "ListTopicSubscriptions parse_uuid show_uuid drv name psize token w =
     (if \<not> isValidTopicName name then (Inl bad_topic_path, w)
      else DoTx drv (\<lambda>db.
        bind_res (on_error (or_status topic_not_found) (only (live_topics name db))) (\<lambda>t.
        bind_res (list_page parse_uuid show_uuid sID psize token (topic_live_subs (tID t) db))
        (\<lambda>(ss, next). Inr ((map sName ss, next), [], db)))) w)"

record pbMessage =
  pbData :: string
  pbAttributes :: attrs
  pbOrderingKey :: string

definition publish_params :: "topic \<Rightarrow> pbMessage \<Rightarrow> publishMessageParams" where
  "publish_params t m = \<lparr>pmTopicName = tName t, pmTopicID = Some (tID t), pmPayload = pbData m,
     pmAttributes = pbAttributes m, pmOrderKey = pbOrderingKey m\<rparr>"

text \<open>
  The k-th message of a request gets the identifier \<open>mid k\<close>, is published at \<open>nows k\<close> and its
  deliveries draw from \<open>newID k\<close>.
\<close>

fun publishEach :: "filter_parser \<Rightarrow> (nat \<Rightarrow> uuid) \<Rightarrow> (nat \<Rightarrow> nat \<Rightarrow> uuid) \<Rightarrow> (nat \<Rightarrow> time) \<Rightarrow> topic \<Rightarrow> nat \<Rightarrow>
    pbMessage list \<Rightarrow> uuid list exec" where
  "publishEach parse mid newID nows t k [] db = Inr ([], [], db)"
| "publishEach parse mid newID nows t k (m # ms) db =
     bind_res (NewPublishMessage (publish_params t m)) (\<lambda>p.
     bind_res (on_error AsStatusError (PublishMessage_Execute parse (mid k) (newID k) (nows k) p db)) (\<lambda>(r, ns, db1).
     bind_res (publishEach parse mid newID nows t (Suc k) ms db1) (\<lambda>(rs, ns', db2).
       Inr (pmrID r # rs, ns @ ns', db2))))"

definition Publish :: "filter_parser \<Rightarrow> (uuid \<Rightarrow> string) \<Rightarrow> driver \<Rightarrow> (nat \<Rightarrow> uuid) \<Rightarrow> (nat \<Rightarrow> nat \<Rightarrow> uuid) \<Rightarrow>
    (nat \<Rightarrow> time) \<Rightarrow> string \<Rightarrow> pbMessage list \<Rightarrow> world \<Rightarrow> string list res \<times> world" where
  "Publish parse show_uuid drv mid newID nows name ms w =
     (if \<not> isValidTopicName name then (Inl bad_topic_path, w)
      else DoTx drv (\<lambda>db.
        bind_res (on_error (or_status topic_not_found) (only (live_topics name db))) (\<lambda>t.
        bind_res (publishEach parse mid newID nows t 0 ms db) (\<lambda>(ids, ns, db').
          Inr (map show_uuid ids, ns, db')))) w)"

subsection \<open>Listing\<close>

definition project_topics :: "string \<Rightarrow> database \<Rightarrow> topic list" where
  "project_topics project db =
     filter (\<lambda>t. prefix (projectTopicPrefix project) (tName t) \<and> tDeletedAt t = None) (topics db)"

definition topic_subs :: "string \<Rightarrow> database \<Rightarrow> subscription list" where
  "topic_subs name db = concat (map (\<lambda>t. topic_live_subs (tID t) db) (live_topics name db))"

lemma distinct_keys_filter: "distinct (map key rs) \<Longrightarrow> distinct (map key (filter P rs))"
  by (rule distinct_map_filter)

interpretation list_topics: paged_listing ListTopics "\<lambda>q _. prefix ''projects/'' q" project_topics tID "\<lambda>_. entTopicToGrpc"
proof unfold_locales
  fix parse_uuid :: "string \<Rightarrow> err + uuid" and show_uuid :: "uuid \<Rightarrow> string" and drv q psize token and w :: world
  assume q: "prefix ''projects/'' q" and drv: "drv_ok drv"
  let ?r = "list_page parse_uuid show_uuid tID psize token (project_topics q (wDb w))"
  have "ListTopics parse_uuid show_uuid drv q psize token w = DoTx drv (\<lambda>db.
      bind_res (list_page parse_uuid show_uuid tID psize token (project_topics q db))
        (\<lambda>(ts, next). Inr ((map entTopicToGrpc ts, next), [], db))) w"
    using q by (simp add: ListTopics_def project_topics_def)
  also have "\<dots> = (map_sum id (map_prod (map entTopicToGrpc) id) ?r, w)"
    by (rule DoTx_read[OF drv _ list_page_no_panic]) (auto simp: bind_res_def split: sum.splits)
  finally show "ListTopics parse_uuid show_uuid drv q psize token w = \<dots>" .
next
  fix db q assume "wf_db db"
  then show "distinct (map tID (project_topics q db))"
    unfolding project_topics_def by (rule distinct_keys_filter[OF wf_db_distinct(1)])
qed

interpretation list_topic_subs: paged_listing ListTopicSubscriptions
  "\<lambda>q db. isValidTopicName q \<and> length (live_topics q db) = 1" topic_subs sID "\<lambda>_. sName"
proof unfold_locales
  fix parse_uuid :: "string \<Rightarrow> err + uuid" and show_uuid :: "uuid \<Rightarrow> string" and drv q psize token and w :: world
  assume q: "isValidTopicName q \<and> length (live_topics q (wDb w)) = 1" and drv: "drv_ok drv"
  then obtain t where t: "live_topics q (wDb w) = [t]" by (auto simp: length_Suc_conv)
  let ?r = "list_page parse_uuid show_uuid sID psize token (topic_subs q (wDb w))"
  have "ListTopicSubscriptions parse_uuid show_uuid drv q psize token w = (map_sum id (map_prod (map sName) id) ?r, w)"
    unfolding ListTopicSubscriptions_def
    by (simp add: q) (rule DoTx_read[OF drv _ list_page_no_panic], auto simp: t topic_subs_def on_error_def bind_res_def split: sum.splits)
  then show "ListTopicSubscriptions parse_uuid show_uuid drv q psize token w = \<dots>" .
next
  fix db q assume wf: "wf_db db"
  have "length (live_topics q db) \<le> 1" using wf by (rule live_topics_le_1)
  then obtain ts where "topic_subs q db = filter (\<lambda>s. sTopicID s \<in> ts \<and> sDeletedAt s = None) (subscriptions db)"
  proof (cases "live_topics q db")
    case Nil
    then show ?thesis using that[of "{}"] by (simp add: topic_subs_def)
  next
    case (Cons t tl)
    with \<open>length (live_topics q db) \<le> 1\<close> show ?thesis using that[of "{tID t}"] by (simp add: topic_subs_def topic_live_subs_def)
  qed
  then show "distinct (map sID (topic_subs q db))" using distinct_keys_filter[OF wf_db_distinct(2)[OF wf]] by simp
qed

text \<open>
  Property C31. A client that follows the page tokens of \<open>ListTopics\<close>, whatever page size it asks
  for, gets every live topic of the project exactly once, in the order of the identifiers, and
  nothing else; it is done after at most one request more than there are such topics.
\<close>

theorem ListTopics_complete:
  assumes "uuid_text parse_uuid show_uuid" and "wf_db (wDb w)" and "prefix ''projects/'' project" and "drv_ok drv"
  shows "follow (Suc (length (project_topics project (wDb w))))
      (\<lambda>t. fst (ListTopics parse_uuid show_uuid drv project psize t w)) [] =
    Some (map entTopicToGrpc (sort_key tID (project_topics project (wDb w))))"
  by (rule list_topics.follow_complete[OF assms]) simp

definition sample_named_db :: database where
  "sample_named_db = empty_db\<lparr>topics :=
     [\<lparr>tID = 2, tName = ''projects/p/topics/b'', tCreatedAt = 0, tLive = Some True, tDeletedAt = None, tLabels = Map.empty\<rparr>,
      \<lparr>tID = 1, tName = ''projects/p/topics/a'', tCreatedAt = 0, tLive = Some True, tDeletedAt = None, tLabels = Map.empty\<rparr>]\<rparr>"

definition sample_world :: world where
  "sample_world = \<lparr>wDb = sample_named_db, wNotify = init_notify\<rparr>"

lemma wf_sample_named_db: "wf_db sample_named_db"
  by (simp add: sample_named_db_def empty_db_def wf_defs id_defs unique_live_def all_consistent_def live_consistent_def)

lemma drv_ok_good: "drv_ok good_driver"
  by (simp add: drv_ok_def good_driver_def)

theorem ListTopics_complete_witness:
  "follow 3 (\<lambda>t. fst (ListTopics unary_parse unary_show good_driver ''projects/p'' 1 t sample_world)) [] =
     Some (map entTopicToGrpc [topics sample_named_db ! 1, topics sample_named_db ! 0])"
proof -
  have "project_topics ''projects/p'' (wDb sample_world) = topics sample_named_db"
    by (simp add: project_topics_def projectTopicPrefix_def sample_world_def sample_named_db_def empty_db_def)
  moreover have "sort_key tID (topics sample_named_db) = [topics sample_named_db ! 1, topics sample_named_db ! 0]"
    by (simp add: sample_named_db_def empty_db_def word_le_nat_alt)
  moreover have "length (topics sample_named_db) = 2" by (simp add: sample_named_db_def)
  moreover have "wf_db (wDb sample_world)" by (simp add: sample_world_def wf_sample_named_db)
  ultimately show ?thesis
    using ListTopics_complete[OF uuid_text_unary, of sample_world "''projects/p''" good_driver 1] drv_ok_good
    by (simp add: numeral_3_eq_3)
qed

subsection \<open>Publishing a batch\<close>

text \<open>The identifiers that \<open>n\<close> messages draw, from the \<open>k\<close>-th on, are new and distinct.\<close>

definition batch_fresh :: "(nat \<Rightarrow> uuid) \<Rightarrow> (nat \<Rightarrow> nat \<Rightarrow> uuid) \<Rightarrow> nat \<Rightarrow> nat \<Rightarrow> database \<Rightarrow> bool" where
  "batch_fresh mid newID k n db \<longleftrightarrow>
     inj_on mid {k..<k + n} \<and> (\<forall>j\<in>{k..<k + n}. mid j \<notin> message_ids db) \<and>
     inj_on (\<lambda>(j, x). newID j x) ({k..<k + n} \<times> {..<length (subscriptions db)}) \<and>
     (\<forall>j\<in>{k..<k + n}. \<forall>x<length (subscriptions db). newID j x \<notin> delivery_ids db)"

definition entries :: "filter_parser \<Rightarrow> topic \<Rightarrow> database \<Rightarrow> (nat \<Rightarrow> uuid) \<Rightarrow> pbMessage \<Rightarrow> (uuid \<times> uuid) list" where
  "entries parse t db ids m = map (\<lambda>(x, s). (sID s, ids x))
     (enumerate 0 (filter (\<lambda>s. accepts parse s (pbAttributes m)) (topic_live_subs (tID t) db)))"

definition stored_message :: "(nat \<Rightarrow> uuid) \<Rightarrow> (nat \<Rightarrow> time) \<Rightarrow> topic \<Rightarrow> nat \<times> pbMessage \<Rightarrow> message" where
  "stored_message mid nows t = (\<lambda>(k, m). \<lparr>mID = mid k, mTopicID = tID t, mPayload = pbData m,
     mAttributes = pbAttributes m, mPublishedAt = nows k, mOrderKey = nonempty (pbOrderingKey m)\<rparr>)"

lemma batch_fresh_first:
  assumes "batch_fresh mid newID k (Suc n) db"
  shows "mid k \<notin> message_ids db" and "fresh_ids (newID k) (length (subscriptions db)) db"
proof -
  have k: "k \<in> {k..<k + Suc n}" by simp
  then show "mid k \<notin> message_ids db" using assms unfolding batch_fresh_def by blast
  have ids: "inj_on (\<lambda>(j, x). newID j x) ({k..<k + Suc n} \<times> {..<length (subscriptions db)})"
    and new: "\<forall>j\<in>{k..<k + Suc n}. \<forall>x<length (subscriptions db). newID j x \<notin> delivery_ids db"
    using assms unfolding batch_fresh_def by blast+
  have "inj_on (newID k) {..<length (subscriptions db)}"
  proof (rule inj_onI)
    fix x y assume "x \<in> {..<length (subscriptions db)}" "y \<in> {..<length (subscriptions db)}" "newID k x = newID k y"
    then show "x = y" using inj_onD[OF ids, of "(k, x)" "(k, y)"] k by simp
  qed
  then show "fresh_ids (newID k) (length (subscriptions db)) db" using new k unfolding fresh_ids_def by blast
qed

lemma batch_fresh_rest:
  assumes "batch_fresh mid newID k (Suc n) db" and "subscriptions db' = subscriptions db"
    and "message_ids db' = insert (mid k) (message_ids db)"
    and "delivery_ids db' \<subseteq> delivery_ids db \<union> newID k ` {..<length (subscriptions db)}"
  shows "batch_fresh mid newID (Suc k) n db'"
proof -
  have mid: "inj_on mid {k..<k + Suc n}" "\<forall>j\<in>{k..<k + Suc n}. mid j \<notin> message_ids db"
    and ids: "inj_on (\<lambda>(j, x). newID j x) ({k..<k + Suc n} \<times> {..<length (subscriptions db)})"
      "\<forall>j\<in>{k..<k + Suc n}. \<forall>x<length (subscriptions db). newID j x \<notin> delivery_ids db"
    using assms(1) by (auto simp: batch_fresh_def)
  have sub: "{Suc k..<Suc k + n} \<subseteq> {k..<k + Suc n}" by auto
  have "mid j \<noteq> mid k" if "j \<in> {Suc k..<Suc k + n}" for j
    using inj_onD[OF mid(1), of j k] that by auto
  moreover have "newID j x \<notin> newID k ` {..<length (subscriptions db)}"
    if "j \<in> {Suc k..<Suc k + n}" "x < length (subscriptions db)" for j x
  proof
    assume "newID j x \<in> newID k ` {..<length (subscriptions db)}"
    then obtain y where "y < length (subscriptions db)" "newID j x = newID k y" by auto
    then show False using inj_onD[OF ids(1), of "(j, x)" "(k, y)"] that by auto
  qed
  ultimately have "mid j \<notin> message_ids db'" "\<And>x. x < length (subscriptions db) \<Longrightarrow> newID j x \<notin> delivery_ids db'"
    if "j \<in> {Suc k..<Suc k + n}" for j
    using mid(2) ids(2) assms(3,4) subsetD[OF sub that] that by blast+
  then show ?thesis
    using inj_on_subset[OF mid(1) sub] inj_on_subset[OF ids(1) Sigma_mono[OF sub order_refl]]
    unfolding batch_fresh_def assms(2) by blast
qed

lemma publish_step:
  assumes "wf_db db" and "parse_wf parse" and "t \<in> set (topics db)" and "tDeletedAt t = None"
    and "i \<notin> message_ids db" and "fresh_ids ids (length (subscriptions db)) db"
  obtains r ns db' where "PublishMessage_Execute parse i ids now (publish_params t m) db = Inr (r, ns, db')"
    and "pmrID r = i" and "wf_db db'" and "topics db' = topics db" and "subscriptions db' = subscriptions db"
    and "messages db' = messages db @ [\<lparr>mID = i, mTopicID = tID t, mPayload = pbData m, mAttributes = pbAttributes m,
      mPublishedAt = now, mOrderKey = nonempty (pbOrderingKey m)\<rparr>]"
    and "message_ids db' = insert i (message_ids db)"
    and "delivery_ids db' \<subseteq> delivery_ids db \<union> ids ` {..<length (subscriptions db)}"
    and "backlog db' = enqueue i (entries parse t db ids m) (backlog db)"
proof -
  let ?p = "publish_params t m"
  have p: "pmTopicName ?p \<noteq> [] \<or> pmTopicID ?p \<noteq> None" by (simp add: publish_params_def)
  have one: "length (filter (topicMatch ?p) (topics db)) \<le> 1" using assms(1) p by (rule topicMatch_unique)
  have "topicMatch ?p t" using assms(4) by (simp add: topicMatch_def publish_params_def)
  then have "t \<in> set (filter (topicMatch ?p) (topics db))" using assms(3) by simp
  with one have ts: "filter (topicMatch ?p) (topics db) = [t]"
    by (cases "filter (topicMatch ?p) (topics db)") auto
  obtain m' ds db' where r: "publish_result parse i ids now ?p t db = (m', ds, db')" by (rule prod_cases3)
  let ?r = "\<lparr>pmrID = i, pmrNumDeliveries = length ds\<rparr>"
  have ex: "PublishMessage_Execute parse i ids now ?p db = Inr (?r, publish_notices ds, db')"
    using PublishMessage_eq[OF assms(1,2) p assms(5,6), of now] ts r by simp
  have m': "m' = \<lparr>mID = i, mTopicID = tID t, mPayload = pbData m, mAttributes = pbAttributes m,
      mPublishedAt = now, mOrderKey = nonempty (pbOrderingKey m)\<rparr>"
    and ds: "ds = deliveries_for parse (db\<lparr>messages := messages db @ [m']\<rparr>) m' now ids 0 (topic_live_subs (tID t) db)"
    and db': "db' = db\<lparr>messages := messages db @ [m'], deliveries := deliveries db @ ds\<rparr>"
    using r by (auto simp: publish_result_def Let_def publish_params_def)
  have "dID ` set ds = ids ` {..<length (filter (\<lambda>s. accepts parse s (mAttributes m')) (topic_live_subs (tID t) db))}"
    using arg_cong[OF deliveries_for_ids[of parse "db\<lparr>messages := messages db @ [m']\<rparr>" m' now ids "topic_live_subs (tID t) db"], of set]
    by (simp add: ds atLeast0LessThan)
  also have "\<dots> \<subseteq> ids ` {..<length (subscriptions db)}"
  proof (rule image_mono, rule subsetI)
    fix x assume "x \<in> {..<length (filter (\<lambda>s. accepts parse s (mAttributes m')) (topic_live_subs (tID t) db))}"
    moreover have "length (filter (\<lambda>s. accepts parse s (mAttributes m')) (topic_live_subs (tID t) db)) \<le> length (subscriptions db)"
      unfolding topic_live_subs_def by (rule order_trans[OF length_filter_le length_filter_le])
    ultimately show "x \<in> {..<length (subscriptions db)}" by simp
  qed
  finally have new: "dID ` set ds \<subseteq> ids ` {..<length (subscriptions db)}" .
  obtain t' where "t' \<in> set (topics db)" "topicMatch ?p t'"
    and bl: "backlog db' = enqueue i (map (\<lambda>(j, s). (sID s, ids j)) (enumerate 0
      (filter (\<lambda>s. accepts parse s (pmAttributes ?p)) (topic_live_subs (tID t') db)))) (backlog db)"
    using backlog_publish[OF assms(1,2) p assms(5,6) ex] by blast
  then have "t' \<in> set (filter (topicMatch ?p) (topics db))" by simp
  then have "t' = t" using ts by simp
  show thesis
  proof (rule that[OF ex])
    show "wf_db db'" using assms(1) ex by (rule wf_PublishMessage)
    show "backlog db' = enqueue i (entries parse t db ids m) (backlog db)"
      using bl by (simp add: \<open>t' = t\<close> entries_def publish_params_def)
  qed (use new in \<open>auto simp: db' m' message_ids_def delivery_ids_def\<close>)
qed

lemma publishEach_ok:
  assumes "parse_wf parse" and "tDeletedAt t = None"
    and "wf_db db" and "t \<in> set (topics db)" and "batch_fresh mid newID k (length ms) db"
  shows "\<exists>ns db'. publishEach parse mid newID nows t k ms db = Inr (map mid [k..<k + length ms], ns, db') \<and>
    topics db' = topics db \<and> subscriptions db' = subscriptions db \<and>
    messages db' = messages db @ map (stored_message mid nows t) (enumerate k ms) \<and>
    backlog db' = fold (\<lambda>(j, m). enqueue (mid j) (entries parse t db (newID j) m)) (enumerate k ms) (backlog db)"
  using assms(3-5)
proof (induction ms arbitrary: k db)
  case (Cons m ms)
  have f: "batch_fresh mid newID k (Suc (length ms)) db" using Cons.prems(3) by simp
  obtain r ns db1 where ex: "PublishMessage_Execute parse (mid k) (newID k) (nows k) (publish_params t m) db = Inr (r, ns, db1)"
    and r: "pmrID r = mid k" and wf: "wf_db db1" and same: "topics db1 = topics db" "subscriptions db1 = subscriptions db"
    and ms: "messages db1 = messages db @ [\<lparr>mID = mid k, mTopicID = tID t, mPayload = pbData m, mAttributes = pbAttributes m,
      mPublishedAt = nows k, mOrderKey = nonempty (pbOrderingKey m)\<rparr>]"
    and ids: "message_ids db1 = insert (mid k) (message_ids db)"
      "delivery_ids db1 \<subseteq> delivery_ids db \<union> newID k ` {..<length (subscriptions db)}"
    and bl: "backlog db1 = enqueue (mid k) (entries parse t db (newID k) m) (backlog db)"
    using publish_step[OF Cons.prems(1) assms(1) Cons.prems(2) assms(2) batch_fresh_first[OF f]] .
  have new: "NewPublishMessage (publish_params t m) = Inr (publish_params t m)"
    by (simp add: NewPublishMessage_def publish_params_def)
  have upt: "[k..<k + length (m # ms)] = k # [Suc k..<Suc k + length ms]" by (simp add: upt_conv_Cons del: upt_Suc)
  have ent: "entries parse t db1 = entries parse t db" by (simp add: entries_def[abs_def] topic_live_subs_def same)
  have "batch_fresh mid newID (Suc k) (length ms) db1" using batch_fresh_rest[OF f same(2) ids] .
  then obtain ns' db2 where rest: "publishEach parse mid newID nows t (Suc k) ms db1 =
      Inr (map mid [Suc k..<Suc k + length ms], ns', db2)" and db2: "topics db2 = topics db1" "subscriptions db2 = subscriptions db1"
      "messages db2 = messages db1 @ map (stored_message mid nows t) (enumerate (Suc k) ms)"
      "backlog db2 = fold (\<lambda>(j, m). enqueue (mid j) (entries parse t db1 (newID j) m)) (enumerate (Suc k) ms) (backlog db1)"
    using Cons.IH[OF wf, of "Suc k"] Cons.prems(2) same(1) by auto
  have "publishEach parse mid newID nows t k (m # ms) db = Inr (map mid [k..<k + length (m # ms)], ns @ ns', db2)"
    using ex r new rest upt by (simp add: on_error_def del: upt_Suc)
  moreover have "messages db2 = messages db @ map (stored_message mid nows t) (enumerate k (m # ms))"
    by (simp add: db2(3) ms stored_message_def)
  ultimately show ?case using db2 bl same ent by (intro exI) auto
qed simp

text \<open>
  Property C3. \<open>Publish\<close> is all or nothing and keeps the order of the request. A bad name or a
  topic that is not there is answered with \<open>InvalidArgument\<close> or \<open>NotFound\<close> and nothing changes.
  Otherwise all messages are stored, in the order of the request, the response lists their
  identifiers in that order, and the backlogs are those of the queue specification after enqueueing
  message by message.
\<close>

theorem Publish_correct:
  assumes "wf_db (wDb w)" and "parse_wf parse" and "drv_ok drv" and "batch_fresh mid newID 0 (length ms) (wDb w)"
  shows "case Publish parse show_uuid drv mid newID nows name ms w of
      (Inl e, w') \<Rightarrow> w' = w \<and> status_of e =
        Some (if isValidTopicName name then NotFound else InvalidArgument) \<and>
        (isValidTopicName name \<longrightarrow> live_topics name (wDb w) = [])
    | (Inr ids, w') \<Rightarrow> isValidTopicName name \<and> ids = map (show_uuid \<circ> mid) [0..<length ms] \<and>
        (\<exists>t. live_topics name (wDb w) = [t] \<and>
           messages (wDb w') = messages (wDb w) @ map (stored_message mid nows t) (enumerate 0 ms) \<and>
           backlog (wDb w') = fold (\<lambda>(j, m). enqueue (mid j) (entries parse t (wDb w) (newID j) m)) (enumerate 0 ms)
             (backlog (wDb w)))"
proof (cases "isValidTopicName name")
  case False
  then show ?thesis by (simp add: Publish_def bad_topic_path_def)
next
  case valid: True
  show ?thesis
  proof (cases "live_topics name (wDb w)")
    case Nil
    then show ?thesis
      using assms(3) valid by (simp add: Publish_def DoTx_def drv_ok_def on_error_def or_status_def isNotFound_def
          topic_not_found_def finish_error_def)
  next
    case (Cons t ts)
    with live_topics_le_1[OF assms(1), of name] have t: "live_topics name (wDb w) = [t]" by simp
    then have "t \<in> set (live_topics name (wDb w))" by simp
    then have "t \<in> set (topics (wDb w))" "tDeletedAt t = None" by (simp_all add: live_topics_def)
    then obtain ns db' where ok: "publishEach parse mid newID nows t 0 ms (wDb w) = Inr (map mid [0..<length ms], ns, db')"
      and ms: "messages db' = messages (wDb w) @ map (stored_message mid nows t) (enumerate 0 ms)"
      and bl: "backlog db' = fold (\<lambda>(j, m). enqueue (mid j) (entries parse t (wDb w) (newID j) m)) (enumerate 0 ms) (backlog (wDb w))"
      using publishEach_ok[OF assms(2) _ assms(1) _ assms(4), of t nows] by auto
    have "Publish parse show_uuid drv mid newID nows name ms w =
        (Inr (map (show_uuid \<circ> mid) [0..<length ms]), w\<lparr>wDb := db', wNotify := fold run_notice (rev ns) (wNotify w)\<rparr>)"
      using assms(3) valid ok t by (simp add: Publish_def drv_ok_def on_error_def DoTx_ok)
    then show ?thesis using valid t ms bl by simp
  qed
qed

lemma sample_valid: "isValidTopicName ''projects/p/topics/a''"
  by (simp add: isValidTopicName_def isValidName_def)

lemma sample_live: "live_topics ''projects/p/topics/a'' (wDb sample_world) = [topics sample_named_db ! 1]"
  by (simp add: live_topics_def sample_world_def sample_named_db_def)

theorem Publish_correct_witness:
  "\<exists>w' t. Publish (\<lambda>_. None) unary_show good_driver (\<lambda>k. of_nat k) (\<lambda>j x. of_nat (j + x)) (\<lambda>_. 5) ''projects/p/topics/a''
       [\<lparr>pbData = ''1'', pbAttributes = Map.empty, pbOrderingKey = []\<rparr>,
        \<lparr>pbData = ''2'', pbAttributes = Map.empty, pbOrderingKey = []\<rparr>] sample_world = (Inr [''1'', ''11''], w') \<and>
     messages (wDb w') = map (stored_message (\<lambda>k. of_nat k) (\<lambda>_. 5) t)
       [(0, \<lparr>pbData = ''1'', pbAttributes = Map.empty, pbOrderingKey = []\<rparr>),
        (1, \<lparr>pbData = ''2'', pbAttributes = Map.empty, pbOrderingKey = []\<rparr>)]"
proof -
  let ?ms = "[\<lparr>pbData = ''1'', pbAttributes = Map.empty, pbOrderingKey = []\<rparr>,
        \<lparr>pbData = ''2'', pbAttributes = Map.empty, pbOrderingKey = []\<rparr>]"
  let ?mid = "\<lambda>k. of_nat k :: uuid"
  have wf: "wf_db (wDb sample_world)" and p: "parse_wf (\<lambda>_. None)"
    by (simp_all add: sample_world_def wf_sample_named_db parse_wf_def)
  have f: "batch_fresh ?mid (\<lambda>j x. of_nat (j + x)) 0 (length ?ms) (wDb sample_world)"
    by (auto simp: batch_fresh_def sample_world_def sample_named_db_def empty_db_def id_defs inj_on_def less_Suc_eq numeral_2_eq_2)
  note ok = Publish_correct[OF wf p drv_ok_good f, where show_uuid = unary_show and nows = "\<lambda>_. 5" and name = "''projects/p/topics/a''"]
  obtain r w' where r: "Publish (\<lambda>_. None) unary_show good_driver ?mid (\<lambda>j x. of_nat (j + x)) (\<lambda>_. 5)
      ''projects/p/topics/a'' ?ms sample_world = (r, w')" by (rule prod.exhaust)
  then obtain ids where ids: "r = Inr ids" using ok sample_valid sample_live by (cases r) auto
  have m0: "messages (wDb sample_world) = []" by (simp add: sample_world_def sample_named_db_def empty_db_def)
  have "ids = [''1'', ''11'']" using ok r ids by (simp add: unary_show_def upt_rec numeral_2_eq_2)
  moreover obtain t where "messages (wDb w') = map (stored_message ?mid (\<lambda>_. 5) t) (enumerate 0 ?ms)"
    using ok r ids m0 by auto
  ultimately show ?thesis using r ids by (auto simp: numeral_eq_Suc)
qed

subsection \<open>The life of a topic\<close>

lemma live_topicsD:
  assumes "live_topics name db = [t]"
  shows "t \<in> set (topics db)" and "tName t = name" and "tDeletedAt t = None"
proof -
  have "t \<in> set (live_topics name db)" using assms by simp
  then show "t \<in> set (topics db)" and "tName t = name" and "tDeletedAt t = None" by (simp_all add: live_topics_def)
qed

lemma GetTopic_live:
  assumes "drv_ok drv" and "isValidTopicName name" and "live_topics name (wDb w) = [t]"
  shows "GetTopic drv name w = (Inr (entTopicToGrpc t), w)"
  using assms by (simp add: GetTopic_def DoTx_ok drv_ok_def on_error_def)

lemma CreateTopic_exists:
  assumes "drv_ok drv" and "isValidTopicName (ptName req)" and "live_topics (ptName req) (wDb w) \<noteq> []"
    and "\<not> (ptMessageStoragePolicy req \<or> ptKmsKeyName req \<noteq> [] \<or> ptSchemaSettings req)"
  shows "CreateTopic drv i now req w = (Inl (StatusError AlreadyExists ''Topic already exists''), w)"
proof -
  have "ptName req \<noteq> []" using assms(2) by (auto simp: isValidTopicName_def isValidName_def)
  then show ?thesis
    using assms by (simp add: CreateTopic_def NewCreateTopic_def DoTx_def drv_ok_def CreateTopic_Execute_def
        finish_error_def on_error_def)
qed

lemma CreateTopic_new:
  assumes "drv_ok drv" and "isValidTopicName (ptName req)" and "live_topics (ptName req) (wDb w) = []"
    and "\<not> (ptMessageStoragePolicy req \<or> ptKmsKeyName req \<noteq> [] \<or> ptSchemaSettings req)"
    and "wf_db (wDb w)" and "i \<notin> topic_ids (wDb w)"
  obtains w' where "CreateTopic drv i now req w = (Inr req, w')"
    and "topics (wDb w') = topics (wDb w) @ [\<lparr>tID = i, tName = ptName req, tCreatedAt = now, tLive = Some True,
      tDeletedAt = None, tLabels = ptLabels req\<rparr>]"
proof -
  let ?p = "\<lparr>ctName = ptName req, ctLabels = ptLabels req\<rparr>"
  have ne: "ptName req \<noteq> []" using assms(2) by (auto simp: isValidTopicName_def isValidName_def)
  then have "CreateTopic drv i now req w = map_prod (on_error (\<lambda>e.
            if errors_Is e ErrExists then StatusError AlreadyExists ''Topic already exists''
            else if IsPostgreSQLErrorCode e SerializationFailure then StatusError Aborted []
            else AsStatusError e) \<circ> map_sum id (\<lambda>_. req)) id (DoTx drv (CreateTopic_Execute i now ?p) w)"
    using assms(2,4) by (simp add: CreateTopic_def NewCreateTopic_def)
  moreover have "CreateTopic_Execute i now ?p (wDb w) = Inr (\<lparr>ctrID = i\<rparr>, [NotifyModifyTopic i (ptName req)],
      (wDb w)\<lparr>topics := topics (wDb w) @ [\<lparr>tID = i, tName = ptName req, tCreatedAt = now, tLive = Some True,
        tDeletedAt = None, tLabels = ptLabels req\<rparr>]\<rparr>)"
    using CreateTopic_ok[OF assms(5), of ?p i now] assms(3,6) ne by simp
  ultimately show thesis
    using that assms(1) by (simp add: DoTx_ok drv_ok_def on_error_def)
qed

text \<open>
  Property C16. The publisher's calls on one name fit together, and with the client that expects
  them to. Where no topic of that name is live, creating one returns the request, reading it then
  gives the labels it was created with, and creating it again is answered with \<open>AlreadyExists\<close>,
  which is the one code that the smoke test of the TypeScript client ignores; where a topic is live
  already, creating is answered in the same way and changes nothing.
\<close>

theorem CreateTopic_then_exists:
  assumes "wf_db (wDb w)" and "drv_ok drv" and "drv_ok drv'" and "isValidTopicName (ptName req)"
    and "\<not> (ptMessageStoragePolicy req \<or> ptKmsKeyName req \<noteq> [] \<or> ptSchemaSettings req)" and "i \<notin> topic_ids (wDb w)"
  shows "\<exists>w' m. (if live_topics (ptName req) (wDb w) = [] then CreateTopic drv i now req w = (Inr req, w')
      else w' = w) \<and>
    (\<exists>t. GetTopic drv' (ptName req) w' = (Inr t, w') \<and> ptName t = ptName req \<and>
      (live_topics (ptName req) (wDb w) = [] \<longrightarrow> ptLabels t = ptLabels req)) \<and>
    CreateTopic drv' i' now' req w' = (Inl (StatusError AlreadyExists m), w') \<and>
    (\<exists>s'. smoke_handle (SmAnswer (Inl (ClientError AlreadyExists m))) (s, smoke_create_again n) = Some (s', smoke_topic n) \<and>
      smConsole s' = smConsole s)"
proof -
  have js: "\<exists>s'. smoke_handle (SmAnswer (Inl (ClientError AlreadyExists ''Topic already exists''))) (s, smoke_create_again n) =
      Some (s', smoke_topic n) \<and> smConsole s' = smConsole s"
    by (simp add: AlreadyExists_def smoke_create_again_def await_call_def smoke_create_catch_def)
      (simp add: smoke_topic_def await_call_def)
  show ?thesis
  proof (cases "live_topics (ptName req) (wDb w)")
    case Nil
    obtain w' where new: "CreateTopic drv i now req w = (Inr req, w')"
      and ts: "topics (wDb w') = topics (wDb w) @ [\<lparr>tID = i, tName = ptName req, tCreatedAt = now, tLive = Some True,
        tDeletedAt = None, tLabels = ptLabels req\<rparr>]"
      using CreateTopic_new[OF assms(2,4) Nil assms(5,1,6)] .
    have live: "live_topics (ptName req) (wDb w') = [\<lparr>tID = i, tName = ptName req, tCreatedAt = now, tLive = Some True,
        tDeletedAt = None, tLabels = ptLabels req\<rparr>]"
      using Nil by (simp add: live_topics_def ts)
    show ?thesis
      using Nil new js GetTopic_live[OF assms(3,4) live] CreateTopic_exists[OF assms(3,4) _ assms(5), of w'] live
      by (intro exI[of _ w'] exI[of _ "''Topic already exists''"]) (simp add: entTopicToGrpc_def)
  next
    case (Cons t ts)
    with live_topics_le_1[OF assms(1), of "ptName req"] have live: "live_topics (ptName req) (wDb w) = [t]" by simp
    then have "tName t = ptName req" by (rule live_topicsD(2))
    then show ?thesis
      using js live GetTopic_live[OF assms(3,4) live] CreateTopic_exists[OF assms(3,4) _ assms(5), of w]
      by (intro exI[of _ w] exI[of _ "''Topic already exists''"]) (simp add: entTopicToGrpc_def)
  qed
qed

definition sample_pb_topic :: pbTopic where
  "sample_pb_topic = \<lparr>ptName = ''projects/p/topics/a'', ptLabels = [''k'' \<mapsto> ''v''], ptMessageStoragePolicy = False,
     ptKmsKeyName = [], ptSchemaSettings = False\<rparr>"

theorem CreateTopic_then_exists_witness:
  "\<exists>w' m. CreateTopic good_driver 7 5 sample_pb_topic initial_world = (Inr sample_pb_topic, w') \<and>
     CreateTopic good_driver 8 6 sample_pb_topic w' = (Inl (StatusError AlreadyExists m), w')"
proof -
  have wf: "wf_db (wDb initial_world)" by (simp add: initial_world_def wf_empty_db)
  have none: "live_topics (ptName sample_pb_topic) (wDb initial_world) = []" and i: "7 \<notin> topic_ids (wDb initial_world)"
    by (simp_all add: initial_world_def empty_db_def live_topics_def topic_ids_def)
  have v: "isValidTopicName (ptName sample_pb_topic)" by (simp add: sample_pb_topic_def sample_valid)
  have plain: "\<not> (ptMessageStoragePolicy sample_pb_topic \<or> ptKmsKeyName sample_pb_topic \<noteq> [] \<or> ptSchemaSettings sample_pb_topic)"
    by (simp add: sample_pb_topic_def)
  show ?thesis
    using CreateTopic_then_exists[OF wf drv_ok_good drv_ok_good v plain i, of 5 8 6 "smoke_init 0" "''t''"]
    unfolding if_P[OF none] by (elim exE conjE) (intro exI conjI, assumption+)
qed

lemma topic_updates_Cons:
  assumes "p \<noteq> ''labels''"
  shows "\<exists>c m. topic_updates labels (p # ps) upd = Inl (StatusError c m)"
  unfolding topic_updates.simps(2) if_not_P[OF assms] by (split if_split, rule conjI; rule impI; (split if_split, rule conjI; rule impI)?; intro exI; rule refl)

lemma topic_updates_cases:
  "(\<exists>c m. topic_updates labels ps upd = Inl (StatusError c m)) \<or>
   (set ps \<subseteq> {''labels''} \<and> topic_updates labels ps upd = Inr (if ps = [] then upd else Some labels))"
proof (induction ps arbitrary: upd)
  case (Cons p ps)
  show ?case
  proof (cases "p = ''labels''")
    case True
    then have "topic_updates labels (p # ps) upd = topic_updates labels ps (Some labels)" by simp
    with Cons.IH[of "Some labels"] True show ?thesis by auto
  qed (use topic_updates_Cons in blast)
qed simp

lemma topic_updates_error: "topic_updates labels ps upd = Inl e \<Longrightarrow> status_of e \<noteq> None \<and> \<not> is_panic e"
  using topic_updates_cases[of labels ps upd] by auto

lemma topic_updates_ok:
  "topic_updates labels ps upd = Inr r \<Longrightarrow> set ps \<subseteq> {''labels''} \<and> r = (if ps = [] then upd else Some labels)"
  using topic_updates_cases[of labels ps upd] by auto

lemma filter_updated:
  assumes "\<And>r. P (f r) = P r"
  shows "filter P (update_where P f rs) = map f (filter P rs)"
  by (induction rs) (auto simp: update_where_def assms)

lemma update_topics_live:
  assumes "wf_db db" and "live_topics name db = [t]"
  shows "update_topics (\<lambda>x. tID x = tID t) f db =
    Inr (db\<lparr>topics := update_where (\<lambda>x. tName x = name \<and> tDeletedAt x = None) f (topics db)\<rparr>)"
proof -
  have "tID x = tID t \<longleftrightarrow> tName x = name \<and> tDeletedAt x = None" if x: "x \<in> set (topics db)" for x
  proof
    assume "tID x = tID t"
    then have "x = t"
      using x live_topicsD(1)[OF assms(2)] wf_db_distinct(1)[OF assms(1)] by (simp add: distinct_map inj_on_def)
    then show "tName x = name \<and> tDeletedAt x = None" using live_topicsD[OF assms(2)] by simp
  next
    assume "tName x = name \<and> tDeletedAt x = None"
    then have "x \<in> set (live_topics name db)" using x by (simp add: live_topics_def)
    then show "tID x = tID t" using assms(2) by simp
  qed
  then show ?thesis by (simp add: update_topics_def update_where_def)
qed

text \<open>
  \<open>UpdateTopic\<close> changes the labels of the named topic and nothing else. With an error
  the world is as before and the error carries a status; with no paths the answer is the nil
  response and nothing changes; otherwise the paths name only the labels, the answer is what
  \<open>GetTopic\<close> returns from then on, its labels are those of the request, and every other row, and
  the rest of that one, is kept.
\<close>

theorem UpdateTopic_correct:
  assumes "wf_db (wDb w)" and "drv_ok drv" and "drv_ok drv'"
  shows "case UpdateTopic drv req paths w of
      (Inl e, w') \<Rightarrow> w' = w \<and> status_of e \<noteq> None
    | (Inr None, w') \<Rightarrow> w' = w \<and> paths = []
    | (Inr (Some t), w') \<Rightarrow> set paths = {''labels''} \<and> ptName t = ptName req \<and> ptLabels t = ptLabels req \<and>
        GetTopic drv' (ptName req) w' = (Inr t, w') \<and>
        wDb w' = (wDb w)\<lparr>topics := update_where (\<lambda>x. tName x = ptName req \<and> tDeletedAt x = None)
          (\<lambda>x. x\<lparr>tLabels := ptLabels req\<rparr>) (topics (wDb w))\<rparr>"
proof (cases "isValidTopicName (ptName req)")
  case False
  then show ?thesis by (simp add: UpdateTopic_def bad_topic_path_def)
next
  case valid: True
  show ?thesis
  proof (cases "live_topics (ptName req) (wDb w)")
    case Nil
    then show ?thesis
      using assms(2) valid by (simp add: UpdateTopic_def DoTx_def drv_ok_def on_error_def or_status_def isNotFound_def
          topic_not_found_def finish_error_def)
  next
    case (Cons t ts)
    with live_topics_le_1[OF assms(1), of "ptName req"] have live: "live_topics (ptName req) (wDb w) = [t]" by simp
    show ?thesis
    proof (cases "topic_updates (ptLabels req) paths None")
      case (Inl e)
      then show ?thesis
        using assms(2) valid live topic_updates_error[OF Inl]
        by (simp add: UpdateTopic_def DoTx_def drv_ok_def on_error_def finish_error_def)
    next
      case (Inr upd)
      note ok = topic_updates_ok[OF Inr]
      show ?thesis
      proof (cases "paths = []")
        case True
        then show ?thesis using assms(2) valid live by (simp add: UpdateTopic_def DoTx_ok drv_ok_def on_error_def)
      next
        case False
        let ?db = "(wDb w)\<lparr>topics := update_where (\<lambda>x. tName x = ptName req \<and> tDeletedAt x = None)
          (\<lambda>x. x\<lparr>tLabels := ptLabels req\<rparr>) (topics (wDb w))\<rparr>"
        have paths: "set paths = {''labels''}" using ok False by (cases paths) auto
        have "live_topics (ptName req) ?db = [t\<lparr>tLabels := ptLabels req\<rparr>]"
          using live by (simp add: live_topics_def filter_updated)
        then have "GetTopic drv' (ptName req) (w\<lparr>wDb := ?db, wNotify := st\<rparr>) =
            (Inr (entTopicToGrpc (t\<lparr>tLabels := ptLabels req\<rparr>)), w\<lparr>wDb := ?db, wNotify := st\<rparr>)" for st
          by (intro GetTopic_live[OF assms(3) valid]) simp
        then show ?thesis
          using assms(2) valid live ok False paths update_topics_live[OF assms(1) live] Inr live_topicsD(2)[OF live]
          by (auto simp: UpdateTopic_def DoTx_ok drv_ok_def on_error_def entTopicToGrpc_def)
      qed
    qed
  qed
qed

theorem UpdateTopic_correct_witness:
  "case UpdateTopic good_driver sample_pb_topic [''labels''] sample_world of
      (Inl e, w') \<Rightarrow> False
    | (Inr None, w') \<Rightarrow> False
    | (Inr (Some t), w') \<Rightarrow> ptLabels t ''k'' = Some ''v'' \<and> GetTopic good_driver ''projects/p/topics/a'' w' = (Inr t, w')"
proof -
  have "wf_db (wDb sample_world)" by (simp add: sample_world_def wf_sample_named_db)
  note ok = UpdateTopic_correct[OF this drv_ok_good drv_ok_good, where req = sample_pb_topic and paths = "[''labels'']"]
  obtain r w' where r: "UpdateTopic good_driver sample_pb_topic [''labels''] sample_world = (r, w')" by (rule prod.exhaust)
  have "\<exists>t. r = Inr (Some t)"
    using r sample_live sample_valid
    by (auto simp: UpdateTopic_def sample_pb_topic_def on_error_def update_topics_def good_driver_def DoTx_ok)
  then show ?thesis using ok r by (auto simp: sample_pb_topic_def)
qed

end
