(* ===== verification/Streamer.thy ===== *)
theory Streamer
  imports Bus "HOL-Library.AList" "HOL-Library.Signed_Division"
begin

text \<open>
  The message streamer, \<open>actions/message-streamer.go\<close>: the goroutines that connect one client to the
  actions. Each goroutine is a program counter; a step of the system is one of its atomic actions,
  that is, a critical section under the mutex, a transaction, or a channel operation. The clock,
  the answers of the SQL driver, the requests that arrive and the outcome of sending are given by
  the environment, which may also change the database at any time. A publish notification may
  arrive at any time; registering for it is left to the notification component.
\<close>

subsection \<open>Data\<close>

record flowControl =
  fcMaxMessages :: int
  fcMaxBytes :: int

record messageStreamRequest =
  mrFlowControl :: "flowControl option"
  mrAck :: "uuid list"
  mrNack :: "uuid list"
  mrDelay :: "uuid list"
  mrDelaySeconds :: int

record pendingMessage =
  pmBytes :: nat
  pmNextAttemptAt :: time

text \<open>The map of what was sent and not yet dealt with, by delivery, each key once.\<close>

type_synonym pending = "(uuid \<times> pendingMessage) list"

datatype sender =
    SCheck bool
  | SLock bool
  | SWait bool
  | SFetch getSubscriptionMessagesParams
  | SPoll getSubscriptionMessagesParams "getSubscriptionMessagesResults option"
  | SPollWait getSubscriptionMessagesParams subscription
  | SClose getSubscriptionMessagesParams subscription
  | SGot "subscriptionMessageDelivery list"
  | SSend "subscriptionMessageDelivery list"
  | SEnd "err option"

datatype reader =
    LLoop
  | LFlow messageStreamRequest
  | LAck messageStreamRequest
  | LForget messageStreamRequest
  | LDelay messageStreamRequest
  | LEnd "err option"

datatype refresher =
    RWait
  | RQuery time "uuid list"
  | RUpdate "uuid list" "delivery list"
  | RWake
  | REnd "err option"

datatype renewer =
    AStart
  | AIdle
  | ADelay time "uuid list"
  | AUpdate time "uuid list"
  | AEnd "err option"

text \<open>
  What happened to deliveries, in order, for the theorems only: a batch taken from the subscription,
  identifiers that the reader dropped after they were acknowledged or refused, and identifiers that
  the refresher dropped because it found no row that is neither completed nor expired.
\<close>

datatype streamEvent =
    Taken "subscriptionMessageDelivery list"
  | Settled "uuid list"
  | Gone "uuid list"

text \<open>
  \<open>msBatch\<close> says whether the connection sends a batch as a whole, \<open>msSent\<close> what was sent, \<open>msLog\<close>
  what happened and \<open>msRetries\<close> how often the sender started a transaction again after a deadlock.
\<close>

record streamer =
  msBatch :: bool
  msFc :: flowControl
  msPending :: pending
  msWake :: bool
  msCtxDone :: bool
  msClosed :: bool
  msSender :: sender
  msReader :: reader
  msRefresher :: refresher
  msRenewer :: renewer
  msDelayAmount :: duration
  msCheckInterval :: duration
  msSent :: "subscriptionMessageDelivery list"
  msLog :: "streamEvent list"
  msRetries :: nat
  msWorld :: world

definition stream_init :: "bool \<Rightarrow> bool \<Rightarrow> world \<Rightarrow> streamer" where
  "stream_init automaticNack batch w = \<lparr>msBatch = batch, msFc = \<lparr>fcMaxMessages = 1, fcMaxBytes = 1\<rparr>, msPending = [], msWake = False,
     msCtxDone = False, msClosed = False, msSender = SCheck False, msReader = LLoop, msRefresher = RWait,
     msRenewer = (if automaticNack then AEnd None else AStart), msDelayAmount = 0, msCheckInterval = 0, msSent = [],
     msLog = [], msRetries = 0, msWorld = w\<rparr>"

subsection \<open>The atomic actions\<close>

definition pending_bytes :: "pending \<Rightarrow> nat" where
  "pending_bytes ps = sum_list (map (pmBytes \<circ> snd) ps)"

definition curFc :: "flowControl \<Rightarrow> pending \<Rightarrow> flowControl" where
  "curFc fc ps = \<lparr>fcMaxMessages = fcMaxMessages fc - int (length ps), fcMaxBytes = fcMaxBytes fc - int (pending_bytes ps)\<rparr>"

definition has_room :: "flowControl \<Rightarrow> bool" where
  "has_room c \<longleftrightarrow> fcMaxBytes c > 0 \<and> fcMaxMessages c > 0"

definition fetch_params :: "uuid \<Rightarrow> string \<Rightarrow> flowControl \<Rightarrow> bool \<Rightarrow> getSubscriptionMessagesParams" where
  "fetch_params subID subName c anyPending =
     \<lparr>gmName = subName, gmID = Some subID,
      gmMaxMessages = (if fcMaxMessages c > 100 then 100 else fcMaxMessages c),
      gmMaxBytes = fcMaxBytes c, gmMaxBytesStrict = anyPending, gmMaxWait = 0\<rparr>"

text \<open>The sender's critical section: how much of the limits is used up.\<close>

definition sender_lock :: "uuid \<Rightarrow> string \<Rightarrow> bool \<Rightarrow> streamer \<Rightarrow> streamer" where
  "sender_lock subID subName anyPending s =
     (let c = curFc (msFc s) (msPending s); anyPending' = (anyPending \<or> msPending s \<noteq> []) in
      s\<lparr>msSender := (if has_room c then SFetch (fetch_params subID subName c anyPending') else SWait anyPending')\<rparr>)"

definition add_pending :: "subscriptionMessageDelivery list \<Rightarrow> pending \<Rightarrow> pending" where
  "add_pending ds ps = fold (\<lambda>d. AList.update (smdID d)
     \<lparr>pmBytes = length (smdPayload d), pmNextAttemptAt = smdNextAttemptAt d\<rparr>) ds ps"

text \<open>The results of a fetch have arrived.\<close>

definition sender_got :: "subscriptionMessageDelivery list \<Rightarrow> streamer \<Rightarrow> streamer" where
  "sender_got ds s = s\<lparr>msSender := SGot ds, msLog := msLog s @ [Taken ds]\<rparr>"

definition sender_record :: "subscriptionMessageDelivery list \<Rightarrow> streamer \<Rightarrow> streamer" where
  "sender_record ds s = s\<lparr>msPending := add_pending ds (msPending s),
     msSender := (if ds \<noteq> [] then SSend ds else SCheck False)\<rparr>"

definition reader_flow :: "messageStreamRequest \<Rightarrow> streamer \<Rightarrow> streamer" where
  "reader_flow m s = (case mrFlowControl m of
       None \<Rightarrow> s
     | Some fc \<Rightarrow> s\<lparr>msFc := fc, msWake := True\<rparr>)\<lparr>msReader := LAck m\<rparr>"

definition doAcksNacks :: "filter_parser \<Rightarrow> (nat \<Rightarrow> uuid) \<Rightarrow> time \<Rightarrow> time \<Rightarrow> uuid list \<Rightarrow> uuid list \<Rightarrow> unit exec" where
  "doAcksNacks parse newID now now' ackIDs nackIDs db =
     bind_res (AckDeliveries_Execute now ackIDs db) (\<lambda>(_, ns, db1).
     bind_res (NackDeliveries_Execute parse newID now' nackIDs db1) (\<lambda>(_, ns', db2). Inr ((), ns @ ns', db2)))"

definition reader_forget :: "messageStreamRequest \<Rightarrow> streamer \<Rightarrow> streamer" where
  "reader_forget m s = s\<lparr>msPending := fold AList.delete (mrAck m @ mrNack m) (msPending s), msWake := True,
     msReader := LDelay m, msLog := msLog s @ [Settled (mrAck m @ mrNack m)]\<rparr>"

definition still_pending :: "time \<Rightarrow> uuid list \<Rightarrow> database \<Rightarrow> delivery list" where
  "still_pending now ids db =
     filter (\<lambda>d. dID d \<in> set ids \<and> dCompletedAt d = None \<and> dExpiresAt d \<ge> now) (deliveries db)"

definition raise_attempt :: "time \<Rightarrow> pendingMessage \<Rightarrow> pendingMessage" where
  "raise_attempt t p = (if pmNextAttemptAt p < t then p\<lparr>pmNextAttemptAt := t\<rparr> else p)"

definition refresh_one :: "delivery list \<Rightarrow> uuid \<Rightarrow> pending \<Rightarrow> pending" where
  "refresh_one rows i ps =
     (case map_of (map (\<lambda>d. (dID d, d)) rows) i of
        None \<Rightarrow> AList.delete i ps
      | Some d \<Rightarrow> map (\<lambda>(j, p). (j, if j = i then raise_attempt (dAttemptAt d) p else p)) ps)"

definition refresher_update :: "uuid list \<Rightarrow> delivery list \<Rightarrow> streamer \<Rightarrow> streamer" where
  "refresher_update ids rows s =
     s\<lparr>msPending := fold (refresh_one rows) ids (msPending s),
       msRefresher := (if list_ex (\<lambda>i. i \<notin> dID ` set rows) ids then RWake else RWait),
       msLog := msLog s @ [Gone (filter (\<lambda>i. i \<notin> dID ` set rows) ids)]\<rparr>"

text \<open>A ticker with an interval that is not positive is a panic. The product is one of 64 bit integers.\<close>

definition renewer_init :: "subscription option \<Rightarrow> streamer \<Rightarrow> streamer" where
  "renewer_init sub s =
     (case sub of
        None \<Rightarrow> s\<lparr>msRenewer := AEnd (Some EntNotFound), msCtxDone := True\<rparr>
      | Some sb \<Rightarrow>
          (let delayAmount = (case sMinBackoff sb of Some b \<Rightarrow> b sdiv 2 | None \<Rightarrow> defaultMinDelay sdiv 2);
               checkInterval = int64 (delayAmount * 9) sdiv 10
           in if checkInterval \<le> 0 then s\<lparr>msRenewer := AEnd (Some (Panic ''non-positive interval for NewTicker'')), msCtxDone := True\<rparr>
              else s\<lparr>msDelayAmount := (if delayAmount < second then second else delayAmount),
                msCheckInterval := checkInterval, msRenewer := AIdle\<rparr>))"

definition due_soon :: "time \<Rightarrow> pending \<Rightarrow> uuid list" where
  "due_soon nextCheck ps = map fst (filter (\<lambda>(i, p). pmNextAttemptAt p < nextCheck) ps)"

definition renewer_tick :: "time \<Rightarrow> streamer \<Rightarrow> streamer" where
  "renewer_tick now s =
     (let ids = due_soon (now + msCheckInterval s) (msPending s) in
      s\<lparr>msRenewer := (if ids = [] then AIdle else ADelay now ids)\<rparr>)"

definition renewer_update :: "time \<Rightarrow> uuid list \<Rightarrow> streamer \<Rightarrow> streamer" where
  "renewer_update now ids s =
     s\<lparr>msPending := map (\<lambda>(i, p). (i, if i \<in> set ids then raise_attempt (now + msDelayAmount s) p else p)) (msPending s),
       msRenewer := AIdle\<rparr>"

subsection \<open>The steps\<close>

text \<open>
  \<open>req\<close> says which requests the connection delivers. A goroutine that ends with an error cancels the
  context of all.
\<close>

inductive stream_step :: "filter_parser \<Rightarrow> uuid \<Rightarrow> string \<Rightarrow> (messageStreamRequest \<Rightarrow> bool) \<Rightarrow> streamer \<Rightarrow> streamer \<Rightarrow> bool"
  for parse subID subName req where
  check: "msSender s = SCheck a \<Longrightarrow>
    stream_step parse subID subName req s (s\<lparr>msSender := (if msCtxDone s then SEnd None else SLock a)\<rparr>)"
| lock: "msSender s = SLock a \<Longrightarrow> stream_step parse subID subName req s (sender_lock subID subName a s)"
| woken: "msSender s = SWait a \<Longrightarrow> msWake s \<Longrightarrow>
    stream_step parse subID subName req s (s\<lparr>msWake := False, msSender := SCheck a\<rparr>)"
| notified: "msSender s = SWait a \<Longrightarrow> stream_step parse subID subName req s (s\<lparr>msSender := SCheck a\<rparr>)"
| fetch: "msSender s = SFetch p \<Longrightarrow> DoTx drv (get_start now p) (msWorld s) = (Inr p', w) \<Longrightarrow>
    stream_step parse subID subName req s (s\<lparr>msWorld := w, msSender := SPoll p' None\<rparr>)"
| fetch_retry: "msSender s = SFetch p \<Longrightarrow> DoTx drv (get_start now p) (msWorld s) = (Inl e, w) \<Longrightarrow>
    retry_deadlocks e \<and> \<not> is_panic e \<Longrightarrow> stream_step parse subID subName req s (s\<lparr>msWorld := w, msRetries := Suc (msRetries s),
      msSender := SFetch (if drvBegin drv = None then bound_params p now (wDb (msWorld s)) else p)\<rparr>)"
| fetch_error: "msSender s = SFetch p \<Longrightarrow> DoTx drv (get_start now p) (msWorld s) = (Inl e, w) \<Longrightarrow>
    \<not> (retry_deadlocks e \<and> \<not> is_panic e) \<Longrightarrow>
    stream_step parse subID subName req s (s\<lparr>msWorld := w, msSender := SEnd (Some e), msCtxDone := True\<rparr>)"
| got: "msSender s = SPoll p old \<Longrightarrow> DoTx drv (get_pass parse ps p) (msWorld s) = (Inr (sub, Got r), w) \<Longrightarrow>
    stream_step parse subID subName req s (sender_got (grDeliveries r) (s\<lparr>msWorld := w\<rparr>))"
| got_left: "msSender s = SPoll p (Some r) \<Longrightarrow> DoTx drv (get_pass parse ps p) (msWorld s) = (Inr (sub, Next t), w) \<Longrightarrow>
    stream_step parse subID subName req s (sender_got (grDeliveries r) (s\<lparr>msWorld := w\<rparr>))"
| nothing: "msSender s = SPoll p None \<Longrightarrow> DoTx drv (get_pass parse ps p) (msWorld s) = (Inr (sub, Next t), w) \<Longrightarrow>
    stream_step parse subID subName req s (s\<lparr>msWorld := w, msSender := SPollWait p sub\<rparr>)"
| poll_retry: "msSender s = SPoll p old \<Longrightarrow> DoTx drv (get_pass parse ps p) (msWorld s) = (Inl e, w) \<Longrightarrow>
    retry_deadlocks e \<and> \<not> is_panic e \<Longrightarrow> stream_step parse subID subName req s (s\<lparr>msWorld := w, msRetries := Suc (msRetries s),
      msSender := SPoll p (if drvBegin drv = None then pass_results parse p old ps (wDb (msWorld s)) else old)\<rparr>)"
| poll_error: "msSender s = SPoll p old \<Longrightarrow> DoTx drv (get_pass parse ps p) (msWorld s) = (Inl e, w) \<Longrightarrow>
    \<not> (retry_deadlocks e \<and> \<not> is_panic e) \<Longrightarrow>
    stream_step parse subID subName req s (s\<lparr>msWorld := w, msSender := SEnd (Some e), msCtxDone := True\<rparr>)"
| poll_again: "msSender s = SPollWait p sub \<Longrightarrow> stream_step parse subID subName req s (s\<lparr>msSender := SPoll p None\<rparr>)"
| poll_timeout: "msSender s = SPollWait p sub \<Longrightarrow> stream_step parse subID subName req s (s\<lparr>msSender := SClose p sub\<rparr>)"
| poll_canceled: "msSender s = SPollWait p sub \<Longrightarrow> msCtxDone s \<Longrightarrow>
    stream_step parse subID subName req s (s\<lparr>msSender := SEnd (Some ContextCanceled)\<rparr>)"
| close: "msSender s = SClose p sub \<Longrightarrow> DoTx drv (get_close parse newID p sub now) (msWorld s) = (Inr r, w) \<Longrightarrow>
    stream_step parse subID subName req s (sender_got (grDeliveries r) (s\<lparr>msWorld := w\<rparr>))"
| close_retry: "msSender s = SClose p sub \<Longrightarrow> DoTx drv (get_close parse newID p sub now) (msWorld s) = (Inl e, w) \<Longrightarrow>
    retry_deadlocks e \<and> \<not> is_panic e \<Longrightarrow> stream_step parse subID subName req s (s\<lparr>msWorld := w, msRetries := Suc (msRetries s)\<rparr>)"
| close_error: "msSender s = SClose p sub \<Longrightarrow> DoTx drv (get_close parse newID p sub now) (msWorld s) = (Inl e, w) \<Longrightarrow>
    \<not> (retry_deadlocks e \<and> \<not> is_panic e) \<Longrightarrow>
    stream_step parse subID subName req s (s\<lparr>msWorld := w, msSender := SEnd (Some e), msCtxDone := True\<rparr>)"
| recorded: "msSender s = SGot ds \<Longrightarrow> stream_step parse subID subName req s (sender_record ds s)"
| sent_batch: "msSender s = SSend ds \<Longrightarrow> msBatch s \<Longrightarrow> stream_step parse subID subName req s (s\<lparr>msSent := msSent s @ ds, msSender := SCheck False\<rparr>)"
| sent_one: "msSender s = SSend (d # ds) \<Longrightarrow> \<not> msBatch s \<Longrightarrow>
    stream_step parse subID subName req s (s\<lparr>msSent := msSent s @ [d], msSender := (if ds = [] then SCheck False else SSend ds)\<rparr>)"
| send_error: "msSender s = SSend ds \<Longrightarrow>
    stream_step parse subID subName req s (s\<lparr>msSender := SEnd (Some e), msCtxDone := True\<rparr>)"
| reader_done: "msReader s = LLoop \<Longrightarrow> msCtxDone s \<Longrightarrow>
    stream_step parse subID subName req s (s\<lparr>msWake := True, msReader := LEnd None\<rparr>)"
| receive: "msReader s = LLoop \<Longrightarrow> req m \<Longrightarrow> stream_step parse subID subName req s (s\<lparr>msReader := LFlow m\<rparr>)"
| receive_error: "msReader s = LLoop \<Longrightarrow>
    stream_step parse subID subName req s (s\<lparr>msReader := LEnd (Some e), msCtxDone := True\<rparr>)"
| flow: "msReader s = LFlow m \<Longrightarrow> stream_step parse subID subName req s (reader_flow m s)"
| no_acks: "msReader s = LAck m \<Longrightarrow> mrAck m = [] \<Longrightarrow> mrNack m = [] \<Longrightarrow>
    stream_step parse subID subName req s (s\<lparr>msReader := LDelay m\<rparr>)"
| acks: "msReader s = LAck m \<Longrightarrow> mrAck m \<noteq> [] \<or> mrNack m \<noteq> [] \<Longrightarrow>
    DoTx drv (doAcksNacks parse newID now now' (mrAck m) (mrNack m)) (msWorld s) = (Inr (), w) \<Longrightarrow>
    stream_step parse subID subName req s (s\<lparr>msWorld := w, msReader := LForget m\<rparr>)"
| acks_error: "msReader s = LAck m \<Longrightarrow> mrAck m \<noteq> [] \<or> mrNack m \<noteq> [] \<Longrightarrow>
    DoTx drv (doAcksNacks parse newID now now' (mrAck m) (mrNack m)) (msWorld s) = (Inl e, w) \<Longrightarrow>
    stream_step parse subID subName req s (s\<lparr>msWorld := w, msReader := LEnd (Some e), msCtxDone := True\<rparr>)"
| forget: "msReader s = LForget m \<Longrightarrow> stream_step parse subID subName req s (reader_forget m s)"
| no_delay: "msReader s = LDelay m \<Longrightarrow> mrDelay m = [] \<Longrightarrow> stream_step parse subID subName req s (s\<lparr>msReader := LLoop\<rparr>)"
| delay: "msReader s = LDelay m \<Longrightarrow> mrDelay m \<noteq> [] \<Longrightarrow>
    DoTx drv (DelayDeliveries_Execute now (mrDelay m) (mrDelaySeconds m * second)) (msWorld s) = (Inr r, w) \<Longrightarrow>
    stream_step parse subID subName req s (s\<lparr>msWorld := w, msReader := LLoop\<rparr>)"
| delay_error: "msReader s = LDelay m \<Longrightarrow> mrDelay m \<noteq> [] \<Longrightarrow>
    DoTx drv (DelayDeliveries_Execute now (mrDelay m) (mrDelaySeconds m * second)) (msWorld s) = (Inl e, w) \<Longrightarrow>
    stream_step parse subID subName req s (s\<lparr>msWorld := w, msReader := LEnd (Some e), msCtxDone := True\<rparr>)"
| refresh_done: "msRefresher s = RWait \<Longrightarrow> msCtxDone s \<Longrightarrow> stream_step parse subID subName req s (s\<lparr>msRefresher := REnd None\<rparr>)"
| refresh_notified: "msRefresher s = RWait \<Longrightarrow> stream_step parse subID subName req s
    (s\<lparr>msRefresher := (if msPending s = [] then RWait else RQuery now (map fst (msPending s)))\<rparr>)"
| refresh_query: "msRefresher s = RQuery now ids \<Longrightarrow>
    stream_step parse subID subName req s (s\<lparr>msRefresher := RUpdate ids (still_pending now ids (wDb (msWorld s)))\<rparr>)"
| refresh_error: "msRefresher s = RQuery now ids \<Longrightarrow>
    stream_step parse subID subName req s (s\<lparr>msRefresher := REnd (Some e), msCtxDone := True\<rparr>)"
| refresh_update: "msRefresher s = RUpdate ids rows \<Longrightarrow> stream_step parse subID subName req s (refresher_update ids rows s)"
| refresh_wake: "msRefresher s = RWake \<Longrightarrow> stream_step parse subID subName req s (s\<lparr>msWake := True, msRefresher := RWait\<rparr>)"
| renew_init: "msRenewer s = AStart \<Longrightarrow> stream_step parse subID subName req s
    (renewer_init (first_row (filter (\<lambda>x. sID x = subID) (subscriptions (wDb (msWorld s))))) s)"
| renew_init_error: "msRenewer s = AStart \<Longrightarrow>
    stream_step parse subID subName req s (s\<lparr>msRenewer := AEnd (Some e), msCtxDone := True\<rparr>)"
| renew_done: "msRenewer s = AIdle \<Longrightarrow> msCtxDone s \<Longrightarrow> stream_step parse subID subName req s (s\<lparr>msRenewer := AEnd None\<rparr>)"
| renew_tick: "msRenewer s = AIdle \<Longrightarrow> stream_step parse subID subName req s (renewer_tick now s)"
| renew: "msRenewer s = ADelay now ids \<Longrightarrow>
    DoTx drv (DelayDeliveries_Execute now' ids (msDelayAmount s)) (msWorld s) = (Inr r, w) \<Longrightarrow>
    stream_step parse subID subName req s (s\<lparr>msWorld := w, msRenewer := AUpdate now ids\<rparr>)"
| renew_error: "msRenewer s = ADelay now ids \<Longrightarrow>
    DoTx drv (DelayDeliveries_Execute now' ids (msDelayAmount s)) (msWorld s) = (Inl e, w) \<Longrightarrow>
    stream_step parse subID subName req s (s\<lparr>msWorld := w, msRenewer := AEnd (Some e), msCtxDone := True\<rparr>)"
| renew_update: "msRenewer s = AUpdate now ids \<Longrightarrow> stream_step parse subID subName req s (renewer_update now ids s)"
| cancel: "stream_step parse subID subName req s (s\<lparr>msCtxDone := True\<rparr>)"
| closer: "msCtxDone s \<Longrightarrow> \<not> msClosed s \<Longrightarrow> stream_step parse subID subName req s (s\<lparr>msClosed := True, msWake := True\<rparr>)"
| others: "stream_step parse subID subName req s (s\<lparr>msWorld := w\<rparr>)"

inductive_cases stream_stepE: "stream_step parse subID subName req s s'"

abbreviation stream_steps :: "filter_parser \<Rightarrow> uuid \<Rightarrow> string \<Rightarrow> (messageStreamRequest \<Rightarrow> bool) \<Rightarrow> streamer \<Rightarrow> streamer \<Rightarrow> bool" where
  "stream_steps parse subID subName req \<equiv> (stream_step parse subID subName req)\<^sup>*\<^sup>*"

subsection \<open>The pending map\<close>

lemma pending_bytes_simps [simp]:
  "pending_bytes [] = 0"
  "pending_bytes ((i, p) # ps) = pmBytes p + pending_bytes ps"
  by (simp_all add: pending_bytes_def)

text \<open>What the other goroutines do to the map: entries are dropped or their next attempt moves.\<close>

definition shrinks :: "pending \<Rightarrow> pending \<Rightarrow> bool" where
  "shrinks ps ps' \<longleftrightarrow> length ps' \<le> length ps \<and> pending_bytes ps' \<le> pending_bytes ps"

lemma shrinks_trans: "shrinks ps qs \<Longrightarrow> shrinks qs rs \<Longrightarrow> shrinks ps rs"
  by (simp add: shrinks_def)

lemma shrinks_delete: "shrinks ps (AList.delete i ps)"
  unfolding shrinks_def by (induction ps) (auto simp: AList.delete_eq intro: le_SucI[OF length_filter_le])

lemma shrinks_fold:
  assumes "\<And>i ps. shrinks ps (f i ps)"
  shows "shrinks ps (fold f is ps)"
proof (induction "is" arbitrary: ps)
  case (Cons i "is")
  show ?case using shrinks_trans[OF assms Cons.IH[of "f i ps"]] by simp
qed (simp add: shrinks_def)

lemma attempts_keep_size:
  assumes "\<And>i p. pmBytes (f i p) = pmBytes p"
  shows "length (map (\<lambda>(i, p). (i, f i p)) ps) = length ps"
    and "pending_bytes (map (\<lambda>(i, p). (i, f i p)) ps) = pending_bytes ps"
  by (induction ps) (auto simp: assms)

lemma pmBytes_raise_attempt [simp]: "pmBytes (raise_attempt t p) = pmBytes p"
  by (simp add: raise_attempt_def)

lemma refresh_one_known:
  assumes "i \<in> dID ` set rows"
  shows "length (refresh_one rows i ps) = length ps \<and> pending_bytes (refresh_one rows i ps) = pending_bytes ps"
proof -
  obtain d where "map_of (map (\<lambda>d. (dID d, d)) rows) i = Some d"
    using assms by (cases "map_of (map (\<lambda>d. (dID d, d)) rows) i") (auto simp: map_of_eq_None_iff image_iff)
  then show ?thesis
    using attempts_keep_size[of "\<lambda>j p. if j = i then raise_attempt (dAttemptAt d) p else p" ps]
    by (simp add: refresh_one_def)
qed

lemma shrinks_refresh_one: "shrinks ps (refresh_one rows i ps)"
proof (cases "i \<in> dID ` set rows")
  case True
  then show ?thesis using refresh_one_known[OF True, of ps] by (simp add: shrinks_def)
next
  case False
  then have "map_of (map (\<lambda>d. (dID d, d)) rows) i = None" by (auto simp: map_of_eq_None_iff)
  then show ?thesis by (simp add: refresh_one_def shrinks_delete)
qed

lemma refresh_all_known:
  "\<forall>i\<in>set ids. i \<in> dID ` set rows \<Longrightarrow>
   length (fold (refresh_one rows) ids ps) = length ps \<and> pending_bytes (fold (refresh_one rows) ids ps) = pending_bytes ps"
  by (induction ids arbitrary: ps) (simp_all add: refresh_one_known)

lemma update_size:
  "length (AList.update i v ps) \<le> Suc (length ps) \<and> pending_bytes (AList.update i v ps) \<le> pending_bytes ps + pmBytes v"
  by (induction ps) auto

lemma add_pending_size:
  "length (add_pending ds ps) \<le> length ps + length ds \<and> pending_bytes (add_pending ds ps) \<le> pending_bytes ps + payload_bytes ds"
proof (induction ds arbitrary: ps)
  case (Cons d ds)
  let ?v = "\<lparr>pmBytes = length (smdPayload d), pmNextAttemptAt = smdNextAttemptAt d\<rparr>"
  show ?case using Cons[of "AList.update (smdID d) ?v ps"] update_size[of "smdID d" ?v ps] by (simp add: add_pending_def)
qed (simp add: add_pending_def)

lemma add_pending_one: "add_pending [d] [] = [(smdID d, \<lparr>pmBytes = length (smdPayload d), pmNextAttemptAt = smdNextAttemptAt d\<rparr>)]"
  by (simp add: add_pending_def)

subsection \<open>What a fetch returns\<close>

lemma DoTx_InrD: "DoTx drv inner w = (Inr r, w') \<Longrightarrow> \<exists>ns db'. inner (wDb w) = Inr (r, ns, db')"
  by (auto simp: DoTx_def run_commit_result Let_def split: option.split_asm sum.split_asm prod.split_asm)

lemma get_start_params:
  assumes "DoTx drv (get_start now p) w = (Inr p', w')"
  shows "\<exists>i. p' = p\<lparr>gmID := i\<rparr>"
  using DoTx_InrD[OF assms] by (auto simp: get_start_def verifySub_def elim!: bind_res_InrE split: sum.split_asm)

lemma bound_params_id: "\<exists>i. bound_params p now db = p\<lparr>gmID := i\<rparr>"
proof (cases "verifySub p db")
  case (Inl e)
  then have "bound_params p now db = p\<lparr>gmID := gmID p\<rparr>" by (simp add: bound_params_def)
  then show ?thesis by blast
next
  case (Inr x)
  then show ?thesis by (auto simp: bound_params_def verifySub_def split: sum.split_asm)
qed

lemma get_pass_limits:
  assumes "get_pass parse ps p db = Inr ((s, Got r), ns, db')" and "gmMaxMessages p \<ge> 0"
  shows "int (length (grDeliveries r)) \<le> gmMaxMessages p \<and>
    (int (payload_bytes (grDeliveries r)) \<le> gmMaxBytes p \<or> grDeliveries r = [] \<or>
     (\<not> gmMaxBytesStrict p \<and> length (grDeliveries r) = 1))"
proof -
  obtain p' db1 n ns' db2 where
    loop: "applyLoop parse (psNewID ps) p s (psNowApply ps) 0 0
      (queryAndLockDeliveriesOnce (psNowDue ps) (psNowQuery ps) (psLocked ps) p s db) db1 = Inr (grDeliveries r, n, ns', db2)"
    using assms(1) by (auto simp: get_pass_def Let_def applyResults_def elim!: bind_res_InrE split: if_split_asm)
  have len: "int (length (queryAndLockDeliveriesOnce (psNowDue ps) (psNowQuery ps) (psLocked ps) p s db)) \<le> gmMaxMessages p"
    using assms(2) by (simp add: queryAndLockDeliveriesOnce_def)
  from len applyLoop_length[OF loop] applyLoop_bytes_first[OF loop] show ?thesis by auto
qed

lemma timeout_results:
  assumes "DoTx drv (get_close parse newID p s now) w = (Inr r, w')"
  shows "grDeliveries r = []"
  using DoTx_InrD[OF assms] by (auto simp: get_close_def applyResults_def elim!: bind_res_InrE)

subsection \<open>Flow control\<close>

definition fc_within :: "int \<Rightarrow> int \<Rightarrow> flowControl \<Rightarrow> bool" where
  "fc_within N B fc \<longleftrightarrow> fcMaxMessages fc \<le> N \<and> fcMaxBytes fc \<le> B"

definition request_within :: "int \<Rightarrow> int \<Rightarrow> messageStreamRequest \<Rightarrow> bool" where
  "request_within N B m \<longleftrightarrow> (case mrFlowControl m of None \<Rightarrow> True | Some fc \<Rightarrow> fc_within N B fc)"

definition load_ok :: "int \<Rightarrow> int \<Rightarrow> pending \<Rightarrow> bool" where
  "load_ok N B ps \<longleftrightarrow> int (length ps) \<le> N \<and> (int (pending_bytes ps) \<le> B \<or> length ps = 1)"

definition fits :: "int \<Rightarrow> int \<Rightarrow> pending \<Rightarrow> getSubscriptionMessagesParams \<Rightarrow> bool" where
  "fits N B ps p \<longleftrightarrow> 1 \<le> gmMaxMessages p \<and> int (length ps) + gmMaxMessages p \<le> N \<and>
     int (pending_bytes ps) + gmMaxBytes p \<le> B \<and> (gmMaxBytesStrict p \<or> ps = [])"

text \<open>A batch that was taken for the limits that were left.\<close>

definition batch_fits :: "int \<Rightarrow> int \<Rightarrow> pending \<Rightarrow> subscriptionMessageDelivery list \<Rightarrow> bool" where
  "batch_fits N B ps ds \<longleftrightarrow> ds = [] \<or> (int (length ps + length ds) \<le> N \<and>
     (int (pending_bytes ps + payload_bytes ds) \<le> B \<or> (ps = [] \<and> length ds = 1)))"

fun sender_ok :: "int \<Rightarrow> int \<Rightarrow> pending \<Rightarrow> sender \<Rightarrow> bool" where
  "sender_ok N B ps (SFetch p) = fits N B ps p"
| "sender_ok N B ps (SPoll p old) = (fits N B ps p \<and> (case old of None \<Rightarrow> True | Some r \<Rightarrow> batch_fits N B ps (grDeliveries r)))"
| "sender_ok N B ps (SPollWait p sub) = fits N B ps p"
| "sender_ok N B ps (SGot ds) = batch_fits N B ps ds"
| "sender_ok N B ps pc = True"

definition flow_inv :: "int \<Rightarrow> int \<Rightarrow> streamer \<Rightarrow> bool" where
  "flow_inv N B s \<longleftrightarrow> 1 \<le> N \<and> 1 \<le> B \<and> fc_within N B (msFc s) \<and>
     (case msReader s of LFlow m \<Rightarrow> request_within N B m | _ \<Rightarrow> True) \<and>
     load_ok N B (msPending s) \<and> sender_ok N B (msPending s) (msSender s)"

lemma load_ok_shrinks: "1 \<le> B \<Longrightarrow> load_ok N B ps \<Longrightarrow> shrinks ps ps' \<Longrightarrow> load_ok N B ps'"
  by (cases ps') (auto simp: load_ok_def shrinks_def)

lemma sender_ok_shrinks: "sender_ok N B ps pc \<Longrightarrow> shrinks ps ps' \<Longrightarrow> sender_ok N B ps' pc"
  by (cases pc) (auto simp: fits_def batch_fits_def shrinks_def split: option.splits)

lemma flow_inv_lock:
  assumes "flow_inv N B s"
  shows "flow_inv N B (sender_lock subID subName a s)"
proof -
  let ?c = "curFc (msFc s) (msPending s)"
  have "fits N B (msPending s) (fetch_params subID subName ?c (a \<or> msPending s \<noteq> []))" if "has_room ?c"
    using that assms by (auto simp: fits_def fetch_params_def curFc_def has_room_def flow_inv_def fc_within_def)
  then show ?thesis using assms by (auto simp: sender_lock_def Let_def flow_inv_def)
qed

lemma batch_fits_pass:
  assumes "fits N B ps p" and "get_pass parse pa p db = Inr ((sub, Got r), ns, db')"
  shows "batch_fits N B ps (grDeliveries r)"
proof -
  have "gmMaxMessages p \<ge> 0" using assms(1) by (simp add: fits_def)
  from get_pass_limits[OF assms(2) this] assms(1) show ?thesis by (auto simp: fits_def batch_fits_def)
qed

lemma batch_fits_results:
  assumes "sender_ok N B ps (SPoll p old)"
  shows "sender_ok N B ps (SPoll p (pass_results parse p old pa db))"
  using assms by (auto simp: pass_results_def dest: batch_fits_pass split: sum.split passResult.split)

lemma flow_inv_got:
  assumes "flow_inv N B s" and "msSender s = SPoll p old" and "DoTx drv (get_pass parse ps p) (msWorld s) = (Inr (sub, Got r), w)"
  shows "batch_fits N B (msPending s) (grDeliveries r)"
proof -
  have "fits N B (msPending s) p" using assms(1,2) by (simp add: flow_inv_def)
  with DoTx_InrD[OF assms(3)] show ?thesis by (auto intro: batch_fits_pass)
qed

lemma load_ok_batch:
  assumes "load_ok N B ps" and "batch_fits N B ps ds"
  shows "load_ok N B (add_pending ds ps)"
proof (cases "ds = []")
  case True
  then show ?thesis using assms by (simp add: add_pending_def)
next
  case False
  then have ok: "int (length ps + length ds) \<le> N" "int (pending_bytes ps + payload_bytes ds) \<le> B \<or> (ps = [] \<and> length ds = 1)"
    using assms(2) by (auto simp: batch_fits_def)
  from ok(2) show ?thesis
  proof
    assume "int (pending_bytes ps + payload_bytes ds) \<le> B"
    then show ?thesis using ok(1) add_pending_size[of ds ps] by (auto simp: load_ok_def)
  next
    assume "ps = [] \<and> length ds = 1"
    then show ?thesis using ok(1) by (auto simp: load_ok_def length_Suc_conv add_pending_one)
  qed
qed

lemma flow_inv_record:
  assumes "flow_inv N B s" and "msSender s = SGot ds"
  shows "flow_inv N B (sender_record ds s)"
  using assms load_ok_batch[of N B "msPending s" ds] by (simp add: flow_inv_def sender_record_def)

lemma flow_inv_shrink:
  assumes "flow_inv N B s" and "shrinks (msPending s) (msPending s')" and "msFc s' = msFc s" and "msSender s' = msSender s"
    and "msReader s' = msReader s \<or> (\<forall>m. msReader s' \<noteq> LFlow m)"
  shows "flow_inv N B s'"
proof -
  have "case msReader s' of LFlow m \<Rightarrow> request_within N B m | _ \<Rightarrow> True"
    using assms(1,5) by (cases "msReader s'") (auto simp: flow_inv_def)
  then show ?thesis using assms by (auto simp: flow_inv_def intro: load_ok_shrinks sender_ok_shrinks)
qed

lemma shrinks_refl: "shrinks ps ps"
  by (simp add: shrinks_def)

lemma flow_inv_step:
  assumes "stream_step parse subID subName req s s'" and "flow_inv N B s" and "\<And>m. req m \<Longrightarrow> request_within N B m"
  shows "flow_inv N B s'"
  using assms(1)
proof (cases rule: stream_step.cases)
  case (lock a)
  then show ?thesis using flow_inv_lock[OF assms(2)] by simp
next
  case (got p old drv ps sub r w)
  with assms(2) flow_inv_got[OF assms(2) got(2,3)] show ?thesis by (simp add: flow_inv_def sender_got_def)
next
  case (got_left p r drv ps sub t w)
  with assms(2) show ?thesis by (simp add: flow_inv_def sender_got_def)
next
  case (fetch p drv now p' w)
  with assms(2) get_start_params[OF fetch(3)] show ?thesis by (auto simp: flow_inv_def fits_def)
next
  case (fetch_retry p drv now e w)
  have "fits N B (msPending s) (bound_params p now (wDb (msWorld s)))"
    using assms(2) fetch_retry(2) bound_params_id[of p now "wDb (msWorld s)"] by (auto simp: flow_inv_def fits_def)
  with fetch_retry assms(2) show ?thesis by (simp add: flow_inv_def)
next
  case (poll_retry p old drv ps e w)
  have ok: "sender_ok N B (msPending s) (SPoll p old)" using assms(2) poll_retry(2) by (simp add: flow_inv_def)
  show ?thesis using batch_fits_results[OF ok] ok assms(2) poll_retry(1) by (simp add: flow_inv_def)
next
  case (close p sub drv newID now r w)
  with assms(2) timeout_results[OF close(3)] show ?thesis by (simp add: flow_inv_def sender_got_def batch_fits_def)
next
  case (recorded ds)
  then show ?thesis using flow_inv_record[OF assms(2)] by simp
next
  case (flow m)
  then show ?thesis using assms(2) by (auto simp: reader_flow_def flow_inv_def request_within_def split: option.split)
next
  case (receive m)
  then show ?thesis using assms(2,3) by (simp add: flow_inv_def)
next
  case (forget m)
  then show ?thesis
    using shrinks_fold[of AList.delete "msPending s" "mrAck m @ mrNack m", OF shrinks_delete]
    by (auto intro!: flow_inv_shrink[OF assms(2)] simp: reader_forget_def)
next
  case (refresh_update ids rows)
  then show ?thesis
    by (auto intro!: flow_inv_shrink[OF assms(2)] shrinks_fold shrinks_refresh_one simp: refresher_update_def)
next
  case (renew_update now ids)
  then show ?thesis
    using attempts_keep_size[of "\<lambda>i p. if i \<in> set ids then raise_attempt (now + msDelayAmount s) p else p" "msPending s"]
    by (auto intro!: flow_inv_shrink[OF assms(2)] simp: renewer_update_def shrinks_def)
next
  case renew_init
  then show ?thesis
    using assms(2) by (auto simp: renewer_init_def flow_inv_def Let_def split: option.split)
next
  case renew_tick
  then show ?thesis using assms(2) by (simp add: renewer_tick_def flow_inv_def Let_def)
qed (use assms(2) in \<open>auto simp: flow_inv_def\<close>)

subsection \<open>What the other side holds\<close>

text \<open>
  The sizes of the deliveries that were taken and not dropped since, as the history has them. The map
  of the code does not occur in this.
\<close>

definition batch_sizes :: "subscriptionMessageDelivery list \<Rightarrow> (uuid \<rightharpoonup> nat)" where
  "batch_sizes ds = map_of (rev (map (\<lambda>d. (smdID d, length (smdPayload d))) ds))"

fun held_after :: "streamEvent \<Rightarrow> (uuid \<rightharpoonup> nat) \<Rightarrow> (uuid \<rightharpoonup> nat)" where
  "held_after (Taken ds) h = h ++ batch_sizes ds"
| "held_after (Settled is) h = h |` (- set is)"
| "held_after (Gone is) h = h |` (- set is)"

definition held :: "streamEvent list \<Rightarrow> (uuid \<rightharpoonup> nat)" where
  "held es = fold held_after es Map.empty"

definition held_bytes :: "streamEvent list \<Rightarrow> nat" where
  "held_bytes es = (\<Sum>i\<in>dom (held es). the (held es i))"

fun taken :: "streamEvent list \<Rightarrow> subscriptionMessageDelivery list" where
  "taken [] = []"
| "taken (Taken ds # es) = ds @ taken es"
| "taken (e # es) = taken es"

fun dropped_ids :: "streamEvent list \<Rightarrow> uuid set" where
  "dropped_ids [] = {}"
| "dropped_ids (Taken ds # es) = dropped_ids es"
| "dropped_ids (Settled is # es) = set is \<union> dropped_ids es"
| "dropped_ids (Gone is # es) = set is \<union> dropped_ids es"

lemma held_snoc [simp]: "held [] = Map.empty" "held (es @ [e]) = held_after e (held es)"
  by (simp_all add: held_def)

lemma taken_append [simp]: "taken (es @ es') = taken es @ taken es'"
  by (induction es rule: taken.induct) simp_all

lemma dropped_append [simp]: "dropped_ids (es @ es') = dropped_ids es \<union> dropped_ids es'"
  by (induction es rule: dropped_ids.induct) auto

lemma dom_batch_sizes [simp]: "dom (batch_sizes ds) = smdID ` set ds"
  by (simp add: batch_sizes_def dom_map_of_conv_image_fst image_image)

text \<open>Whatever was taken is held, unless it was dropped.\<close>

lemma taken_held: "smdID ` set (taken es) \<subseteq> dom (held es) \<union> dropped_ids es"
proof (induction es rule: rev_induct)
  case (snoc e es)
  then show ?case by (cases e) (auto split: if_split_asm)
qed simp

text \<open>The sizes in the map of the code.\<close>

definition sizes :: "pending \<Rightarrow> (uuid \<rightharpoonup> nat)" where
  "sizes ps = (\<lambda>i. map_option pmBytes (map_of ps i))"

lemma sizes_Cons: "sizes ((i, p) # ps) = (sizes ps)(i \<mapsto> pmBytes p)"
  by (simp add: sizes_def fun_eq_iff)

lemma sizes_update: "sizes (AList.update i p ps) = (sizes ps)(i \<mapsto> pmBytes p)"
  by (simp add: sizes_def update_conv fun_eq_iff)

lemma sizes_delete: "sizes (AList.delete i ps) = sizes ps |` (- {i})"
  by (auto simp: sizes_def delete_conv fun_eq_iff restrict_map_def)

lemma sizes_deletes: "sizes (fold AList.delete is ps) = sizes ps |` (- set is)"
  by (induction "is" arbitrary: ps) (simp_all add: sizes_delete restrict_map_def fun_eq_iff)

lemma sizes_attempts:
  assumes "\<And>i p. pmBytes (f i p) = pmBytes p"
  shows "sizes (map (\<lambda>(i, p). (i, f i p)) ps) = sizes ps"
  by (induction ps) (auto simp: sizes_Cons assms)

lemma sizes_refresh_one: "sizes (refresh_one rows i ps) = sizes ps |` (- ({i} - dID ` set rows))"
proof (cases "i \<in> dID ` set rows")
  case True
  then obtain d where "map_of (map (\<lambda>d. (dID d, d)) rows) i = Some d"
    by (cases "map_of (map (\<lambda>d. (dID d, d)) rows) i") (auto simp: map_of_eq_None_iff image_iff)
  then show ?thesis
    using True sizes_attempts[of "\<lambda>j p. if j = i then raise_attempt (dAttemptAt d) p else p" ps]
    by (simp add: refresh_one_def restrict_map_def)
next
  case False
  have "map_of (map (\<lambda>d. (dID d, d)) rows) i = None" using False by (auto simp: map_of_eq_None_iff)
  moreover have "{i} - dID ` set rows = {i}" using False by auto
  ultimately show ?thesis by (simp add: refresh_one_def sizes_delete)
qed

lemma sizes_refresh: "sizes (fold (refresh_one rows) ids ps) = sizes ps |` (- set (filter (\<lambda>i. i \<notin> dID ` set rows) ids))"
  by (induction ids arbitrary: ps) (auto simp: sizes_refresh_one restrict_map_def fun_eq_iff)

lemma sizes_add_pending: "sizes (add_pending ds ps) = sizes ps ++ batch_sizes ds"
proof (induction ds arbitrary: ps)
  case (Cons d ds)
  let ?p = "\<lparr>pmBytes = length (smdPayload d), pmNextAttemptAt = smdNextAttemptAt d\<rparr>"
  have "add_pending (d # ds) ps = add_pending ds (AList.update (smdID d) ?p ps)" by (simp add: add_pending_def)
  then show ?case using Cons[of "AList.update (smdID d) ?p ps"] by (auto simp: sizes_update batch_sizes_def map_add_def fun_eq_iff split: option.split)
qed (simp add: add_pending_def batch_sizes_def)

lemma sizes_card: "finite (dom (sizes ps)) \<and> card (dom (sizes ps)) \<le> length ps"
proof -
  have "dom (sizes ps) = fst ` set ps" by (simp add: sizes_def dom_map_option dom_map_of_conv_image_fst flip: dom_map_option_comp)
  then show ?thesis using card_image_le[of "set ps" fst] card_length[of ps] by simp
qed

lemma sizes_bytes: "(\<Sum>i\<in>dom (sizes ps). the (sizes ps i)) \<le> pending_bytes ps"
proof (induction ps)
  case (Cons x ps)
  obtain i p where x: "x = (i, p)" by (cases x)
  have "(\<Sum>j\<in>dom (sizes (x # ps)). the (sizes (x # ps) j)) =
      pmBytes p + (\<Sum>j\<in>dom (sizes ps) - {i}. the (sizes (x # ps) j))"
    using sizes_card[of ps] by (simp add: x sizes_Cons sum.insert_remove)
  also have "(\<Sum>j\<in>dom (sizes ps) - {i}. the (sizes (x # ps) j)) = (\<Sum>j\<in>dom (sizes ps) - {i}. the (sizes ps j))"
    by (rule sum.cong) (simp_all add: x sizes_Cons)
  also have "\<dots> \<le> (\<Sum>j\<in>dom (sizes ps). the (sizes ps j))" using sizes_card[of ps] by (intro sum_mono2) auto
  finally show ?case using Cons by (simp add: x)
qed (simp add: sizes_def)

text \<open>What counts towards the limits, and what is on its way to the connection.\<close>

fun counted_at :: "sender \<Rightarrow> pending \<Rightarrow> pending" where
  "counted_at (SGot ds) ps = add_pending ds ps"
| "counted_at pc ps = ps"

definition counted :: "streamer \<Rightarrow> pending" where
  "counted s = counted_at (msSender s) (msPending s)"

fun unsent :: "sender \<Rightarrow> subscriptionMessageDelivery list" where
  "unsent (SGot ds) = ds"
| "unsent (SSend ds) = ds"
| "unsent pc = []"

text \<open>A sender that has failed may leave deliveries unsent.\<close>

fun accounted :: "sender \<Rightarrow> subscriptionMessageDelivery list \<Rightarrow> subscriptionMessageDelivery list \<Rightarrow> bool" where
  "accounted (SEnd e) ts sent = (take (length sent) ts = sent)"
| "accounted pc ts sent = (ts = sent @ unsent pc)"

lemma accounted_take: "accounted pc ts sent \<Longrightarrow> take (length sent) ts = sent"
  by (cases pc) auto

text \<open>
  The limits are enforced on the map; that it holds everything that the other side holds, and that
  only what was taken is sent, is what makes them limits for the other side.
\<close>

definition log_inv :: "streamer \<Rightarrow> bool" where
  "log_inv s \<longleftrightarrow> held (msLog s) \<subseteq>\<^sub>m sizes (counted s) \<and>
     accounted (msSender s) (taken (msLog s)) (msSent s)"

lemma restrict_le: "h \<subseteq>\<^sub>m g \<Longrightarrow> h |` A \<subseteq>\<^sub>m g |` A"
  by (auto simp: map_le_def restrict_map_def)

lemma restrict_add_le:
  assumes "h \<subseteq>\<^sub>m g ++ b"
  shows "h |` A \<subseteq>\<^sub>m (g |` A) ++ b"
  unfolding map_le_def
proof
  fix i
  assume "i \<in> dom (h |` A)"
  then have "i \<in> A" "i \<in> dom h" by (auto simp: restrict_map_def split: if_split_asm)
  with assms show "(h |` A) i = ((g |` A) ++ b) i" 
    by (auto simp: map_le_def map_add_def restrict_map_def split: option.split)
qed

lemma add_le: "h \<subseteq>\<^sub>m g \<Longrightarrow> h ++ b \<subseteq>\<^sub>m g ++ b"
  by (auto simp: map_le_def map_add_def split: option.split)

lemma log_inv_drop:
  assumes "log_inv s" and "msSender s' = msSender s" and "msSent s' = msSent s" and "taken (msLog s') = taken (msLog s)"
    and "held (msLog s') = held (msLog s) |` A" and "sizes (msPending s') = sizes (msPending s) |` A"
  shows "log_inv s'"
proof -
  have "held (msLog s') \<subseteq>\<^sub>m sizes (counted s')"
  proof (cases "\<exists>ds. msSender s = SGot ds")
    case True
    then obtain ds where "msSender s = SGot ds" ..
    with assms(1,2,5,6) show ?thesis by (simp add: log_inv_def counted_def sizes_add_pending restrict_add_le)
  next
    case False
    then have "counted s = msPending s" "counted s' = msPending s'" using assms(2) by (cases "msSender s"; simp add: counted_def)+
    with assms(1,5,6) show ?thesis by (simp add: log_inv_def restrict_le)
  qed
  with assms(1-4) show ?thesis by (simp add: log_inv_def)
qed

lemma log_inv_same:
  assumes "log_inv s" and "msSender s' = msSender s" and "msSent s' = msSent s" and "msLog s' = msLog s"
    and "sizes (msPending s') = sizes (msPending s)"
  shows "log_inv s'"
  using assms(1-3) by (rule log_inv_drop[where A = UNIV]) (simp_all add: assms restrict_map_def)

lemma log_inv_got:
  assumes "log_inv s" and "counted s = msPending s" and "unsent (msSender s) = []" and "\<And>e. msSender s \<noteq> SEnd e"
  shows "log_inv (sender_got ds (s\<lparr>msWorld := w\<rparr>))"
proof -
  have "taken (msLog s) = msSent s" using assms(1,3,4) by (cases "msSender s") (auto simp: log_inv_def)
  with assms(1,2) show ?thesis by (simp add: log_inv_def sender_got_def counted_def sizes_add_pending add_le)
qed

lemma log_inv_step:
  assumes "stream_step parse subID subName req s s'" and "log_inv s"
  shows "log_inv s'"
  using assms(1)
proof (cases rule: stream_step.cases)
  case (lock a)
  then show ?thesis using assms(2) by (simp add: sender_lock_def log_inv_def counted_def Let_def)
next
  case (got p old drv ps sub r w)
  then show ?thesis using log_inv_got[OF assms(2)] by (simp add: counted_def)
next
  case (got_left p r drv ps sub t w)
  then show ?thesis using log_inv_got[OF assms(2)] by (simp add: counted_def)
next
  case (close p sub drv newID now r w)
  then show ?thesis using log_inv_got[OF assms(2)] by (simp add: counted_def)
next
  case (recorded ds)
  then show ?thesis using assms(2) by (auto simp: log_inv_def sender_record_def counted_def)
next
  case (forget m)
  then show ?thesis
    by (intro log_inv_drop[OF assms(2), where A = "- set (mrAck m @ mrNack m)"])
      (simp_all add: reader_forget_def sizes_deletes del: fold_append set_append)
next
  case (refresh_update ids rows)
  then show ?thesis
    by (intro log_inv_drop[OF assms(2), where A = "- set (filter (\<lambda>i. i \<notin> dID ` set rows) ids)"])
      (simp_all add: refresher_update_def sizes_refresh del: set_filter)
next
  case (renew_update now ids)
  then show ?thesis
    using sizes_attempts[of "\<lambda>i p. if i \<in> set ids then raise_attempt (now + msDelayAmount s) p else p" "msPending s"]
    by (intro log_inv_same[OF assms(2)]) (simp_all add: renewer_update_def)
next
  case (flow m)
  then show ?thesis by (intro log_inv_same[OF assms(2)]) (simp_all add: reader_flow_def split: option.split)
next
  case renew_init
  then show ?thesis by (intro log_inv_same[OF assms(2)]) (simp_all add: renewer_init_def Let_def split: option.split)
next
  case renew_tick
  then show ?thesis by (intro log_inv_same[OF assms(2)]) (simp_all add: renewer_tick_def Let_def)
next
  case (sent_one d ds)
  then show ?thesis using assms(2) by (auto simp: log_inv_def counted_def)
qed (use assms(2) in \<open>simp_all add: log_inv_def counted_def accounted_take\<close>)

lemma log_inv_init: "log_inv (stream_init automaticNack batch w)"
  by (simp add: log_inv_def stream_init_def)

lemma held_within:
  assumes "log_inv s" and "flow_inv N B s"
  shows "int (card (dom (held (msLog s)))) \<le> N \<and> (int (held_bytes (msLog s)) \<le> B \<or> card (dom (held (msLog s))) = 1)"
proof -
  let ?h = "held (msLog s)" and ?g = "sizes (counted s)"
  have le: "?h \<subseteq>\<^sub>m ?g" using assms(1) by (simp add: log_inv_def)
  then have dom: "dom ?h \<subseteq> dom ?g" by (rule map_le_implies_dom_le)
  have fin: "finite (dom ?g)" using sizes_card by blast
  have load: "load_ok N B (counted s)"
    using assms(2) by (cases "msSender s") (auto simp: flow_inv_def counted_def load_ok_batch)
  have card: "card (dom ?h) \<le> length (counted s)"
    using card_mono[OF fin dom] sizes_card[of "counted s"] by linarith
  have "held_bytes (msLog s) = (\<Sum>i\<in>dom ?h. the (?g i))"
    unfolding held_bytes_def using le by (intro sum.cong) (auto simp: map_le_def)
  also have "\<dots> \<le> (\<Sum>i\<in>dom ?g. the (?g i))" using fin dom by (rule sum_mono2) simp
  finally have bytes: "held_bytes (msLog s) \<le> pending_bytes (counted s)" using sizes_bytes[of "counted s"] by linarith
  have "held_bytes (msLog s) = 0" if "card (dom ?h) = 0"
    using that fin dom by (auto simp: held_bytes_def dest: finite_subset)
  moreover have "0 \<le> B" using assms(2) by (simp add: flow_inv_def)
  ultimately show ?thesis using load card bytes by (fastforce simp: load_ok_def)
qed

lemma sent_held:
  assumes "log_inv s"
  shows "smdID ` set (msSent s) \<subseteq> dom (held (msLog s)) \<union> dropped_ids (msLog s)"
proof -
  have "take (length (msSent s)) (taken (msLog s)) = msSent s"
    using assms by (auto simp: log_inv_def intro: accounted_take)
  then have "set (msSent s) \<subseteq> set (taken (msLog s))" using set_take_subset by metis
  then show ?thesis using taken_held[of "msLog s"] by blast
qed

subsection \<open>Wake-ups\<close>

definition room :: "streamer \<Rightarrow> bool" where
  "room s \<longleftrightarrow> has_room (curFc (msFc s) (msPending s))"

definition wake_inv :: "streamer \<Rightarrow> bool" where
  "wake_inv s \<longleftrightarrow> (msClosed s \<longrightarrow> msCtxDone s) \<and>
     (\<forall>a. msSender s = SLock a \<longrightarrow> msClosed s \<longrightarrow> msWake s) \<and>
     (\<forall>a. msSender s = SWait a \<longrightarrow> (msClosed s \<longrightarrow> msWake s) \<and> (room s \<longrightarrow> msWake s \<or> msRefresher s = RWake))"

lemma room_eqI: "msFc s' = msFc s \<Longrightarrow> length (msPending s') = length (msPending s) \<Longrightarrow>
    pending_bytes (msPending s') = pending_bytes (msPending s) \<Longrightarrow> room s' = room s"
  by (simp add: room_def curFc_def)

lemma wake_inv_step:
  assumes "stream_step parse subID subName req s s'" and "wake_inv s"
  shows "wake_inv s'"
  using assms(1)
proof (cases rule: stream_step.cases)
  case (lock a)
  then show ?thesis using assms(2) by (auto simp: sender_lock_def Let_def wake_inv_def room_def)
next
  case (refresh_update ids rows)
  show ?thesis
  proof (cases "\<forall>i\<in>set ids. i \<in> dID ` set rows")
    case True
    have "room s' = room s"
      using refresh_all_known[OF True, of "msPending s"] refresh_update by (intro room_eqI) (simp_all add: refresher_update_def)
    then show ?thesis using assms(2) refresh_update by (auto simp: wake_inv_def refresher_update_def)
  next
    case False
    then have "list_ex (\<lambda>i. i \<notin> dID ` set rows) ids" by (auto simp: list_ex_iff)
    then show ?thesis using assms(2) refresh_update by (auto simp: wake_inv_def refresher_update_def)
  qed
next
  case (renew_update now ids)
  have "room s' = room s"
    using attempts_keep_size[of "\<lambda>i p. if i \<in> set ids then raise_attempt (now + msDelayAmount s) p else p" "msPending s"] renew_update
    by (intro room_eqI) (simp_all add: renewer_update_def)
  then show ?thesis using assms(2) renew_update by (auto simp: wake_inv_def renewer_update_def)
next
  case (flow m)
  then show ?thesis using assms(2) by (auto simp: reader_flow_def wake_inv_def room_def split: option.split_asm)
next
  case renew_init
  then show ?thesis using assms(2) by (auto simp: renewer_init_def wake_inv_def room_def Let_def split: option.split_asm if_split_asm)
qed (use assms(2) in \<open>auto simp: wake_inv_def room_def sender_got_def sender_record_def reader_forget_def renewer_tick_def Let_def\<close>)

text \<open>
  Property C8. No wake-up is lost. Whenever the sender sleeps although the limits have room again,
  because the client acknowledged something or raised them, or because the stream is over, its
  wake-up is already in the channel, or the goroutine that noticed is just about to send it: the
  sender never depends on the next published message to go on.
\<close>

theorem no_lost_wakeup:
  assumes "stream_steps parse subID subName req (stream_init automaticNack batch w) s" and "msSender s = SWait a"
    and "has_room (curFc (msFc s) (msPending s)) \<or> msCtxDone s"
  shows "msWake s \<or> msRefresher s = RWake \<or> (msCtxDone s \<and> \<not> msClosed s)"
proof -
  have "wake_inv s"
    using assms(1)
  proof (induction rule: rtranclp_induct)
    case base
    then show ?case by (simp add: wake_inv_def stream_init_def)
  next
    case (step s s')
    then show ?case by (blast intro: wake_inv_step)
  qed
  then show ?thesis using assms(2,3) by (auto simp: wake_inv_def room_def)
qed

subsection \<open>Starting and ending\<close>

text \<open>What the streamer looks up when it is started without the identifier or without the name.\<close>

definition Go_resolve :: "uuid option \<Rightarrow> string \<Rightarrow> database \<Rightarrow> (uuid \<times> string) res" where
  "Go_resolve subID subName db =
     (case subID of
        None \<Rightarrow> map_sum (\<lambda>e. if e = EntNotFound then ErrNotFound else e) (\<lambda>s. (sID s, subName))
          (only (filter (\<lambda>s. sName s = subName \<and> sDeletedAt s = None) (subscriptions db)))
      | Some i \<Rightarrow>
          if subName = [] then map_sum (\<lambda>e. if e = EntNotFound then ErrNotFound else e) (\<lambda>s. (i, sName s))
            (only (filter (\<lambda>s. sID s = i \<and> sDeletedAt s = None) (subscriptions db)))
          else Inr (i, subName))"

text \<open>The end of the connection is an error of the standard library; it is not reported.\<close>

definition io_EOF :: err where
  "io_EOF = DriverError ''EOF''"

definition Go_result :: "err option \<Rightarrow> err option" where
  "Go_result e = (case e of None \<Rightarrow> None | Some x \<Rightarrow> if errors_Is x io_EOF then None else Some x)"

subsection \<open>Renewal of deadlines\<close>

lemma sdiv_pos: "0 \<le> x \<Longrightarrow> 0 < y \<Longrightarrow> x sdiv y = x div (y :: int)"
  by (simp add: signed_divide_int_def sgn_if)

lemma sdiv_neg: "x \<le> 0 \<Longrightarrow> 0 < y \<Longrightarrow> x sdiv y \<le> (0 :: int)"
  using pos_imp_zdiv_nonneg_iff[of y "- x"] by (auto simp: signed_divide_int_def sgn_if)

lemma int64_wraps:
  assumes "2 ^ 63 \<le> x" and "x < 2 ^ 64"
  shows "int64 x = x - 2 ^ 64"
proof -
  have "(x + 2 ^ 63) mod 2 ^ 64 = (x - 2 ^ 63 + 2 ^ 64) mod 2 ^ 64" by (simp add: algebra_simps)
  also have "\<dots> = (x - 2 ^ 63) mod 2 ^ 64" by (rule mod_add_self2)
  also have "\<dots> = x - 2 ^ 63" using assms by (intro mod_pos_pos_trivial) simp_all
  finally show ?thesis by (simp add: int64_def)
qed

lemma check_interval_pos:
  assumes "0 \<le> b" and "b \<le> 2 * ((2 ^ 64 - 1) div 9) + (1 :: int)"
  shows "0 < int64 (b sdiv 2 * 9) sdiv 10 \<longleftrightarrow> 4 \<le> b \<and> b \<le> 2 * ((2 ^ 63 - 1) div 9) + 1"
proof (cases "b div 2 * 9 < 2 ^ 63")
  case True
  then have "int64 (b sdiv 2 * 9) sdiv 10 = (b div 2) * 9 div 10"
    using assms(1) by (simp add: sdiv_pos int64_id)
  moreover have "0 < q * 9 div 10 \<longleftrightarrow> 2 \<le> q" for q :: int by auto
  moreover have "2 \<le> b div 2 \<longleftrightarrow> 4 \<le> b" by auto
  moreover have "b \<le> 2 * ((2 ^ 63 - 1) div 9) + 1"
  proof -
    have "b div 2 \<le> 1024819115206086200" using True by simp
    then show ?thesis by simp
  qed
  ultimately show ?thesis by simp
next
  case False
  then have "int64 (b sdiv 2 * 9) = b div 2 * 9 - 2 ^ 64"
    using assms by (simp add: sdiv_pos int64_wraps)
  then have "int64 (b sdiv 2 * 9) sdiv 10 \<le> 0" using assms by (intro sdiv_neg) simp_all
  moreover have "\<not> b \<le> 2 * ((2 ^ 63 - 1) div 9) + 1" using False by simp
  ultimately show ?thesis by simp
qed

text \<open>
  Property C35. Where deadlines are renewed, the ticker starts, with a positive interval, if the
  minimal backoff of the subscription is at least four nanoseconds and at most about 65 years. Below,
  the interval is zero; above, up to about 130 years, which a retry policy may ask for, the product in
  64 bits is negative. In both cases the goroutine panics, and an update of the policy may store
  either.
\<close>

theorem renewer_starts:
  assumes "sMinBackoff sb = Some b" and "0 \<le> b" and "b \<le> 2 * ((2 ^ 64 - 1) div 9) + 1"
  shows "if 4 \<le> b \<and> b \<le> 2 * ((2 ^ 63 - 1) div 9) + 1
    then msRenewer (renewer_init (Some sb) s) = AIdle \<and> 0 < msCheckInterval (renewer_init (Some sb) s) \<and>
      msDelayAmount (renewer_init (Some sb) s) = max second (b div 2) \<and> msCtxDone (renewer_init (Some sb) s) = msCtxDone s
    else msRenewer (renewer_init (Some sb) s) = AEnd (Some (Panic ''non-positive interval for NewTicker'')) \<and>
      msCtxDone (renewer_init (Some sb) s)"
  using assms(1,2) check_interval_pos[OF assms(2,3)] by (auto simp: renewer_init_def Let_def not_le sdiv_pos max_def)

theorem renewer_starts_witness:
  "msRenewer (renewer_init (Some (sample_sub\<lparr>sMinBackoff := Some 0\<rparr>))
     (stream_init False False \<lparr>wDb = empty_db, wNotify = init_notify\<rparr>)) = AEnd (Some (Panic ''non-positive interval for NewTicker'')) \<and>
   msRenewer (renewer_init (Some (sample_sub\<lparr>sMinBackoff := Some (10 * second)\<rparr>))
     (stream_init False False \<lparr>wDb = empty_db, wNotify = init_notify\<rparr>)) = AIdle \<and>
   msRenewer (renewer_init (Some (sample_sub\<lparr>sMinBackoff := Some (100 * 365 * 24 * hour)\<rparr>))
     (stream_init False False \<lparr>wDb = empty_db, wNotify = init_notify\<rparr>)) = AEnd (Some (Panic ''non-positive interval for NewTicker''))"
  using renewer_starts[of "sample_sub\<lparr>sMinBackoff := Some 0\<rparr>" 0]
    renewer_starts[of "sample_sub\<lparr>sMinBackoff := Some (10 * second)\<rparr>" "10 * second"]
    renewer_starts[of "sample_sub\<lparr>sMinBackoff := Some (100 * 365 * 24 * hour)\<rparr>" "100 * 365 * 24 * hour"]
  by simp

text \<open>With automatic nacks nothing is renewed.\<close>

lemma automatic_nack_step:
  assumes "stream_step parse subID subName req s s'" and "msRenewer s = AEnd None"
  shows "msRenewer s' = AEnd None"
  using assms(1) by (cases rule: stream_step.cases)
    (use assms(2) in \<open>simp_all add: sender_lock_def sender_got_def sender_record_def reader_flow_def reader_forget_def refresher_update_def
      Let_def split: option.split\<close>)

lemma automatic_nack_never_renews:
  "stream_steps parse subID subName req (stream_init True batch w) s \<Longrightarrow> msRenewer s = AEnd None"
  by (induction rule: rtranclp_induct) (auto simp: stream_init_def intro: automatic_nack_step)

subsection \<open>With a connection\<close>

text \<open>
  The streamer together with its connection, in a state of its own: \<open>receives\<close> is a request read
  from it, \<open>sends\<close> what it does with deliveries, and \<open>own\<close> what it does by itself, knowing whether
  the context is done.
\<close>

inductive conn_step :: "filter_parser \<Rightarrow> uuid \<Rightarrow> string \<Rightarrow> ('c \<Rightarrow> messageStreamRequest \<Rightarrow> 'c \<Rightarrow> bool) \<Rightarrow>
    ('c \<Rightarrow> subscriptionMessageDelivery list \<Rightarrow> 'c) \<Rightarrow> (bool \<Rightarrow> 'c \<Rightarrow> 'c \<Rightarrow> bool) \<Rightarrow> 'c \<times> streamer \<Rightarrow> 'c \<times> streamer \<Rightarrow> bool"
  for parse subID subName receives sends own where
  streams: "stream_step parse subID subName (\<lambda>_. False) s s' \<Longrightarrow> msSent s' = msSent s @ ds \<Longrightarrow>
    conn_step parse subID subName receives sends own (c, s) (if ds = [] then c else sends c ds, s')"
| reads: "msReader s = LLoop \<Longrightarrow> receives c m c' \<Longrightarrow>
    conn_step parse subID subName receives sends own (c, s) (c', s\<lparr>msReader := LFlow m\<rparr>)"
| alone: "own (msCtxDone s) c c' \<Longrightarrow> conn_step parse subID subName receives sends own (c, s) (c', s)"

lemma sent_grows: "stream_step parse subID subName req s s' \<Longrightarrow> \<exists>ds. msSent s' = msSent s @ ds"
  by (erule stream_step.cases) (auto simp: sender_lock_def sender_got_def sender_record_def reader_flow_def reader_forget_def refresher_update_def
      renewer_init_def renewer_tick_def renewer_update_def Let_def split: option.split)

lemma streams_alone:
  "stream_steps parse subID subName (\<lambda>_. False) s s' \<Longrightarrow> \<exists>c'. (conn_step parse subID subName receives sends own)\<^sup>*\<^sup>* (c, s) (c', s')"
proof (induction rule: rtranclp_induct)
  case (step s' s'')
  then obtain c' where "(conn_step parse subID subName receives sends own)\<^sup>*\<^sup>* (c, s) (c', s')" by blast
  moreover obtain ds where "msSent s'' = msSent s' @ ds" using sent_grows[OF step(2)] by blast
  ultimately show ?case using conn_step.streams[OF step(2)] by (meson rtranclp.rtrancl_into_rtrancl)
qed blast

lemma sent_grows_steps: "stream_steps parse subID subName req s s' \<Longrightarrow> \<exists>ds. msSent s' = msSent s @ ds"
  by (induction rule: rtranclp_induct) (auto dest: sent_grows)

lemma streams_quiet:
  "stream_steps parse subID subName (\<lambda>_. False) s s' \<Longrightarrow> msSent s' = msSent s \<Longrightarrow>
   (conn_step parse subID subName receives sends own)\<^sup>*\<^sup>* (c, s) (c, s')"
proof (induction rule: converse_rtranclp_induct)
  case (step s s1)
  obtain ds ds' where "msSent s1 = msSent s @ ds" "msSent s' = msSent s1 @ ds'"
    using sent_grows[OF step(1)] sent_grows_steps[OF step(2)] by blast
  with step(4) have same: "msSent s1 = msSent s" "msSent s' = msSent s1" by simp_all
  have "conn_step parse subID subName receives sends own (c, s) (c, s1)"
    using conn_step.streams[OF step(1), where ds = "[]"] same(1) by simp
  then show ?case using step(3)[OF same(2)] by (rule converse_rtranclp_into_rtranclp)
qed simp

text \<open>What the streamer relies on: the connection never asks for more than its limits.\<close>

locale stream_connection =
  fixes receives :: "'c \<Rightarrow> messageStreamRequest \<Rightarrow> 'c \<Rightarrow> bool"
    and sends :: "'c \<Rightarrow> subscriptionMessageDelivery list \<Rightarrow> 'c"
    and own :: "bool \<Rightarrow> 'c \<Rightarrow> 'c \<Rightarrow> bool"
    and limits :: "int \<Rightarrow> int \<Rightarrow> 'c \<Rightarrow> bool"
  assumes receives_within: "limits N B c \<Longrightarrow> receives c m c' \<Longrightarrow> limits N B c' \<and> request_within N B m"
    and sends_within: "limits N B c \<Longrightarrow> limits N B (sends c ds)"
    and own_within: "limits N B c \<Longrightarrow> own b c c' \<Longrightarrow> limits N B c'"
begin

lemma conn_step_within:
  assumes "conn_step parse subID subName receives sends own x y" and "limits N B (fst x)" and "flow_inv N B (snd x)" and "log_inv (snd x)"
  shows "limits N B (fst y) \<and> flow_inv N B (snd y) \<and> log_inv (snd y)"
  using assms(1)
proof (cases rule: conn_step.cases)
  case (streams s s' ds c)
  then show ?thesis
    using assms(2-4) flow_inv_step[OF streams(3), of N B] log_inv_step[OF streams(3)] by (simp add: sends_within)
next
  case (reads s c m c')
  then show ?thesis
    using assms(2-4) receives_within[OF _ reads(4), of N B] by (simp add: flow_inv_def log_inv_def counted_def)
next
  case (alone s c c')
  then show ?thesis using assms(2-4) own_within[OF _ alone(3)] by simp
qed

lemma outstanding_within:
  assumes "(conn_step parse subID subName receives sends own)\<^sup>*\<^sup>* (c0, stream_init a b w) (c, s)"
    and "limits N B c0" and "1 \<le> N" and "1 \<le> B"
  shows "limits N B c \<and> flow_inv N B s \<and> log_inv s"
proof -
  have "limits N B (fst x) \<and> flow_inv N B (snd x) \<and> log_inv (snd x)"
    if "(conn_step parse subID subName receives sends own)\<^sup>*\<^sup>* (c0, stream_init a b w) x" for x
    using that
  proof (induction rule: rtranclp_induct)
    case base
    then show ?case
      using assms(2-4) log_inv_init[of a b w] by (simp add: flow_inv_def stream_init_def fc_within_def load_ok_def)
  next
    case (step x y)
    then show ?case using conn_step_within by blast
  qed
  from this[OF assms(1)] show ?thesis by simp
qed

end

subsection \<open>A run\<close>

definition sample_stream_world :: world where
  "sample_stream_world = \<lparr>wDb = empty_db\<lparr>topics := [sample_topic], subscriptions := [sample_sub\<lparr>sDeadLetterTopicID := None\<rparr>],
     messages := [sample_msg1], deliveries := [sample_del1]\<rparr>, wNotify = init_notify\<rparr>"

definition sample_request :: messageStreamRequest where
  "sample_request = \<lparr>mrFlowControl = Some \<lparr>fcMaxMessages = 10, fcMaxBytes = 1000\<rparr>, mrAck = [], mrNack = [], mrDelay = [],
     mrDelaySeconds = 0\<rparr>"

abbreviation sample_steps :: "streamer \<Rightarrow> streamer \<Rightarrow> bool" where
  "sample_steps \<equiv> stream_steps (\<lambda>_. None) 11 ''s'' (\<lambda>m. m = sample_request)"

lemma DoTx_good: "inner (wDb w) = Inr (r, hs, db') \<Longrightarrow>
    DoTx good_driver inner w = (Inr r, w\<lparr>wDb := db', wNotify := fold run_notice (rev hs) (wNotify w)\<rparr>)"
  by (rule DoTx_ok) (simp_all add: good_driver_def)

lemma sample_fetch:
  "\<exists>w' sub r w''. DoTx good_driver (get_start 50 (fetch_params 11 ''s'' \<lparr>fcMaxMessages = 1, fcMaxBytes = 1\<rparr> False)) sample_stream_world =
       (Inr (fetch_params 11 ''s'' \<lparr>fcMaxMessages = 1, fcMaxBytes = 1\<rparr> False), w') \<and>
     DoTx good_driver (get_pass (\<lambda>_. None) sample_pass (fetch_params 11 ''s'' \<lparr>fcMaxMessages = 1, fcMaxBytes = 1\<rparr> False)) w' =
       (Inr (sub, Got r), w'') \<and>
     grDeliveries r = [hand_out sub 50 sample_del1 sample_msg1]"
proof -
  let ?p = "fetch_params 11 ''s'' \<lparr>fcMaxMessages = 1, fcMaxBytes = 1\<rparr> False"
  let ?s = "sample_sub\<lparr>sDeadLetterTopicID := None, sExpiresAt := 50 + 10 * hour\<rparr>"
  let ?r = "\<lparr>grDeliveries = [hand_out ?s 50 sample_del1 sample_msg1], grNumDeadLettered = 0\<rparr>"
  let ?db = "(wDb sample_stream_world)\<lparr>subscriptions := [?s]\<rparr>"
  let ?w = "sample_stream_world\<lparr>wDb := ?db, wNotify := fold run_notice (rev []) (wNotify sample_stream_world)\<rparr>"
  have start: "get_start 50 ?p (wDb sample_stream_world) = Inr (?p, [], ?db)"
    by (simp add: get_start_def verifySub_def subMatch_def refresh_expiry_def update_subscriptions_def Let_def sub_refs_def
        topic_ids_def fetch_params_def sample_stream_world_def sample_sub_def sample_topic_def empty_db_def)
  have "\<exists>db. get_pass (\<lambda>_. None) sample_pass ?p ?db = Inr ((?s, Got ?r), [], db)"
    by (simp add: get_pass_def verifySub_def subMatch_def queryAndLockDeliveriesOnce_def buildDeliveryQuery_def
        predecessor_done_def applyResults_def refresh_expiry_def update_subscriptions_def Let_def sub_refs_def
        topic_ids_def fetch_params_def sample_stream_world_def sample_sub_def sample_topic_def empty_db_def sample_pass_def
        sample_del1_def sample_msg1_def HasFullDeadLetterConfig_def update_one_delivery_def update_deliveries_def)
  then obtain db where pass: "get_pass (\<lambda>_. None) sample_pass ?p (wDb ?w) = Inr ((?s, Got ?r), [], db)" by auto
  have d: "grDeliveries ?r = [hand_out ?s 50 sample_del1 sample_msg1]" by simp
  from DoTx_good[where inner = "get_start 50 ?p" and w = sample_stream_world, OF start]
    DoTx_good[where inner = "get_pass (\<lambda>_. None) sample_pass ?p" and w = ?w, OF pass] d
  show ?thesis by (intro exI conjI)
qed

lemma five_steps: "r s0 s1 \<Longrightarrow> r s1 s2 \<Longrightarrow> r s2 s3 \<Longrightarrow> r s3 s4 \<Longrightarrow> r s4 s5 \<Longrightarrow> r\<^sup>*\<^sup>* s0 s5"
  by (simp add: converse_rtranclp_into_rtranclp)

lemma sent_single:
  "msSender s = SSend [d] \<Longrightarrow>
   stream_step parse subID subName req s (s\<lparr>msSent := msSent s @ [d], msSender := SCheck False\<rparr>)"
  using stream_step.sent_batch[of s "[d]" parse subID subName req] stream_step.sent_one[of s d "[]" parse subID subName req]
  by (cases "msBatch s") simp_all

lemma sample_run:
  "\<exists>s d. stream_steps (\<lambda>_. None) 11 ''s'' req (stream_init automaticNack batch sample_stream_world) s \<and> msSender s = SSend [d] \<and>
     msPending s = add_pending [d] [] \<and> msFc s = \<lparr>fcMaxMessages = 1, fcMaxBytes = 1\<rparr> \<and> msReader s = LLoop \<and> \<not> msCtxDone s \<and> msSent s = [] \<and> msLog s = [Taken [d]] \<and> msBatch s = batch \<and>
     smdID d = 31 \<and>
     length (smdPayload d) = length (mPayload sample_msg1)"
proof -
  let ?p = "fetch_params 11 ''s'' \<lparr>fcMaxMessages = 1, fcMaxBytes = 1\<rparr> False"
  let ?step = "stream_step (\<lambda>_. None) 11 ''s'' req"
  let ?s0 = "stream_init automaticNack batch sample_stream_world"
  obtain w' sub r w'' where
    tx: "DoTx good_driver (get_start 50 ?p) sample_stream_world = (Inr ?p, w')"
      "DoTx good_driver (get_pass (\<lambda>_. None) sample_pass ?p) w' = (Inr (sub, Got r), w'')"
    and d: "grDeliveries r = [hand_out sub 50 sample_del1 sample_msg1]"
    using sample_fetch by blast
  let ?s1 = "?s0\<lparr>msSender := SLock False\<rparr>" and ?s2 = "?s0\<lparr>msSender := SFetch ?p\<rparr>"
  let ?s3 = "?s2\<lparr>msWorld := w', msSender := SPoll ?p None\<rparr>" and ?s4 = "sender_got (grDeliveries r) (?s2\<lparr>msWorld := w''\<rparr>)"
  have 1: "?step ?s0 ?s1" using stream_step.check[of ?s0 False] by (simp add: stream_init_def)
  have 2: "?step ?s1 ?s2"
    using stream_step.lock[of ?s1 False] by (simp add: stream_init_def sender_lock_def curFc_def has_room_def Let_def)
  have 3: "?step ?s2 ?s3" using tx(1) stream_step.fetch[where s = ?s2 and p = ?p and drv = good_driver and now = 50 and p' = ?p and w = w'] by (simp add: stream_init_def)
  have 4: "?step ?s3 ?s4" using tx(2) stream_step.got[where s = ?s3 and p = ?p and old = None and drv = good_driver and ps = sample_pass and sub = sub and r = r
      and w = w'' and parse = "\<lambda>_. None"] by (simp add: sender_got_def)
  have 5: "?step ?s4 (sender_record (grDeliveries r) ?s4)" by (rule stream_step.recorded) (simp add: sender_got_def)
  have "stream_steps (\<lambda>_. None) 11 ''s'' req ?s0 (sender_record (grDeliveries r) ?s4)"
    by (rule five_steps[where r = ?step and ?s0.0 = ?s0 and ?s1.0 = ?s1 and ?s2.0 = ?s2 and ?s3.0 = ?s3 and ?s4.0 = ?s4]; fact)
  moreover have "length (smdPayload (hand_out sub 50 sample_del1 sample_msg1)) = length (mPayload sample_msg1)"
      "smdID (hand_out sub 50 sample_del1 sample_msg1) = 31"
    by (simp_all add: hand_out_def sample_del1_def split: prod.split)
  ultimately show ?thesis
    by (intro exI[of _ "sender_record (grDeliveries r) ?s4"] exI[of _ "hand_out sub 50 sample_del1 sample_msg1"])
      (simp add: d sender_record_def sender_got_def stream_init_def)
qed

theorem no_lost_wakeup_witness:
  "\<exists>s. sample_steps (stream_init True True sample_stream_world) s \<and> msSender s = SWait True \<and>
     has_room (curFc (msFc s) (msPending s)) \<and> (msWake s \<or> msRefresher s = RWake \<or> (msCtxDone s \<and> \<not> msClosed s))"
proof -
  let ?step = "stream_step (\<lambda>_. None) 11 ''s'' (\<lambda>m. m = sample_request)"
  obtain s d where run: "sample_steps (stream_init True True sample_stream_world) s" "msSender s = SSend [d]"
      "msPending s = add_pending [d] []" "msFc s = \<lparr>fcMaxMessages = 1, fcMaxBytes = 1\<rparr>" "msReader s = LLoop" "\<not> msCtxDone s"
      "length (smdPayload d) = length (mPayload sample_msg1)"
    using sample_run by blast
  let ?s1 = "s\<lparr>msSent := msSent s @ [d], msSender := SCheck False\<rparr>"
  let ?s2 = "?s1\<lparr>msSender := SLock False\<rparr>" and ?s3 = "?s1\<lparr>msSender := SWait True\<rparr>"
  let ?s4 = "?s3\<lparr>msReader := LFlow sample_request\<rparr>"
  let ?s5 = "reader_flow sample_request ?s4"
  have 1: "?step s ?s1" by (rule sent_single[OF run(2)])
  have 2: "?step ?s1 ?s2" using stream_step.check[of ?s1 False] run(6) by simp
  have 3: "?step ?s2 ?s3"
    using stream_step.lock[of ?s2 False] run(3,4) by (simp add: sender_lock_def curFc_def has_room_def add_pending_one Let_def)
  have 4: "?step ?s3 ?s4" by (rule stream_step.receive) (simp_all add: run)
  have 5: "?step ?s4 ?s5" by (rule stream_step.flow) simp
  have steps: "sample_steps (stream_init True True sample_stream_world) ?s5"
    using five_steps[where r = ?step and ?s0.0 = s and ?s1.0 = ?s1 and ?s2.0 = ?s2 and ?s3.0 = ?s3 and ?s4.0 = ?s4, OF 1 2 3 4 5]
      run(1) by (rule rtranclp_trans[rotated])
  have w: "msSender ?s5 = SWait True" "has_room (curFc (msFc ?s5) (msPending ?s5))"
    using run by (simp_all add: reader_flow_def sample_request_def curFc_def has_room_def add_pending_one sample_msg1_def)
  from no_lost_wakeup[OF steps w(1)] w(2) have "msWake ?s5 \<or> msRefresher ?s5 = RWake \<or> (msCtxDone ?s5 \<and> \<not> msClosed ?s5)" by blast
  with steps w show ?thesis by (intro exI[of _ ?s5] conjI)
qed

end
