(* ===== verification/GrpcSubscriber.thy ===== *)
theory GrpcSubscriber
  imports GrpcPublisher Streamer
begin

text \<open>
  The subscriber service, \<open>services/grpc-subscriber.go\<close> and \<open>services/grpc-snapshots.go\<close>, except
  for the streaming call itself. Handlers are modelled as in the publisher service. A protobuf duration stands
  for the value of its \<open>AsDuration\<close>, zero where it is absent, and a timestamp for its \<open>AsTime\<close>. The
  attributes of a push configuration are listed in the order in which the loop over them meets
  them.
\<close>

subsection \<open>Protobuf messages\<close>

datatype pbWrapper = PubsubWrapper | NoWrapper

record pbPushConfig =
  ppEndpoint :: string
  ppAttributes :: "(string \<times> string) list"
  ppAuthenticationMethod :: bool
  ppWrapper :: "pbWrapper option"

record pbRetryPolicy =
  prMinimumBackoff :: "duration option"
  prMaximumBackoff :: "duration option"

record pbDeadLetterPolicy =
  pdDeadLetterTopic :: string
  pdMaxDeliveryAttempts :: int

record pbSubscription =
  pbsName :: string
  pbsTopic :: string
  pbsPushConfig :: "pbPushConfig option"
  pbsAckDeadlineSeconds :: int
  pbsRetainAckedMessages :: bool
  pbsMessageRetentionDuration :: "duration option"
  pbsLabels :: attrs
  pbsEnableMessageOrdering :: bool
  pbsExpirationPolicy :: "duration option option"
  pbsFilter :: string
  pbsDeadLetterPolicy :: "pbDeadLetterPolicy option"
  pbsRetryPolicy :: "pbRetryPolicy option"
  pbsDetached :: bool

definition AsDuration :: "duration option \<Rightarrow> duration" where
  "AsDuration d = (case d of None \<Rightarrow> 0 | Some x \<Rightarrow> x)"

definition GetTtl :: "duration option option \<Rightarrow> duration option" where
  "GetTtl p = (case p of None \<Rightarrow> None | Some ttl \<Rightarrow> ttl)"

definition defaultSubscriptionTTL :: duration where
  "defaultSubscriptionTTL = 30 * 24 * hour"

definition defaultSubscriptionMessageTTL :: duration where
  "defaultSubscriptionMessageTTL = 7 * 24 * hour"

definition deletedTopicName :: string where
  "deletedTopicName = ''_deleted-topic_''"

definition defaultDeadLetterMaxAttempts :: int where
  "defaultDeadLetterMaxAttempts = 5"

definition or_default :: "duration \<Rightarrow> duration \<Rightarrow> duration" where
  "or_default dflt d = (if d = 0 then dflt else d)"

text \<open>The edges that were loaded with a row are arguments, \<open>None\<close> when they were not.\<close>

definition edge_name :: "topic option \<Rightarrow> string \<Rightarrow> string" where
  "edge_name edge name =
     (case edge of None \<Rightarrow> name | Some t \<Rightarrow> if tDeletedAt t \<noteq> None then deletedTopicName else tName t)"

definition entSubscriptionToGrpc :: "subscription \<Rightarrow> topic option \<Rightarrow> topic option \<Rightarrow> string \<Rightarrow> string \<Rightarrow> pbSubscription" where
  "entSubscriptionToGrpc s edgeTopic edgeDeadLetter topicName deadLetterTopicName =
     \<lparr>pbsName = sName s, pbsTopic = edge_name edgeTopic topicName,
      pbsPushConfig = map_option (\<lambda>ep. \<lparr>ppEndpoint = ep, ppAttributes = [], ppAuthenticationMethod = False,
        ppWrapper = None\<rparr>) (sPushEndpoint s),
      pbsAckDeadlineSeconds = \<lfloor>Duration_Seconds (fst (NextDelayFor s 0))\<rfloor>,
      pbsRetainAckedMessages = False,
      pbsMessageRetentionDuration = Some (sMessageTTL s),
      pbsLabels = sLabels s, pbsEnableMessageOrdering = sOrderedDelivery s,
      pbsExpirationPolicy = Some (Some (sTTL s)),
      pbsFilter = (case sMessageFilter s of None \<Rightarrow> [] | Some f \<Rightarrow> f),
      pbsDeadLetterPolicy = map_option (\<lambda>_. \<lparr>pdDeadLetterTopic = edge_name edgeDeadLetter deadLetterTopicName,
        pdMaxDeliveryAttempts = (case sMaxDeliveryAttempts s of None \<Rightarrow> 0 | Some n \<Rightarrow> n)\<rparr>) (sDeadLetterTopicID s),
      pbsRetryPolicy = (if sMinBackoff s \<noteq> None \<or> sMaxBackoff s \<noteq> None
        then Some \<lparr>prMinimumBackoff = sMinBackoff s, prMaximumBackoff = sMaxBackoff s\<rparr> else None),
      pbsDetached = False\<rparr>"

text \<open>Loading the edges of a subscription.\<close>

definition topic_row :: "uuid \<Rightarrow> database \<Rightarrow> topic option" where
  "topic_row i db = first_row (filter (\<lambda>t. tID t = i) (topics db))"

definition with_edges :: "database \<Rightarrow> subscription \<Rightarrow> pbSubscription" where
  "with_edges db s = entSubscriptionToGrpc s (topic_row (sTopicID s) db)
     (case sDeadLetterTopicID s of None \<Rightarrow> None | Some i \<Rightarrow> topic_row i db) [] []"

subsection \<open>Subscriptions\<close>

definition bad_subscription_path :: err where
  "bad_subscription_path = StatusError InvalidArgument ''Unsupported project / subscription path''"

definition subscription_not_found :: err where
  "subscription_not_found = StatusError NotFound ''Subscription not found''"

definition create_params :: "pbSubscription \<Rightarrow> createSubscriptionParams" where
  "create_params req =
     \<lparr>csTopicName = pbsTopic req, csName = pbsName req,
      csTTL = or_default defaultSubscriptionTTL (AsDuration (GetTtl (pbsExpirationPolicy req))),
      csMessageTTL = or_default defaultSubscriptionMessageTTL (AsDuration (pbsMessageRetentionDuration req)),
      csOrderedDelivery = pbsEnableMessageOrdering req, csLabels = pbsLabels req,
      csPushEndpoint = (case pbsPushConfig req of None \<Rightarrow> [] | Some c \<Rightarrow> ppEndpoint c),
      csMinBackoff = (case pbsRetryPolicy req of None \<Rightarrow> 0 | Some r \<Rightarrow> AsDuration (prMinimumBackoff r)),
      csMaxBackoff = (case pbsRetryPolicy req of None \<Rightarrow> 0 | Some r \<Rightarrow> AsDuration (prMaximumBackoff r)),
      csFilter = pbsFilter req,
      csMaxDeliveryAttempts = (case pbsDeadLetterPolicy req of None \<Rightarrow> 0
        | Some d \<Rightarrow> if pdMaxDeliveryAttempts d = 0 then defaultDeadLetterMaxAttempts else pdMaxDeliveryAttempts d),
      csDeadLetterTopic = (case pbsDeadLetterPolicy req of None \<Rightarrow> [] | Some d \<Rightarrow> pdDeadLetterTopic d)\<rparr>"

definition check_create :: "pbSubscription \<Rightarrow> unit res" where
  "check_create req =
     (if \<not> isValidSubscriptionName (pbsName req) then Inl bad_subscription_path
      else if pbsDetached req then Inl (StatusError InvalidArgument ''Cannot create detached subscription'')
      else case pbsPushConfig req of
        None \<Rightarrow> Inr ()
      | Some c \<Rightarrow>
          if ppAttributes c \<noteq> [] then Inl (StatusError Unimplemented ''Advanced features not supported (PushConfig.Attributes)'')
          else if ppAuthenticationMethod c
          then Inl (StatusError Unimplemented ''Advanced features not supported (PushConfig.AuthenticationMethod)'')
          else if ppWrapper c = Some NoWrapper
          then Inl (StatusError Unimplemented ''Advanced features not supported (PushConfig.Wrapper unwrapped)'')
          else Inr ())"

definition CreateSubscription :: "filter_parser \<Rightarrow> driver \<Rightarrow> uuid \<Rightarrow> time \<Rightarrow> time \<Rightarrow> pbSubscription \<Rightarrow> world \<Rightarrow>
    pbSubscription res \<times> world" where
  "CreateSubscription parse drv i now createdAt req w =
     (case bind_res (check_create req) (\<lambda>_. NewCreateSubscription (create_params req)) of
        Inl e \<Rightarrow> (Inl e, w)
      | Inr p \<Rightarrow> map_prod (on_error (\<lambda>e.
            if isNotFound e then topic_not_found
            else if errors_Is e ErrExists then StatusError AlreadyExists ''Subscription already exists''
            else if IsPostgreSQLErrorCode e SerializationFailure then StatusError Aborted []
            else AsStatusError e) \<circ> map_sum id (\<lambda>r.
              entSubscriptionToGrpc (csrSub r) None None (csTopicName p) (csDeadLetterTopic p))) id
          (DoTx drv (CreateSubscription_Execute parse i now createdAt p) w))"

definition GetSubscription :: "driver \<Rightarrow> string \<Rightarrow> world \<Rightarrow> pbSubscription res \<times> world" where
  "GetSubscription drv name w =
     (if \<not> isValidSubscriptionName name then (Inl bad_subscription_path, w)
      else map_prod (on_error (or_status subscription_not_found)) id
        (DoTx drv (\<lambda>db. bind_res (only (live_subs name db)) (\<lambda>s. Inr (with_edges db s, [], db))) w))"

text \<open>A missing push configuration is dereferenced after its attributes were looked at.\<close>

fun bad_attribute :: "(string \<times> string) list \<Rightarrow> err option" where
  "bad_attribute [] = None"
| "bad_attribute ((k, v) # as) =
     (if k \<noteq> ''x-goog-version'' then Some (StatusError InvalidArgument ''Unsupported attribute'')
      else if v \<noteq> ''v1'' then Some (StatusError InvalidArgument ''Unsupported x-goog-version'')
      else bad_attribute as)"

definition validatePushConfig :: "pbPushConfig option \<Rightarrow> unit res" where
  "validatePushConfig cfg =
     (case cfg of
        None \<Rightarrow> Inl nil_deref
      | Some c \<Rightarrow>
          (case bad_attribute (ppAttributes c) of
             Some e \<Rightarrow> Inl e
           | None \<Rightarrow> if ppAuthenticationMethod c
               then Inl (StatusError Unimplemented ''PushConfig.AuthenticationMethod not supported'') else Inr ()))"

definition applyPushConfig :: "pbPushConfig option \<Rightarrow> subscription \<Rightarrow> subscription" where
  "applyPushConfig cfg s =
     s\<lparr>sPushEndpoint := nonempty (case cfg of None \<Rightarrow> [] | Some c \<Rightarrow> ppEndpoint c)\<rparr>"

text \<open>
  One path of an update: what it does to the row, and the name of the dead-letter topic from then
  on. The clock is read at the expiration policy.
\<close>

definition sub_update_path :: "filter_parser \<Rightarrow> database \<Rightarrow> pbSubscription \<Rightarrow> time \<Rightarrow> string \<Rightarrow> string \<Rightarrow>
    ((subscription \<Rightarrow> subscription) \<times> string) res" where
  "sub_update_path parse db req now p dlName =
     (if p = ''name'' then Inl (StatusError InvalidArgument ''Subscriptions cannot be renamed'')
      else if p = ''topic'' then Inl (StatusError InvalidArgument ''Subscriptions cannot be moved between topics'')
      else if p = ''labels'' then Inr (\<lambda>s. s\<lparr>sLabels := pbsLabels req\<rparr>, dlName)
      else if p = ''expiration_policy'' then
        (let ttl = or_default defaultSubscriptionTTL (AsDuration (GetTtl (pbsExpirationPolicy req))) in
         Inr (\<lambda>s. s\<lparr>sTTL := ttl, sExpiresAt := now + ttl\<rparr>, dlName))
      else if p = ''message_retention_duration'' then
        (let ttl = or_default defaultSubscriptionMessageTTL (AsDuration (pbsMessageRetentionDuration req)) in
         Inr (\<lambda>s. s\<lparr>sMessageTTL := ttl\<rparr>, dlName))
      else if p = ''enable_message_ordering'' then
        Inr (\<lambda>s. s\<lparr>sOrderedDelivery := pbsEnableMessageOrdering req\<rparr>, dlName)
      else if p = ''retry_policy'' then
        Inr (\<lambda>s. s\<lparr>sMinBackoff := Option.bind (pbsRetryPolicy req) prMinimumBackoff,
          sMaxBackoff := Option.bind (pbsRetryPolicy req) prMaximumBackoff\<rparr>, dlName)
      else if p = ''push_config'' then
        bind_res (validatePushConfig (pbsPushConfig req)) (\<lambda>_. Inr (applyPushConfig (pbsPushConfig req), dlName))
      else if p = ''filter'' then
        (if pbsFilter req = [] then Inr (\<lambda>s. s\<lparr>sMessageFilter := None\<rparr>, dlName)
         else if parse (pbsFilter req) = None then Inl (StatusError InvalidArgument ''Invalid filter'')
         else Inr (\<lambda>s. s\<lparr>sMessageFilter := Some (pbsFilter req)\<rparr>, dlName))
      else if p = ''dead_letter_policy'' then
        (case pbsDeadLetterPolicy req of
           None \<Rightarrow> Inr (\<lambda>s. s\<lparr>sDeadLetterTopicID := None, sMaxDeliveryAttempts := None\<rparr>, [])
         | Some d \<Rightarrow>
             if pdDeadLetterTopic d = [] then Inr (\<lambda>s. s\<lparr>sDeadLetterTopicID := None, sMaxDeliveryAttempts := None\<rparr>, [])
             else bind_res (on_error (or_status (StatusError NotFound ''Dead letter topic not found''))
               (only (live_topics (pdDeadLetterTopic d) db))) (\<lambda>dlt.
               Inr (\<lambda>s. s\<lparr>sDeadLetterTopicID := Some (tID dlt), sMaxDeliveryAttempts := Some
                 (if pdMaxDeliveryAttempts d \<noteq> 0 then pdMaxDeliveryAttempts d else defaultDeadLetterMaxAttempts)\<rparr>,
                 tName dlt)))
      else if p \<in> {''ack_deadline_seconds'', ''retain_acked_messages'', ''detached''}
      then Inl (StatusError InvalidArgument ''Modifying Subscription is not supported'')
      else Inl (StatusError InvalidArgument ''Modifying Subscription is not a recognized subscription property''))"

fun sub_updates :: "filter_parser \<Rightarrow> database \<Rightarrow> pbSubscription \<Rightarrow> (nat \<Rightarrow> time) \<Rightarrow> nat \<Rightarrow> string list \<Rightarrow>
    (subscription \<Rightarrow> subscription) \<Rightarrow> string \<Rightarrow> ((subscription \<Rightarrow> subscription) \<times> string) res" where
  "sub_updates parse db req nows k [] f dlName = Inr (f, dlName)"
| "sub_updates parse db req nows k (p # ps) f dlName =
     bind_res (sub_update_path parse db req (nows k) p dlName) (\<lambda>(g, dlName').
       sub_updates parse db req nows (Suc k) ps (g \<circ> f) dlName')"

text \<open>Every recognised path sets or clears a column, so an update is a no-op exactly without paths.\<close>

definition UpdateSubscription :: "filter_parser \<Rightarrow> driver \<Rightarrow> (nat \<Rightarrow> time) \<Rightarrow> pbSubscription \<Rightarrow> string list \<Rightarrow> world \<Rightarrow>
    pbSubscription option res \<times> world" where
  "UpdateSubscription parse drv nows req paths w =
     (if \<not> isValidSubscriptionName (pbsName req) then (Inl bad_subscription_path, w)
      else DoTx drv (\<lambda>db.
        bind_res (on_error (or_status subscription_not_found) (only (live_subs (pbsName req) db))) (\<lambda>s.
        case topic_row (sTopicID s) db of
          None \<Rightarrow> Inl nil_deref
        | Some t \<Rightarrow>
            (let dlName = (case Option.bind (sDeadLetterTopicID s) (\<lambda>i. topic_row i db) of None \<Rightarrow> [] | Some d \<Rightarrow> tName d) in
             bind_res (sub_updates parse db req nows 0 paths id dlName) (\<lambda>(f, dlName').
             if paths = [] then Inr (None, [], db)
             else bind_res (on_error (\<lambda>e. StatusError Unknown []) (update_subscriptions (\<lambda>x. sID x = sID s) f db)) (\<lambda>db'.
               Inr (Some (entSubscriptionToGrpc (f s) None None (tName t) dlName'),
                 [NotifyModifySubscription (sID s) (sName s)], db')))))) w)"

definition ListSubscriptions :: "(string \<Rightarrow> err + uuid) \<Rightarrow> (uuid \<Rightarrow> string) \<Rightarrow> driver \<Rightarrow> string \<Rightarrow> int \<Rightarrow> string \<Rightarrow>
    world \<Rightarrow> (pbSubscription list \<times> string) res \<times> world" where
  "ListSubscriptions parse_uuid show_uuid drv project psize token w =
     (if \<not> prefix ''projects/'' project then (Inl (StatusError InvalidArgument ''Invalid project ID''), w)
      else DoTx drv (\<lambda>db.
        bind_res (list_page parse_uuid show_uuid sID psize token
          (filter (\<lambda>s. prefix (projectSubscriptionPrefix project) (sName s) \<and> sDeletedAt s = None) (subscriptions db)))
        (\<lambda>(ss, next). Inr ((map (with_edges db) ss, next), [], db))) w)"

definition DeleteSubscription :: "driver \<Rightarrow> time \<Rightarrow> string \<Rightarrow> world \<Rightarrow> unit res \<times> world" where
  "DeleteSubscription drv now name w =
     (if \<not> isValidSubscriptionName name then (Inl bad_subscription_path, w)
      else map_prod (on_error (or_status (StatusError NotFound ''Subscription does not exist'')) \<circ> map_sum id (\<lambda>_. ())) id
        (DoTx drv (DeleteSubscription_Execute now name) w))"

definition ModifyPushConfig :: "driver \<Rightarrow> string \<Rightarrow> pbPushConfig option \<Rightarrow> world \<Rightarrow> unit res \<times> world" where
  "ModifyPushConfig drv name cfg w =
     (if \<not> isValidSubscriptionName name then (Inl bad_subscription_path, w)
      else case validatePushConfig cfg of
        Inl e \<Rightarrow> (Inl e, w)
      | Inr _ \<Rightarrow> map_prod (on_error AsStatusError) id (DoTx drv (\<lambda>db.
          bind_res (on_error (or_status subscription_not_found) (only (live_subs name db))) (\<lambda>s.
          bind_res (update_subscriptions (\<lambda>x. sID x = sID s) (applyPushConfig cfg) db) (\<lambda>db'.
            Inr ((), [NotifyModifySubscription (sID s) (sName s)], db')))) w))"

subsection \<open>Deliveries\<close>

text \<open>
  The retried transactions take the attempts that the loop makes; \<open>None\<close> means that those listed
  did not bring it to its end.
\<close>

definition listed :: "'a list option \<Rightarrow> 'a list" where
  "listed ids = (case ids of None \<Rightarrow> [] | Some is \<Rightarrow> is)"

definition ModifyAckDeadline :: "(string \<Rightarrow> err + uuid) \<Rightarrow> time \<Rightarrow> (driver \<times> (world \<Rightarrow> world)) list \<Rightarrow> string \<Rightarrow>
    string list option \<Rightarrow> int \<Rightarrow> world \<Rightarrow> (unit res \<times> world) option" where
  "ModifyAckDeadline parse_uuid now attempts sub ackIds seconds w =
     (if \<not> isValidSubscriptionName sub then Some (Inl bad_subscription_path, w)
      else case UUIDsFromStrings parse_uuid ackIds of
        Inl e \<Rightarrow> Some (Inl (AsStatusError e), w)
      | Inr ids \<Rightarrow> map_option (map_prod (on_error AsStatusError \<circ> map_sum id (\<lambda>_. ())) id)
          (DoCtxTxRetry retry_deadlocks (DelayDeliveries_Execute now (listed ids) (seconds * second)) attempts w))"

definition Acknowledge :: "(string \<Rightarrow> err + uuid) \<Rightarrow> time \<Rightarrow> (driver \<times> (world \<Rightarrow> world)) list \<Rightarrow> string \<Rightarrow>
    string list option \<Rightarrow> world \<Rightarrow> (unit res \<times> world) option" where
  "Acknowledge parse_uuid now attempts sub ackIds w =
     (if \<not> isValidSubscriptionName sub then Some (Inl bad_subscription_path, w)
      else case UUIDsFromStrings parse_uuid ackIds of
        Inl e \<Rightarrow> Some (Inl (StatusError InvalidArgument []), w)
      | Inr ids \<Rightarrow> map_option (map_prod (on_error AsStatusError \<circ> map_sum id (\<lambda>_. ())) id)
          (DoCtxTxRetry retry_deadlocks (AckDeliveries_Execute now (listed ids)) attempts w))"

record pbReceivedMessage =
  rmAckId :: string
  rmMessageId :: string
  rmPublishTime :: time
  rmData :: string
  rmAttributes :: attrs
  rmOrderingKey :: string
  rmDeliveryAttempt :: int

definition entDeliveryToGrpc :: "(uuid \<Rightarrow> string) \<Rightarrow> subscriptionMessageDelivery \<Rightarrow> pbReceivedMessage" where
  "entDeliveryToGrpc show_uuid m =
     \<lparr>rmAckId = show_uuid (smdID m), rmMessageId = show_uuid (smdMessageID m), rmPublishTime = smdPublishedAt m,
      rmData = smdPayload m, rmAttributes = smdAttributes m,
      rmOrderingKey = (case smdOrderKey m of None \<Rightarrow> [] | Some k \<Rightarrow> k),
      rmDeliveryAttempt = sint (word_of_int (smdNumAttempts m) :: 32 word)\<rparr>"

definition pull_params :: "string \<Rightarrow> int \<Rightarrow> bool \<Rightarrow> getSubscriptionMessagesParams" where
  "pull_params sub maxMessages returnImmediately =
     \<lparr>gmName = sub, gmID = None, gmMaxMessages = maxMessages, gmMaxBytes = 10 * 1024 * 1024,
      gmMaxBytesStrict = False, gmMaxWait = (if returnImmediately then 1 else 0)\<rparr>"

definition Pull :: "filter_parser \<Rightarrow> (uuid \<Rightarrow> string) \<Rightarrow> time attempt list \<Rightarrow> round list \<Rightarrow> string \<Rightarrow> int \<Rightarrow> bool \<Rightarrow> world \<Rightarrow>
    (pbReceivedMessage list res \<times> world) option" where
  "Pull parse show_uuid tries rds sub maxMessages returnImmediately w =
     (if \<not> isValidSubscriptionName sub then Some (Inl bad_subscription_path, w)
      else case NewGetSubscriptionMessages (pull_params sub maxMessages returnImmediately) of
        Inl e \<Rightarrow> Some (Inl e, w)
      | Inr p \<Rightarrow> map_option (map_prod (on_error (or_status subscription_not_found) \<circ>
            map_sum id (\<lambda>r. map (entDeliveryToGrpc show_uuid) (grDeliveries r))) id)
          (ExecuteClient parse p tries rds w))"

text \<open>The target of a seek; the zero value of a \<open>time.Time\<close> is the first instant of the year 1.\<close>

datatype seekTarget = SeekTime time | SeekSnapshot string | SeekNone

definition zero_time :: time where
  "zero_time = - 62135596800 * second"

definition SeekSubscription :: "time \<Rightarrow> (driver \<times> (world \<Rightarrow> world)) list \<Rightarrow> string \<Rightarrow> seekTarget \<Rightarrow> world \<Rightarrow>
    (unit res \<times> world) option" where
  "SeekSubscription now attempts sub target w =
     (if \<not> isValidSubscriptionName sub then Some (Inl bad_subscription_path, w)
      else case target of
        SeekTime t \<Rightarrow>
          (case NewSeekSubscriptionToTime None sub (if t = zero_time then None else Some t) of
             Inl e \<Rightarrow> Some (Inl e, w)
           | Inr (i, n, t') \<Rightarrow> map_option (map_prod (on_error (or_status subscription_not_found) \<circ> map_sum id (\<lambda>_. ())) id)
               (DoCtxTxRetry retry_deadlocks (SeekSubscriptionToTime_Execute now i n t') attempts w))
      | SeekSnapshot snap \<Rightarrow>
          (case NewSeekSubscriptionToSnapshot None sub None snap of
             Inl e \<Rightarrow> Some (Inl e, w)
           | Inr (i, n, si, sn) \<Rightarrow> map_option (map_prod (on_error
                 (or_status (StatusError NotFound ''Subscription or snapshot not found'')) \<circ> map_sum id (\<lambda>_. ())) id)
               (DoCtxTxRetry retry_deadlocks (SeekSubscriptionToSnapshot_Execute now i n si sn) attempts w))
      | SeekNone \<Rightarrow> Some (Inl (StatusError InvalidArgument ''Invalid type for SeekRequest.Target''), w))"

subsection \<open>Snapshots\<close>

record pbSnapshot =
  pnName :: string
  pnTopic :: string
  pnExpireTime :: time
  pnLabels :: attrs

definition entSnapshotToGrpc :: "snapshot \<Rightarrow> topic option \<Rightarrow> string \<Rightarrow> pbSnapshot" where
  "entSnapshotToGrpc s edgeTopic topicName =
     \<lparr>pnName = nName s, pnTopic = edge_name edgeTopic topicName, pnExpireTime = nExpiresAt s, pnLabels = nLabels s\<rparr>"

definition snapshot_with_topic :: "database \<Rightarrow> snapshot \<Rightarrow> pbSnapshot" where
  "snapshot_with_topic db s = entSnapshotToGrpc s (topic_row (nTopicID s) db) []"

definition bad_snapshot_path :: err where
  "bad_snapshot_path = StatusError InvalidArgument ''Unsupported project / snapshot path''"

definition snapshot_not_found :: err where
  "snapshot_not_found = StatusError NotFound ''Snapshot not found''"

definition GetSnapshot :: "driver \<Rightarrow> string \<Rightarrow> world \<Rightarrow> pbSnapshot res \<times> world" where
  "GetSnapshot drv name w =
     (if \<not> isValidSnapshotName name then (Inl bad_snapshot_path, w)
      else map_prod (on_error (or_status snapshot_not_found)) id (DoTx drv (\<lambda>db.
        bind_res (only (filter (\<lambda>s. nName s = name) (snapshots db))) (\<lambda>s. Inr (snapshot_with_topic db s, [], db))) w))"

definition ListSnapshots :: "(string \<Rightarrow> err + uuid) \<Rightarrow> (uuid \<Rightarrow> string) \<Rightarrow> driver \<Rightarrow> string \<Rightarrow> int \<Rightarrow> string \<Rightarrow>
    world \<Rightarrow> (pbSnapshot list \<times> string) res \<times> world" where
  "ListSnapshots parse_uuid show_uuid drv project psize token w =
     DoTx drv (\<lambda>db.
       bind_res (list_page parse_uuid show_uuid nID psize token
         (filter (\<lambda>s. prefix (projectSubscriptionPrefix project) (nName s)) (snapshots db)))
       (\<lambda>(ss, next). Inr ((map (snapshot_with_topic db) ss, next), [], db))) w"

definition CreateSnapshot :: "driver \<Rightarrow> uuid \<Rightarrow> time \<Rightarrow> string \<Rightarrow> string \<Rightarrow> attrs \<Rightarrow> world \<Rightarrow> pbSnapshot res \<times> world" where
  "CreateSnapshot drv i now name sub labels w =
     (if \<not> isValidSnapshotName name then (Inl bad_snapshot_path, w)
      else if \<not> isValidSubscriptionName sub then (Inl bad_subscription_path, w)
      else case NewCreateSnapshot \<lparr>snSubscriptionName = sub, snName = name, snLabels = labels\<rparr> of
        Inl e \<Rightarrow> (Inl e, w)
      | Inr p \<Rightarrow> map_prod (on_error (\<lambda>e.
            if isNotFound e then subscription_not_found
            else if errors_Is e ErrExists then StatusError AlreadyExists ''Subscription already exists''
            else if IsPostgreSQLErrorCode e SerializationFailure then StatusError Aborted []
            else AsStatusError e) \<circ> map_sum id (\<lambda>r. entSnapshotToGrpc (snrSnapshot r) None (snrTopicName r))) id
          (DoTx drv (CreateSnapshot_Execute i now p) w))"

definition UpdateSnapshot :: "world \<Rightarrow> pbSnapshot res \<times> world" where
  "UpdateSnapshot w = (Inl (StatusError Unimplemented ''method UpdateSnapshot not implemented''), w)"

text \<open>
  The deletion runs outside of a transaction wrapper, as a single statement; \<open>failure\<close> is the error
  of the driver, if any.
\<close>

definition DeleteSnapshot :: "err option \<Rightarrow> string \<Rightarrow> world \<Rightarrow> unit res \<times> world" where
  "DeleteSnapshot failure name w =
     (if \<not> isValidSnapshotName name then (Inl bad_snapshot_path, w)
      else case failure of
        Some e \<Rightarrow> (Inl (AsStatusError e), w)
      | None \<Rightarrow>
          if count_where (\<lambda>s. nName s = name) (snapshots (wDb w)) = 0 then (Inl snapshot_not_found, w)
          else (Inr (), w\<lparr>wDb := delete_snapshots (\<lambda>s. nName s = name) (wDb w)\<rparr>))"

subsection \<open>Requests of the streaming call\<close>

definition maxInt :: int where
  "maxInt = 2 ^ 63 - 1"

definition effectiveFlowControl :: "int \<Rightarrow> int \<Rightarrow> flowControl" where
  "effectiveFlowControl maxMessages maxBytes =
     \<lparr>fcMaxMessages = (if maxMessages > maxInt then maxInt else if maxMessages \<le> 0 then 1000 else maxMessages),
      fcMaxBytes = (if maxBytes > maxInt then maxInt else if maxBytes \<le> 0 then 10 * 1024 * 1024 else maxBytes)\<rparr>"

record pbStreamingPullRequest =
  srSubscription :: string
  srAckIds :: "string list"
  srModifyDeadlineSeconds :: "int list"
  srModifyDeadlineAckIds :: "string list"
  srMaxOutstandingMessages :: int
  srMaxOutstandingBytes :: int

text \<open>The seconds are 32 bit integers, which a float holds exactly.\<close>

definition adaptIn :: "(string \<Rightarrow> err + uuid) \<Rightarrow> bool \<Rightarrow> pbStreamingPullRequest \<Rightarrow> messageStreamRequest res" where
  "adaptIn parse_uuid initial m =
     bind_res (if srAckIds m \<noteq> [] then map_sum id listed (UUIDsFromStrings parse_uuid (Some (srAckIds m))) else Inr []) (\<lambda>ack.
     if length (srModifyDeadlineSeconds m) \<noteq> length (srModifyDeadlineAckIds m)
     then Inl (StatusError InvalidArgument ''Must have same len for ModifyDeadlineSeconds and ModifyDeadlineAckIds'')
     else bind_res (if srModifyDeadlineAckIds m \<noteq> []
         then map_sum id listed (UUIDsFromStrings parse_uuid (Some (srModifyDeadlineAckIds m))) else Inr []) (\<lambda>delay.
       Inr \<lparr>mrFlowControl = (if initial then Some (effectiveFlowControl (srMaxOutstandingMessages m) (srMaxOutstandingBytes m)) else None),
         mrAck = ack, mrNack = [], mrDelay = delay,
         mrDelaySeconds = (if srModifyDeadlineAckIds m \<noteq> []
           then fold (\<lambda>d acc. if acc < d then d else acc) (srModifyDeadlineSeconds m) 0 else 0)\<rparr>))"

subsection \<open>Listing\<close>

definition project_subscriptions :: "string \<Rightarrow> database \<Rightarrow> subscription list" where
  "project_subscriptions project db =
     filter (\<lambda>s. prefix (projectSubscriptionPrefix project) (sName s) \<and> sDeletedAt s = None) (subscriptions db)"

definition listed_snapshots :: "string \<Rightarrow> database \<Rightarrow> snapshot list" where
  "listed_snapshots project db = filter (\<lambda>s. prefix (projectSubscriptionPrefix project) (nName s)) (snapshots db)"

interpretation list_subscriptions: paged_listing ListSubscriptions "\<lambda>q _. prefix ''projects/'' q"
  project_subscriptions sID with_edges
proof unfold_locales
  fix parse_uuid :: "string \<Rightarrow> err + uuid" and show_uuid :: "uuid \<Rightarrow> string" and drv q psize token and w :: world
  assume q: "prefix ''projects/'' q" and drv: "drv_ok drv"
  have "ListSubscriptions parse_uuid show_uuid drv q psize token w = DoTx drv (\<lambda>db.
      bind_res (list_page parse_uuid show_uuid sID psize token (project_subscriptions q db))
        (\<lambda>(ss, next). Inr ((map (with_edges db) ss, next), [], db))) w"
    using q by (simp add: ListSubscriptions_def project_subscriptions_def)
  also have "\<dots> = (map_sum id (map_prod (map (with_edges (wDb w))) id)
      (list_page parse_uuid show_uuid sID psize token (project_subscriptions q (wDb w))), w)"
    by (rule DoTx_read[OF drv _ list_page_no_panic]) (auto simp: bind_res_def split: sum.splits)
  finally show "ListSubscriptions parse_uuid show_uuid drv q psize token w = \<dots>" .
next
  fix db q assume "wf_db db"
  then show "distinct (map sID (project_subscriptions q db))"
    unfolding project_subscriptions_def by (rule distinct_keys_filter[OF wf_db_distinct(2)])
qed

interpretation list_snapshots: paged_listing ListSnapshots "\<lambda>_ _. True" listed_snapshots nID snapshot_with_topic
proof unfold_locales
  fix parse_uuid :: "string \<Rightarrow> err + uuid" and show_uuid :: "uuid \<Rightarrow> string" and drv q psize token and w :: world
  assume drv: "drv_ok drv"
  have "ListSnapshots parse_uuid show_uuid drv q psize token w = DoTx drv (\<lambda>db.
      bind_res (list_page parse_uuid show_uuid nID psize token (listed_snapshots q db))
        (\<lambda>(ss, next). Inr ((map (snapshot_with_topic db) ss, next), [], db))) w"
    by (simp add: ListSnapshots_def listed_snapshots_def)
  also have "\<dots> = (map_sum id (map_prod (map (snapshot_with_topic (wDb w))) id)
      (list_page parse_uuid show_uuid nID psize token (listed_snapshots q (wDb w))), w)"
    by (rule DoTx_read[OF drv _ list_page_no_panic]) (auto simp: bind_res_def split: sum.splits)
  finally show "ListSnapshots parse_uuid show_uuid drv q psize token w = \<dots>" .
next
  fix db q assume "wf_db db"
  then show "distinct (map nID (listed_snapshots q db))"
    unfolding listed_snapshots_def by (intro distinct_keys_filter) (simp add: wf_db_def snapshots_wf_def)
qed

text \<open>
  Property C40. \<open>ListSnapshots\<close> never lists a snapshot: it looks for names with the prefix of a
  project's subscriptions, and no name that \<open>CreateSnapshot\<close> accepts has such a prefix. Whatever
  snapshots there are, following the pages of any project ends with the empty list.
\<close>

theorem ListSnapshots_empty:
  assumes "uuid_text parse_uuid show_uuid" and "wf_db (wDb w)" and "drv_ok drv" and "CHR ''/'' \<notin> set p"
    and "\<forall>s\<in>set (snapshots (wDb w)). isValidSnapshotName (nName s)"
  shows "follow (Suc n) (\<lambda>t. fst (ListSnapshots parse_uuid show_uuid drv (''projects/'' @ p) psize t w)) [] = Some []"
proof -
  have "\<not> prefix (projectSubscriptionPrefix (''projects/'' @ p)) (nName s)" if "s \<in> set (snapshots (wDb w))" for s
  proof
    assume "prefix (projectSubscriptionPrefix (''projects/'' @ p)) (nName s)"
    then obtain r where "nName s = ''projects'' @ CHR ''/'' # p @ CHR ''/'' # ''subscriptions'' @ CHR ''/'' # r"
      by (auto simp: prefix_def projectSubscriptionPrefix_def)
    then have "split_on CHR ''/'' (nName s) = ''projects'' # p # ''subscriptions'' # split_on CHR ''/'' r"
      using assms(4) by (simp add: split_on_append del: append_Cons)
    then have "split_on CHR ''/'' (nName s) ! 2 = ''subscriptions''" by simp
    with assms(5) that show False by (auto simp: isValidSnapshotName_def isValidName_def Let_def)
  qed
  then have "listed_snapshots (''projects/'' @ p) (wDb w) = []" by (simp add: listed_snapshots_def filter_empty_conv)
  then show ?thesis using list_snapshots.follow_complete[OF assms(1,2) _ assms(3), of "''projects/'' @ p" "Suc n" psize]
    by (simp del: follow.simps)
qed

definition sample_snapshot_world :: world where
  "sample_snapshot_world = \<lparr>wDb = sample_named_db\<lparr>snapshots := [\<lparr>nID = 3, nTopicID = 1, nName = ''projects/p/snapshots/s'',
     nCreatedAt = 0, nExpiresAt = 100, nLabels = Map.empty, nAckedMessagesBefore = 0, nAckedMessageIDs = []\<rparr>]\<rparr>,
     wNotify = init_notify\<rparr>"

theorem ListSnapshots_empty_witness:
  "snapshots (wDb sample_snapshot_world) \<noteq> [] \<and>
   follow 1 (\<lambda>t. fst (ListSnapshots unary_parse unary_show good_driver ''projects/p'' 10 t sample_snapshot_world)) [] = Some []"
proof -
  have wf: "wf_db (wDb sample_snapshot_world)"
    by (simp add: sample_snapshot_world_def sample_named_db_def empty_db_def wf_defs id_defs unique_live_def
        all_consistent_def live_consistent_def)
  have v: "\<forall>s\<in>set (snapshots (wDb sample_snapshot_world)). isValidSnapshotName (nName s)"
    by (simp add: sample_snapshot_world_def isValidSnapshotName_def isValidName_def)
  have p: "CHR ''/'' \<notin> set ''p''" by simp
  have "snapshots (wDb sample_snapshot_world) \<noteq> []" by (simp add: sample_snapshot_world_def)
  with ListSnapshots_empty[OF uuid_text_unary wf drv_ok_good p v, of 0 10] show ?thesis by simp
qed

subsection \<open>The life of a subscription\<close>

lemma GetSubscription_live:
  assumes "drv_ok drv" and "isValidSubscriptionName name" and "live_subs name (wDb w) = [s]"
  shows "GetSubscription drv name w = (Inr (with_edges (wDb w) s), w)"
  using assms by (simp add: GetSubscription_def DoTx_ok drv_ok_def on_error_def)

lemma topic_row_unique:
  assumes "wf_db db" and "t \<in> set (topics db)"
  shows "topic_row (tID t) db = Some t"
  unfolding topic_row_def using filter_key_eq[OF wf_db_distinct(1)[OF assms(1)] assms(2)] by simp

text \<open>
  What a subscription refers to, as the responses that have no edges name it: its topic and its
  dead-letter topic are live and have these names.
\<close>

definition names_edges :: "database \<Rightarrow> subscription \<Rightarrow> string \<Rightarrow> string \<Rightarrow> bool" where
  "names_edges db s topicName dlName \<longleftrightarrow>
     (\<exists>t. topic_row (sTopicID s) db = Some t \<and> tDeletedAt t = None \<and> tName t = topicName) \<and>
     (case sDeadLetterTopicID s of
        None \<Rightarrow> True
      | Some i \<Rightarrow> \<exists>t. topic_row i db = Some t \<and> tDeletedAt t = None \<and> tName t = dlName)"

lemma names_edges_response:
  "names_edges db s topicName dlName \<Longrightarrow> with_edges db s = entSubscriptionToGrpc s None None topicName dlName"
  by (auto simp: names_edges_def with_edges_def entSubscriptionToGrpc_def edge_name_def split: option.splits)

lemma findTopic_row:
  assumes "wf_db db" and "findTopic n db = Inr t"
  shows "topic_row (tID t) db = Some t \<and> tDeletedAt t = None \<and> tName t = n"
proof -
  have "live_topics n db = [t]" using assms(2) by (auto simp: findTopic_def split: sum.split_asm)
  then show ?thesis using topic_row_unique[OF assms(1)] live_topicsD by blast
qed

lemma CreateSubscription_names:
  assumes "wf_db db" and "CreateSubscription_Execute parse i now c p db = Inr (r, ns, db')"
  shows "live_subs (csName p) db' = [csrSub r] \<and> sName (csrSub r) = csName p \<and>
    names_edges db' (csrSub r) (csTopicName p) (csDeadLetterTopic p)"
proof -
  obtain t dl where live: "live_subs (csName p) db = []" and t: "findTopic (csTopicName p) db = Inr t"
    and dl: "(if csDeadLetterTopic p \<noteq> [] then bind_res (findTopic (csDeadLetterTopic p) db) (\<lambda>t. Inr (Some (tID t)))
      else Inr None) = Inr dl"
    and s: "csrSub r = new_subscription i (tID t) dl now c p"
    and ins: "insert_subscription (csrSub r) db = Inr db'"
    using assms(2) unfolding CreateSubscription_Execute_def Let_def
    by (auto elim!: bind_res_InrE split: if_split_asm sum.split_asm)
  have db': "subscriptions db' = subscriptions db @ [csrSub r]" "topics db' = topics db"
    using ins insert_subscription_iff[of "csrSub r" db db'] by (auto simp: s new_subscription_def)
  have row: "topic_row j db' = topic_row j db" for j by (simp add: topic_row_def db'(2))
  have "names_edges db' (csrSub r) (csTopicName p) (csDeadLetterTopic p)"
    using findTopic_row[OF assms(1) t] dl findTopic_row[OF assms(1), of "csDeadLetterTopic p"]
    by (auto simp: names_edges_def row s split: if_split_asm elim!: bind_res_InrE)
  then show ?thesis using live db'(1) by (simp add: live_subs_def s)
qed

lemma CreateSubscription_done:
  assumes "wf_db (wDb w)" and "drv_ok drv" and "CreateSubscription parse drv i now c req w = (Inr r, w')"
  obtains r0 :: createSubscriptionResults where "check_create req = Inr ()" and "NewCreateSubscription (create_params req) = Inr (create_params req)"
    and "isValidSubscriptionName (pbsName req)" and "live_subs (pbsName req) (wDb w') = [csrSub r0]"
    and "sName (csrSub r0) = pbsName req"
    and "r = entSubscriptionToGrpc (csrSub r0) None None (pbsTopic req) (csDeadLetterTopic (create_params req))"
    and "with_edges (wDb w') (csrSub r0) = r"
proof -
  let ?p = "create_params req"
  have p: "csName ?p = pbsName req" "csTopicName ?p = pbsTopic req" by (simp_all add: create_params_def)
  have ok: "check_create req = Inr ()" "NewCreateSubscription ?p = Inr ?p"
    using assms(3) by (auto simp: CreateSubscription_def NewCreateSubscription_def bind_res_def split: sum.split_asm if_split_asm)
  then have v: "isValidSubscriptionName (pbsName req)" by (auto simp: check_create_def split: if_split_asm)
  obtain r0 ns db' where ex: "CreateSubscription_Execute parse i now c ?p (wDb w) = Inr (r0, ns, db')"
    and r: "r = entSubscriptionToGrpc (csrSub r0) None None (pbsTopic req) (csDeadLetterTopic ?p)" and w': "wDb w' = db'"
    using assms(2,3) ok
    by (cases "CreateSubscription_Execute parse i now c ?p (wDb w)")
      (auto simp: CreateSubscription_def on_error_def DoTx_def run_commit_ok drv_ok_def p)
  note names = CreateSubscription_names[OF assms(1) ex]
  then have "with_edges (wDb w') (csrSub r0) = r" using names_edges_response w' r p by metis
  then show thesis using that[OF ok v _ _ r] names p w' by simp
qed

lemma GetSubscription_after_create:
  assumes "wf_db (wDb w)" and "drv_ok drv" and "drv_ok drv'"
    and "CreateSubscription parse drv i now c req w = (Inr r, w')"
  shows "GetSubscription drv' (pbsName req) w' = (Inr r, w')"
  using CreateSubscription_done[OF assms(1,2,4)] GetSubscription_live[OF assms(3)] by metis

text \<open>
  Property C24. What \<open>CreateSubscription\<close> answers is what \<open>GetSubscription\<close> reads afterwards, all
  fields included, although the one is built from the request and the other from the stored row
  with its topic and dead-letter topic; and creating it again is answered with \<open>AlreadyExists\<close> and
  changes nothing.
\<close>

theorem CreateSubscription_roundtrip:
  assumes "wf_db (wDb w)" and "drv_ok drv" and "drv_ok drv'"
    and "CreateSubscription parse drv i now c req w = (Inr r, w')"
  shows "pbsName r = pbsName req \<and> pbsTopic r = pbsTopic req \<and>
    GetSubscription drv' (pbsName req) w' = (Inr r, w') \<and>
    CreateSubscription parse drv' i' now' c' req w' = (Inl (StatusError AlreadyExists ''Subscription already exists''), w')"
proof -
  let ?p = "create_params req"
  have p: "csName ?p = pbsName req" by (simp add: create_params_def)
  obtain r0 :: createSubscriptionResults where r0: "check_create req = Inr ()" "NewCreateSubscription ?p = Inr ?p" "live_subs (pbsName req) (wDb w') = [csrSub r0]"
      "sName (csrSub r0) = pbsName req" "r = entSubscriptionToGrpc (csrSub r0) None None (pbsTopic req) (csDeadLetterTopic ?p)"
    using CreateSubscription_done[OF assms(1,2,4)] by metis
  have "CreateSubscription_Execute parse i' now' c' ?p (wDb w') = Inl ErrExists"
    using r0(3) p by (simp add: CreateSubscription_Execute_def)
  then have "CreateSubscription parse drv' i' now' c' req w' =
      (Inl (StatusError AlreadyExists ''Subscription already exists''), w')"
    using r0(1,2) assms(3) by (simp add: CreateSubscription_def DoTx_def drv_ok_def finish_error_def on_error_def isNotFound_def)
  with GetSubscription_after_create[OF assms] r0(4,5) show ?thesis by (simp add: entSubscriptionToGrpc_def edge_name_def)
qed

definition sample_pb_subscription :: pbSubscription where
  "sample_pb_subscription = \<lparr>pbsName = ''projects/p/subscriptions/s'', pbsTopic = ''projects/p/topics/a'',
     pbsPushConfig = None, pbsAckDeadlineSeconds = 0, pbsRetainAckedMessages = False, pbsMessageRetentionDuration = None,
     pbsLabels = Map.empty, pbsEnableMessageOrdering = True, pbsExpirationPolicy = None, pbsFilter = [],
     pbsDeadLetterPolicy = Some \<lparr>pdDeadLetterTopic = ''projects/p/topics/b'', pdMaxDeliveryAttempts = 0\<rparr>,
     pbsRetryPolicy = None, pbsDetached = False\<rparr>"

lemma sample_sub_valid: "isValidSubscriptionName ''projects/p/subscriptions/s''"
  by (simp add: isValidSubscriptionName_def isValidName_def)

lemma CreateSubscription_sample:
  "\<exists>r w'. CreateSubscription (\<lambda>_. None) good_driver 9 5 5 sample_pb_subscription sample_world = (Inr r, w')"
proof -
  let ?p = "create_params sample_pb_subscription" and ?db = "wDb sample_world"
  have p: "csName ?p = ''projects/p/subscriptions/s''" "csTopicName ?p = ''projects/p/topics/a''" "csFilter ?p = []"
    "csDeadLetterTopic ?p = ''projects/p/topics/b''"
    by (simp_all add: create_params_def sample_pb_subscription_def)
  have wf: "wf_db ?db" by (simp add: sample_world_def wf_sample_named_db)
  have t: "findTopic ''projects/p/topics/a'' ?db = Inr (topics sample_named_db ! 1)"
    "findTopic ''projects/p/topics/b'' ?db = Inr (topics sample_named_db ! 0)"
    by (simp_all add: findTopic_def live_topics_def sample_world_def sample_named_db_def)
  have none: "live_subs (csName ?p) ?db = []" "9 \<notin> sub_ids ?db"
    by (simp_all add: live_subs_def sub_ids_def sample_world_def sample_named_db_def empty_db_def)
  have ids: "tID (topics sample_named_db ! 1) \<in> topic_ids ?db" "opt_in (Some (tID (topics sample_named_db ! 0))) (topic_ids ?db)"
    by (simp_all add: topic_ids_def sample_world_def sample_named_db_def)
  have "\<exists>x. CreateSubscription_Execute (\<lambda>_. None) 9 5 5 ?p ?db = Inr x"
    using insert_new_subscription[OF wf _ none(2,1) ids, of 5 5] p none(1) t
    by (simp add: CreateSubscription_Execute_def Let_def)
  then obtain r ns db' where "CreateSubscription_Execute (\<lambda>_. None) 9 5 5 ?p ?db = Inr (r, ns, db')" by auto
  moreover have "check_create sample_pb_subscription = Inr ()"
    by (simp add: check_create_def sample_pb_subscription_def sample_sub_valid)
  moreover have "NewCreateSubscription ?p = Inr ?p"
    by (simp add: NewCreateSubscription_def create_params_def sample_pb_subscription_def or_default_def AsDuration_def
        GetTtl_def defaultSubscriptionTTL_def defaultSubscriptionMessageTTL_def defaultDeadLetterMaxAttempts_def)
  ultimately show ?thesis by (simp add: CreateSubscription_def good_driver_def DoTx_ok on_error_def)
qed

theorem CreateSubscription_roundtrip_witness:
  "\<exists>r w'. CreateSubscription (\<lambda>_. None) good_driver 9 5 5 sample_pb_subscription sample_world = (Inr r, w') \<and>
     GetSubscription good_driver (pbsName sample_pb_subscription) w' = (Inr r, w')"
proof -
  obtain r w' where c: "CreateSubscription (\<lambda>_. None) good_driver 9 5 5 sample_pb_subscription sample_world = (Inr r, w')"
    using CreateSubscription_sample by blast
  have "wf_db (wDb sample_world)" by (simp add: sample_world_def wf_sample_named_db)
  from CreateSubscription_roundtrip[OF this drv_ok_good drv_ok_good c] c show ?thesis by blast
qed

lemma wf_CreateSubscription_handler:
  assumes "wf_world w"
  shows "wf_world (snd (CreateSubscription parse drv i now c req w))"
  unfolding CreateSubscription_def
  by (auto split: sum.split simp: assms intro!: wf_DoTx[OF assms] wf_CreateSubscription[OF wf_worldD[OF assms]])

lemma wf_sample_world: "wf_world sample_world"
  by (simp add: wf_world_def sample_world_def wf_sample_named_db wf_init_notify)

subsection \<open>Updates\<close>

text \<open>A property of the value of a result, whatever branch of the code gave it.\<close>

definition res_all :: "('a \<Rightarrow> bool) \<Rightarrow> 'a res \<Rightarrow> bool" where
  "res_all P r \<longleftrightarrow> (\<forall>x. r = Inr x \<longrightarrow> P x)"

lemma res_all_intros:
  "res_all P (Inl e)"
  "P x \<Longrightarrow> res_all P (Inr x)"
  "res_all P a \<Longrightarrow> res_all P b \<Longrightarrow> res_all P (if c then a else b)"
  "(\<And>y. r = Inr y \<Longrightarrow> res_all P (f y)) \<Longrightarrow> res_all P (bind_res r f)"
  "res_all P a \<Longrightarrow> (\<And>y. res_all P (g y)) \<Longrightarrow> res_all P (case z of None \<Rightarrow> a | Some y \<Rightarrow> g y)"
  by (auto simp: res_all_def split: option.split)

text \<open>What every path of an update keeps, and that it keeps the names of the edges true.\<close>

definition good_update :: "database \<Rightarrow> string \<Rightarrow> (subscription \<Rightarrow> subscription) \<times> string \<Rightarrow> bool" where
  "good_update db dlName = (\<lambda>(g, dlName'). keeps_subscription g \<and> (\<forall>s. sTopicID (g s) = sTopicID s) \<and>
     (\<forall>s. sub_refs db s \<longrightarrow> sub_refs db (g s)) \<and>
     (\<forall>s t. names_edges db s t dlName \<longrightarrow> names_edges db (g s) t dlName'))"

lemma good_update_columns:
  assumes "\<And>s. sID (g s) = sID s \<and> sName (g s) = sName s \<and> sLive (g s) = sLive s \<and> sDeletedAt (g s) = sDeletedAt s \<and>
    sTopicID (g s) = sTopicID s \<and> sDeadLetterTopicID (g s) = sDeadLetterTopicID s"
  shows "good_update db dlName (g, dlName)"
  using assms by (simp add: good_update_def keeps_subscription_def names_edges_def sub_refs_def)

lemma good_update_dead_letter:
  assumes "case dl of None \<Rightarrow> True | Some t \<Rightarrow> topic_row (tID t) db = Some t \<and> tDeletedAt t = None \<and> tName t = dlName'"
  shows "good_update db dlName (\<lambda>s. s\<lparr>sDeadLetterTopicID := map_option tID dl, sMaxDeliveryAttempts := m\<rparr>, dlName')"
proof -
  have "opt_in (map_option tID dl) (topic_ids db)"
    using assms by (auto simp: opt_in_def topic_row_def topic_ids_def dest!: first_row_SomeD split: option.split_asm)
  with assms show ?thesis
    by (auto simp: good_update_def keeps_subscription_def names_edges_def sub_refs_def split: option.splits)
qed

lemma on_error_Inr: "on_error f r = Inr x \<longleftrightarrow> r = Inr x"
  by (auto simp: on_error_def split: sum.splits)

lemma sub_update_path_good:
  assumes "wf_db db"
  shows "res_all (good_update db dlName) (sub_update_path parse db req now p dlName)"
proof -
  have dl: "good_update db dlName (\<lambda>s. s\<lparr>sDeadLetterTopicID := Some (tID t), sMaxDeliveryAttempts := m\<rparr>, tName t)"
    if "on_error h (only (live_topics n db)) = Inr t" for h n t m
  proof -
    have "live_topics n db = [t]" using that by (auto simp: on_error_Inr)
    then show ?thesis
      using good_update_dead_letter[where dl = "Some t" and db = db and dlName' = "tName t" and m = m]
        topic_row_unique[OF assms] live_topicsD[of n db t] by simp
  qed
  have clear: "good_update db dlName (\<lambda>s. s\<lparr>sDeadLetterTopicID := None, sMaxDeliveryAttempts := None\<rparr>, [])"
    using good_update_dead_letter[where dl = None] by simp
  show ?thesis
    unfolding sub_update_path_def Let_def
    by (intro res_all_intros good_update_columns clear) (simp_all add: applyPushConfig_def dl)
qed

lemma sub_updates_good:
  assumes "wf_db db"
  shows "good_update db dl0 (f, dlName) \<Longrightarrow> res_all (good_update db dl0) (sub_updates parse db req nows k ps f dlName)"
proof (induction ps arbitrary: k f dlName)
  case Nil
  then show ?case by (simp add: res_all_def)
next
  case (Cons p ps)
  show ?case
    unfolding sub_updates.simps
  proof (rule res_all_intros(4))
    fix y assume y: "sub_update_path parse db req (nows k) p dlName = Inr y"
    obtain g dlName' where yy: "y = (g, dlName')" by (rule prod.exhaust)
    have "good_update db dlName (g, dlName')" using sub_update_path_good[OF assms] y yy by (auto simp: res_all_def)
    with Cons.prems have "good_update db dl0 (g \<circ> f, dlName')" by (simp add: good_update_def keeps_subscription_def)
    then show "res_all (good_update db dl0) (case y of (g, dlName') \<Rightarrow> sub_updates parse db req nows (Suc k) ps (g \<circ> f) dlName')"
      using Cons.IH yy by simp
  qed
qed

lemma live_subsD:
  assumes "live_subs name db = [s]"
  shows "s \<in> set (subscriptions db)" and "sName s = name" and "sDeletedAt s = None"
proof -
  have "s \<in> set (live_subs name db)" using assms by simp
  then show "s \<in> set (subscriptions db)" and "sName s = name" and "sDeletedAt s = None" by (simp_all add: live_subs_def)
qed

lemma update_subscriptions_live:
  assumes "wf_db db" and "live_subs name db = [s]" and "\<And>x. sub_refs db x \<Longrightarrow> sub_refs db (f x)"
  shows "update_subscriptions (\<lambda>x. sID x = sID s) f db =
    Inr (db\<lparr>subscriptions := update_where (\<lambda>x. sName x = name \<and> sDeletedAt x = None) f (subscriptions db)\<rparr>)"
proof -
  let ?ss = "update_where (\<lambda>x. sID x = sID s) f (subscriptions db)"
  have "sID x = sID s \<longleftrightarrow> sName x = name \<and> sDeletedAt x = None" if x: "x \<in> set (subscriptions db)" for x
  proof
    assume "sID x = sID s"
    then have "x = s"
      using x live_subsD(1)[OF assms(2)] wf_db_distinct(2)[OF assms(1)] by (simp add: distinct_map inj_on_def)
    then show "sName x = name \<and> sDeletedAt x = None" using live_subsD[OF assms(2)] by simp
  next
    assume "sName x = name \<and> sDeletedAt x = None"
    then have "x \<in> set (live_subs name db)" using x by (simp add: live_subs_def)
    then show "sID x = sID s" using assms(2) by simp
  qed
  then have eq: "?ss = update_where (\<lambda>x. sName x = name \<and> sDeletedAt x = None) f (subscriptions db)"
    by (simp add: update_where_def)
  have "list_all (sub_refs db) (subscriptions db)" using assms(1) by (simp add: wf_db_def)
  then have "list_all (sub_refs db) ?ss" using assms(3) by (auto simp: list_all_iff set_update_where)
  then show ?thesis by (simp add: update_subscriptions_def Let_def eq)
qed

lemma update_keeps_name:
  assumes "keeps_subscription f" and "live_subs name db = [s]"
  shows "live_subs name (db\<lparr>subscriptions := update_where (\<lambda>x. sName x = name \<and> sDeletedAt x = None) f (subscriptions db)\<rparr>) = [f s]"
  using assms filter_updated[of "\<lambda>x. sName x = name \<and> sDeletedAt x = None" f "subscriptions db"]
  by (simp add: live_subs_def keeps_subscription_def)

lemma topic_row_of_sub:
  assumes "wf_db db" and "live_subs name db = [s]"
  shows "\<exists>t. topic_row (sTopicID s) db = Some t"
proof -
  have "sTopicID s \<in> topic_ids db"
    using live_subsD(1)[OF assms(2)] assms(1) by (simp add: wf_db_def sub_refs_def list_all_iff)
  then obtain t where "t \<in> set (topics db)" "tID t = sTopicID s" by (auto simp: topic_ids_def)
  then show ?thesis using topic_row_unique[OF assms(1)] by metis
qed

text \<open>The transaction of an update, on a subscription that is there.\<close>

lemma UpdateSubscription_live:
  assumes "wf_db (wDb w)" and "drv_ok drv" and "isValidSubscriptionName (pbsName req)"
    and "live_subs (pbsName req) (wDb w) = [s]"
  obtains t dl0 where "topic_row (sTopicID s) (wDb w) = Some t"
    and "\<And>tn dl. names_edges (wDb w) s tn dl \<Longrightarrow> names_edges (wDb w) s (tName t) dl0"
    and "\<And>e. sub_updates parse (wDb w) req nows 0 paths id dl0 = Inl e \<Longrightarrow>
      snd (UpdateSubscription parse drv nows req paths w) = w \<and> isl (fst (UpdateSubscription parse drv nows req paths w))"
    and "\<And>f dl. sub_updates parse (wDb w) req nows 0 paths id dl0 = Inr (f, dl) \<Longrightarrow>
      good_update (wDb w) dl0 (f, dl) \<and> UpdateSubscription parse drv nows req paths w =
      (if paths = [] then (Inr None, w)
       else (Inr (Some (entSubscriptionToGrpc (f s) None None (tName t) dl)),
         w\<lparr>wDb := (wDb w)\<lparr>subscriptions := update_where (\<lambda>x. sName x = pbsName req \<and> sDeletedAt x = None) f (subscriptions (wDb w))\<rparr>,
           wNotify := run_notice (NotifyModifySubscription (sID s) (sName s)) (wNotify w)\<rparr>))"
proof -
  let ?db = "wDb w"
  let ?dl = "case Option.bind (sDeadLetterTopicID s) (\<lambda>i. topic_row i ?db) of None \<Rightarrow> [] | Some d \<Rightarrow> tName d"
  obtain t where t: "topic_row (sTopicID s) ?db = Some t" using topic_row_of_sub[OF assms(1,4)] by blast
  have good: "good_update ?db ?dl (f, dl)" if "sub_updates parse ?db req nows 0 paths id ?dl = Inr (f, dl)" for f dl
    using sub_updates_good[OF assms(1), of ?dl id ?dl] that by (simp add: res_all_def good_update_columns)
  show thesis
  proof (rule that[OF t])
    show "\<And>tn dl. names_edges ?db s tn dl \<Longrightarrow> names_edges ?db s (tName t) ?dl"
      by (auto simp: names_edges_def t split: option.splits)
  next
    fix e assume "sub_updates parse ?db req nows 0 paths id ?dl = Inl e"
    then show "snd (UpdateSubscription parse drv nows req paths w) = w \<and> isl (fst (UpdateSubscription parse drv nows req paths w))"
      using assms(2-4) t by (simp add: UpdateSubscription_def DoTx_def drv_ok_def on_error_def Let_def)
  next
    fix f dl assume u: "sub_updates parse ?db req nows 0 paths id ?dl = Inr (f, dl)"
    then have refs: "\<And>x. sub_refs ?db x \<Longrightarrow> sub_refs ?db (f x)" using good by (simp add: good_update_def)
    show "good_update ?db ?dl (f, dl) \<and> UpdateSubscription parse drv nows req paths w =
      (if paths = [] then (Inr None, w)
       else (Inr (Some (entSubscriptionToGrpc (f s) None None (tName t) dl)),
         w\<lparr>wDb := ?db\<lparr>subscriptions := update_where (\<lambda>x. sName x = pbsName req \<and> sDeletedAt x = None) f (subscriptions ?db)\<rparr>,
           wNotify := run_notice (NotifyModifySubscription (sID s) (sName s)) (wNotify w)\<rparr>))"
      using good[OF u] u assms(2-4) t update_subscriptions_live[OF assms(1,4) refs]
      by (simp add: UpdateSubscription_def DoTx_def run_commit_ok drv_ok_def on_error_def Let_def)
  qed
qed

lemma UpdateSubscription_saved:
  assumes "wf_db (wDb w)" and "drv_ok drv'" and "isValidSubscriptionName name" and "live_subs name (wDb w) = [s]"
    and edges: "\<And>tn dl. names_edges (wDb w) s tn dl \<Longrightarrow> names_edges (wDb w) s topicName dl0"
    and good: "good_update (wDb w) dl0 (f, dlName)"
    and w': "wDb w' = (wDb w)\<lparr>subscriptions := update_where (\<lambda>x. sName x = name \<and> sDeletedAt x = None) f (subscriptions (wDb w))\<rparr>"
  shows "wf_db (wDb w') \<and>
    (\<exists>s' g. live_subs name (wDb w) = [s'] \<and> keeps_subscription g \<and> sTopicID (g s') = sTopicID s' \<and>
      wDb w' = (wDb w)\<lparr>subscriptions := update_where (\<lambda>x. sName x = name \<and> sDeletedAt x = None) g (subscriptions (wDb w))\<rparr> \<and>
      (\<forall>tn dl. names_edges (wDb w) s' tn dl \<longrightarrow>
        GetSubscription drv' name w' = (Inr (entSubscriptionToGrpc (f s) None None topicName dlName), w')))"
proof (intro conjI exI allI impI)
  have refs: "\<And>x. sub_refs (wDb w) x \<Longrightarrow> sub_refs (wDb w) (f x)" and keeps: "keeps_subscription f"
    using good by (simp_all add: good_update_def)
  show "wf_db (wDb w')"
    using wf_update_subscriptions[OF assms(1) update_subscriptions_live[OF assms(1,4) refs] keeps] w' by simp
  show "keeps_subscription f" by (rule keeps)
  show "sTopicID (f s) = sTopicID s" using good by (simp add: good_update_def)
  fix tn dl assume "names_edges (wDb w) s tn dl"
  then have "names_edges (wDb w) (f s) topicName dlName" using edges good by (simp add: good_update_def)
  moreover have "topic_row i (wDb w') = topic_row i (wDb w)" for i by (simp add: topic_row_def w')
  ultimately have "names_edges (wDb w') (f s) topicName dlName"
    by (auto simp: names_edges_def split: option.splits)
  then show "GetSubscription drv' name w' = (Inr (entSubscriptionToGrpc (f s) None None topicName dlName), w')"
    using GetSubscription_live[OF assms(2,3), of w' "f s"] update_keeps_name[OF keeps assms(4)]
    by (simp add: w' names_edges_response)
qed (rule assms(4) w')+

text \<open>
  Property C25. \<open>UpdateSubscription\<close> changes only the named subscription, and never its identity. An
  error of any path leaves the world as it was, even when paths before it were accepted; without
  paths there is no response and no change; otherwise every other row is kept, the row keeps its
  identifier, name, topic and liveness, the database stays well formed, and, as long as the topics
  it refers to are live, the response is what \<open>GetSubscription\<close> then reads.
\<close>

theorem UpdateSubscription_correct:
  assumes "wf_db (wDb w)" and "drv_ok drv" and "drv_ok drv'"
  shows "case UpdateSubscription parse drv nows req paths w of
      (Inl e, w') \<Rightarrow> w' = w
    | (Inr None, w') \<Rightarrow> w' = w \<and> paths = []
    | (Inr (Some r), w') \<Rightarrow> paths \<noteq> [] \<and> wf_db (wDb w') \<and>
        (\<exists>s f. live_subs (pbsName req) (wDb w) = [s] \<and> keeps_subscription f \<and> sTopicID (f s) = sTopicID s \<and>
          wDb w' = (wDb w)\<lparr>subscriptions := update_where (\<lambda>x. sName x = pbsName req \<and> sDeletedAt x = None) f
            (subscriptions (wDb w))\<rparr> \<and>
          (\<forall>tn dl. names_edges (wDb w) s tn dl \<longrightarrow> GetSubscription drv' (pbsName req) w' = (Inr r, w')))"
proof (cases "isValidSubscriptionName (pbsName req)")
  case False
  then show ?thesis by (simp add: UpdateSubscription_def)
next
  case valid: True
  show ?thesis
  proof (cases "live_subs (pbsName req) (wDb w)")
    case Nil
    then show ?thesis using assms(2) valid by (simp add: UpdateSubscription_def DoTx_def drv_ok_def on_error_def)
  next
    case (Cons s ss)
    with live_subs_le_1[OF assms(1), of "pbsName req"] have live: "live_subs (pbsName req) (wDb w) = [s]" by simp
    show ?thesis
    proof (rule UpdateSubscription_live[OF assms(1,2) valid live, where parse = parse and nows = nows and paths = paths])
      fix t dl0
      assume t: "topic_row (sTopicID s) (wDb w) = Some t"
      and edges: "\<And>tn dl. names_edges (wDb w) s tn dl \<Longrightarrow> names_edges (wDb w) s (tName t) dl0"
      and err: "\<And>e. sub_updates parse (wDb w) req nows 0 paths id dl0 = Inl e \<Longrightarrow>
        snd (UpdateSubscription parse drv nows req paths w) = w \<and> isl (fst (UpdateSubscription parse drv nows req paths w))"
      and ok: "\<And>f dl. sub_updates parse (wDb w) req nows 0 paths id dl0 = Inr (f, dl) \<Longrightarrow>
        good_update (wDb w) dl0 (f, dl) \<and> UpdateSubscription parse drv nows req paths w =
        (if paths = [] then (Inr None, w)
         else (Inr (Some (entSubscriptionToGrpc (f s) None None (tName t) dl)),
           w\<lparr>wDb := (wDb w)\<lparr>subscriptions := update_where (\<lambda>x. sName x = pbsName req \<and> sDeletedAt x = None) f (subscriptions (wDb w))\<rparr>,
             wNotify := run_notice (NotifyModifySubscription (sID s) (sName s)) (wNotify w)\<rparr>))"
    show ?thesis
    proof (cases "sub_updates parse (wDb w) req nows 0 paths id dl0")
      case (Inl e)
      then show ?thesis using err[OF Inl] by (cases "UpdateSubscription parse drv nows req paths w") (auto split: sum.split)
    next
      case (Inr x)
      obtain f dl where x: "x = (f, dl)" by (rule prod.exhaust)
      note ok' = ok[OF Inr[unfolded x]]
      show ?thesis
      proof (cases "paths = []")
        case True
        then show ?thesis using ok' by simp
      next
        case False
        let ?w = "w\<lparr>wDb := (wDb w)\<lparr>subscriptions := update_where (\<lambda>x. sName x = pbsName req \<and> sDeletedAt x = None) f (subscriptions (wDb w))\<rparr>,
          wNotify := run_notice (NotifyModifySubscription (sID s) (sName s)) (wNotify w)\<rparr>"
        have upd: "UpdateSubscription parse drv nows req paths w = (Inr (Some (entSubscriptionToGrpc (f s) None None (tName t) dl)), ?w)"
          using ok' False by simp
        show ?thesis
          unfolding upd prod.case sum.case option.case
          by (rule conjI[OF False], rule UpdateSubscription_saved[OF assms(1,3) valid live edges conjunct1[OF ok']]) simp_all
      qed
    qed
    qed
  qed
qed

definition sample_updated :: pbSubscription where
  "sample_updated = sample_pb_subscription\<lparr>pbsEnableMessageOrdering := False\<rparr>"

theorem UpdateSubscription_correct_witness:
  "\<exists>r0 w0. CreateSubscription (\<lambda>_. None) good_driver 9 5 5 sample_pb_subscription sample_world = (Inr r0, w0) \<and>
     (case UpdateSubscription (\<lambda>_. None) good_driver (\<lambda>_. 6) sample_updated [''enable_message_ordering'', ''name''] w0 of
        (Inl e, w') \<Rightarrow> w' = w0 | (Inr r, w') \<Rightarrow> False)"
proof -
  obtain r0 w0 where c: "CreateSubscription (\<lambda>_. None) good_driver 9 5 5 sample_pb_subscription sample_world = (Inr r0, w0)"
    using CreateSubscription_sample by blast
  let ?paths = "[''enable_message_ordering'', ''name'']"
  let ?u = "UpdateSubscription (\<lambda>_. None) good_driver (\<lambda>_. 6) sample_updated ?paths w0"
  have wf: "wf_db (wDb w0)"
    using wf_CreateSubscription_handler[OF wf_sample_world, of "\<lambda>_. None" good_driver 9 5 5 sample_pb_subscription] c
    by (simp add: wf_worldD)
  have "isl (fst ?u)"
    by (auto simp: UpdateSubscription_def DoTx_def good_driver_def bind_res_def sub_update_path_def Let_def
        split: sum.splits option.splits)
  then show ?thesis
    using UpdateSubscription_correct[OF wf drv_ok_good drv_ok_good, where parse = "\<lambda>_. None" and nows = "\<lambda>_. 6" and
        req = sample_updated and paths = ?paths] c by (cases ?u) (auto split: sum.splits)
qed

text \<open>
  Property C39. An update of the push configuration that gives none, which the interface defines as
  switching to pulling, does not return an error: the handler dereferences a nil pointer. Nothing
  is changed, but the call ends in a panic instead of clearing the endpoint.
\<close>

theorem UpdateSubscription_push_panics:
  assumes "wf_db (wDb w)" and "drv_ok drv" and "isValidSubscriptionName (pbsName req)"
    and "live_subs (pbsName req) (wDb w) \<noteq> []" and "pbsPushConfig req = None"
  shows "UpdateSubscription parse drv nows req [''push_config''] w = (Inl nil_deref, w) \<and> is_panic nil_deref"
proof -
  obtain s where live: "live_subs (pbsName req) (wDb w) = [s]"
    using live_subs_le_1[OF assms(1), of "pbsName req"] assms(4) by (cases "live_subs (pbsName req) (wDb w)") auto
  obtain t where "topic_row (sTopicID s) (wDb w) = Some t"
    using topic_row_of_sub[OF assms(1) live] by blast
  then show ?thesis
    using assms(2,3,5) live
    by (simp add: UpdateSubscription_def DoTx_def drv_ok_def on_error_def sub_update_path_def validatePushConfig_def
        nil_deref_def Let_def)
qed

theorem UpdateSubscription_push_panics_witness:
  "\<exists>r0 w0. CreateSubscription (\<lambda>_. None) good_driver 9 5 5 sample_pb_subscription sample_world = (Inr r0, w0) \<and>
     UpdateSubscription (\<lambda>_. None) good_driver (\<lambda>_. 6) sample_pb_subscription [''push_config''] w0 = (Inl nil_deref, w0)"
proof -
  obtain r0 w0 where c: "CreateSubscription (\<lambda>_. None) good_driver 9 5 5 sample_pb_subscription sample_world = (Inr r0, w0)"
    using CreateSubscription_sample by blast
  have wf: "wf_db (wDb w0)"
    using wf_CreateSubscription_handler[OF wf_sample_world, of "\<lambda>_. None" good_driver 9 5 5 sample_pb_subscription] c
    by (simp add: wf_worldD)
  have v: "isValidSubscriptionName (pbsName sample_pb_subscription)" and n: "pbsPushConfig sample_pb_subscription = None"
    by (simp_all add: sample_pb_subscription_def sample_sub_valid)
  have live: "live_subs (pbsName sample_pb_subscription) (wDb w0) \<noteq> []"
  proof
    assume "live_subs (pbsName sample_pb_subscription) (wDb w0) = []"
    then have "GetSubscription good_driver (pbsName sample_pb_subscription) w0 \<noteq> (Inr r0, w0)"
      using v by (simp add: GetSubscription_def DoTx_def good_driver_def on_error_def)
    moreover have "wf_db (wDb sample_world)" using wf_sample_world by (rule wf_worldD)
    ultimately show False using GetSubscription_after_create[OF _ drv_ok_good drv_ok_good c] by blast
  qed
  from UpdateSubscription_push_panics[OF wf drv_ok_good v live n, of "\<lambda>_. None" "\<lambda>_. 6"] c show ?thesis by blast
qed

subsection \<open>Acknowledging what was pulled\<close>

text \<open>An attempt that PostgreSQL ended because of a deadlock, with nothing applied.\<close>

definition deadlocked :: "driver \<Rightarrow> bool" where
  "deadlocked drv \<longleftrightarrow> drvBegin drv = None \<and> drvCommit drv = Some (PgError DeadlockDetected) \<and> \<not> drvCommitApplied drv"

lemma DoCtxTxRetry_deadlocks:
  assumes "\<And>db. \<exists>x. inner db = Inr x"
  shows "\<forall>a\<in>set fails. deadlocked (fst a) \<Longrightarrow>
    DoCtxTxRetry retry_deadlocks inner (fails @ rest) w = DoCtxTxRetry retry_deadlocks inner rest (fold snd fails w)"
proof (induction fails arbitrary: w)
  case (Cons a fails)
  obtain drv others where a: "a = (drv, others)" by (cases a)
  obtain r ns db' where "inner (wDb (others w)) = Inr (r, ns, db')" using assms[of "wDb (others w)"] by auto
  then have "DoTx drv inner (others w) = (Inl (PgError DeadlockDetected), others w)"
    using Cons.prems a by (simp add: DoTx_def deadlocked_def run_commit_failed)
  moreover have "retry_deadlocks (PgError DeadlockDetected)" by (simp add: retry_deadlocks_def RetryOnErrorCode_def)
  ultimately show ?case using Cons a by simp
qed simp

lemma parse_all_show:
  assumes "uuid_text parse_uuid show_uuid"
  shows "UUIDsFromStrings parse_uuid (Some (map show_uuid is)) = Inr (Some is)"
proof -
  have "parse_all parse_uuid (map show_uuid is) = Inr is"
    using assms by (induction "is") (simp_all add: uuid_text_def)
  then show ?thesis by (simp add: UUIDsFromStrings_def)
qed

text \<open>
  Property C11. Acknowledging what a pull handed out, under the identifiers that it was handed out
  with, succeeds however often PostgreSQL breaks the transaction off because of a deadlock: the
  attempt after the last failed one takes exactly those deliveries out of the backlogs, as they
  are when it runs.
\<close>

theorem Pull_then_Acknowledge:
  assumes "uuid_text parse_uuid show_uuid" and "isValidSubscriptionName sub"
    and "Pull parse show_uuid tries rds sub n imm w = Some (Inr msgs, w1)"
    and "\<forall>a\<in>set fails. deadlocked (fst a)" and "drv_ok drv'"
  shows "\<exists>ids w2. map rmAckId msgs = map show_uuid ids \<and>
    Acknowledge parse_uuid now' (fails @ [(drv', others)]) sub (Some (map rmAckId msgs)) w1 = Some (Inr (), w2) \<and>
    backlog (wDb w2) = dequeue ids (backlog (wDb (others (fold snd fails w1))))"
proof -
  obtain x :: "getSubscriptionMessagesResults res" where x: "map_sum id (\<lambda>r. map (entDeliveryToGrpc show_uuid) (grDeliveries r)) x = Inr msgs"
    using assms(2,3) by (auto simp: Pull_def on_error_Inr split: sum.split_asm)
  then obtain r :: getSubscriptionMessagesResults where "msgs = map (entDeliveryToGrpc show_uuid) (grDeliveries r)" by (cases x) auto
  then have ids: "map rmAckId msgs = map show_uuid (map smdID (grDeliveries r))"
    by (simp add: entDeliveryToGrpc_def)
  let ?ids = "map smdID (grDeliveries r)" and ?w = "others (fold snd fails w1)"
  have total: "\<exists>x. AckDeliveries_Execute now' is db = Inr x" for "is" db by (simp add: AckDeliveries_Execute_def Let_def)
  obtain r2 ns db2 where ack: "AckDeliveries_Execute now' ?ids (wDb ?w) = Inr (r2, ns, db2)"
    using total[of ?ids "wDb ?w"] by auto
  have "DoTx drv' (AckDeliveries_Execute now' ?ids) ?w = (Inr r2, ?w\<lparr>wDb := db2, wNotify := fold run_notice (rev ns) (wNotify ?w)\<rparr>)"
    using assms(5) ack by (intro DoTx_ok) (simp_all add: drv_ok_def)
  then have "Acknowledge parse_uuid now' (fails @ [(drv', others)]) sub (Some (map rmAckId msgs)) w1 =
      Some (Inr (), ?w\<lparr>wDb := db2, wNotify := fold run_notice (rev ns) (wNotify ?w)\<rparr>)"
    unfolding ids Acknowledge_def parse_all_show[OF assms(1)]
    using assms(2) DoCtxTxRetry_deadlocks[where inner = "AckDeliveries_Execute now' ?ids" and rest = "[(drv', others)]" and w = w1, OF total assms(4)]
    by (simp add: listed_def on_error_def)
  with ids backlog_ack[OF ack] show ?thesis by (intro exI[of _ ?ids] exI conjI) auto
qed

definition sample_pull_world :: world where
  "sample_pull_world = \<lparr>wDb = empty_db\<lparr>topics := [sample_topic],
     subscriptions := [sample_sub\<lparr>sName := ''projects/p/subscriptions/s'', sDeadLetterTopicID := None\<rparr>],
     messages := [sample_msg1], deliveries := [sample_del1]\<rparr>, wNotify = init_notify\<rparr>"

definition sample_rounds :: "round list" where
  "sample_rounds = [\<lparr>rdTries = [(sample_pass, good_driver, id)], rdWakeup = FindTimeout, rdNewID = (\<lambda>k. 33 + of_nat k),
     rdFinal = [(60, good_driver, id)]\<rparr>]"

lemma Pull_sample:
  "\<exists>m w1. Pull (\<lambda>_. None) unary_show [(50, good_driver, id)] sample_rounds ''projects/p/subscriptions/s'' 10 True sample_pull_world =
     Some (Inr [m], w1)"
proof -
  let ?p = "pull_params ''projects/p/subscriptions/s'' 10 True"
  let ?s = "sample_sub\<lparr>sName := ''projects/p/subscriptions/s'', sDeadLetterTopicID := None, sExpiresAt := 50 + 10 * hour\<rparr>"
  have start: "\<exists>db. get_start 50 ?p (wDb sample_pull_world) = Inr (?p\<lparr>gmID := Some 11\<rparr>, [], db) \<and>
      db = (wDb sample_pull_world)\<lparr>subscriptions := [?s]\<rparr>"
    by (simp add: get_start_def verifySub_def subMatch_def refresh_expiry_def update_subscriptions_def Let_def sub_refs_def
        topic_ids_def pull_params_def sample_pull_world_def sample_sub_def sample_topic_def empty_db_def)
  have pass: "\<exists>db. get_pass (\<lambda>_. None) sample_pass (?p\<lparr>gmID := Some 11\<rparr>) ((wDb sample_pull_world)\<lparr>subscriptions := [?s]\<rparr>) =
      Inr ((?s, Got \<lparr>grDeliveries = [hand_out ?s 50 sample_del1 sample_msg1], grNumDeadLettered = 0\<rparr>), [], db)"
    by (simp add: get_pass_def verifySub_def subMatch_def queryAndLockDeliveriesOnce_def buildDeliveryQuery_def
        predecessor_done_def applyResults_def refresh_expiry_def update_subscriptions_def Let_def sub_refs_def
        topic_ids_def pull_params_def sample_pull_world_def sample_sub_def sample_topic_def empty_db_def sample_pass_def
        sample_del1_def sample_msg1_def HasFullDeadLetterConfig_def update_one_delivery_def update_deliveries_def)
  show ?thesis
    using start pass sample_sub_valid
    by (auto simp: Pull_def NewGetSubscriptionMessages_def pull_params_def ExecuteClient_def sample_rounds_def
        good_driver_def DoTx_ok on_error_def renew_awaiter_def pass_results_def Let_def split: prod.split)
qed

theorem Pull_then_Acknowledge_witness:
  "\<exists>m w1 i w2. Pull (\<lambda>_. None) unary_show [(50, good_driver, id)] sample_rounds ''projects/p/subscriptions/s'' 10 True sample_pull_world =
       Some (Inr [m], w1) \<and>
     Acknowledge unary_parse 60 ([(good_driver\<lparr>drvCommit := Some (PgError DeadlockDetected), drvCommitApplied := False\<rparr>, id)] @
       [(good_driver, id)]) ''projects/p/subscriptions/s'' (Some [rmAckId m]) w1 = Some (Inr (), w2) \<and>
     backlog (wDb w2) = dequeue [i] (backlog (wDb w1))"
proof -
  obtain m w1 where p: "Pull (\<lambda>_. None) unary_show [(50, good_driver, id)] sample_rounds ''projects/p/subscriptions/s'' 10 True
      sample_pull_world = Some (Inr [m], w1)"
    using Pull_sample by blast
  let ?fails = "[(good_driver\<lparr>drvCommit := Some (PgError DeadlockDetected), drvCommitApplied := False\<rparr>, id :: world \<Rightarrow> world)]"
  have f: "\<forall>a\<in>set ?fails. deadlocked (fst a)" by (simp add: deadlocked_def good_driver_def)
  obtain ids w2 where a: "map rmAckId [m] = map unary_show ids"
      "Acknowledge unary_parse 60 (?fails @ [(good_driver, id)]) ''projects/p/subscriptions/s'' (Some (map rmAckId [m])) w1 = Some (Inr (), w2)"
      "backlog (wDb w2) = dequeue ids (backlog (wDb (id (fold snd ?fails w1))))"
    using Pull_then_Acknowledge[OF uuid_text_unary sample_sub_valid p f drv_ok_good, of 60 id] by blast
  then obtain i where "ids = [i]" by (cases ids) auto
  with a p show ?thesis by auto
qed

end
