(* ===== verification/StreamingPull.thy ===== *)
theory StreamingPull
  imports GrpcSubscriber
begin

text \<open>
  The streaming call of the subscriber service, \<open>StreamingPull\<close> in \<open>services/grpc-subscriber.go\<close>: the
  handler up to the start of the streamer, the status it ends with, and the wrapper that makes a
  gRPC stream a connection of the streamer. The messages that the client sends are given by the
  environment. The goroutine that the wrapper starts for every receive only moves one message from
  the stream to the reader.
\<close>

subsection \<open>The handler\<close>

definition WrapError :: "err \<Rightarrow> string \<Rightarrow> err" where
  "WrapError e format = (case e of StatusError c m \<Rightarrow> StatusError c (format @ '': '' @ m) | _ \<Rightarrow> During format e e)"

text \<open>The subscription to stream from, or the error of the call; \<open>initial\<close> is the first message, or the error of receiving it.\<close>

definition StreamingPull_start :: "driver \<Rightarrow> pbStreamingPullRequest res \<Rightarrow> world \<Rightarrow> subscription res \<times> world" where
  "StreamingPull_start drv initial w =
     (case initial of
        Inl e \<Rightarrow> (Inl (WrapError e ''Error receiving StreamingPull message''), w)
      | Inr m \<Rightarrow>
          if \<not> isValidSubscriptionName (srSubscription m) then (Inl bad_subscription_path, w)
          else map_prod (on_error (or_status subscription_not_found)) id
            (DoTx drv (\<lambda>db. bind_res (only (live_subs (srSubscription m) db)) (\<lambda>s. Inr (s, [], db))) w))"

definition FromContextError :: "err \<Rightarrow> int" where
  "FromContextError e =
     (if errors_Is e ContextDeadlineExceeded then DeadlineExceeded else if errors_Is e ContextCanceled then Canceled else Unknown)"

text \<open>The code of the call when the streamer has ended.\<close>

definition StreamingPull_end :: "err option \<Rightarrow> int option" where
  "StreamingPull_end result =
     (case result of
        None \<Rightarrow> None
      | Some e \<Rightarrow>
          (let code = (case status_of e of Some c \<Rightarrow> c | None \<Rightarrow> FromContextError e) in
           if code = Canceled \<or> code = DeadlineExceeded then Some code
           else if isNotFound e then Some NotFound else Some code))"

subsection \<open>The connection\<close>

record streamWrapper =
  swInitial :: "pbStreamingPullRequest option"
  swSent :: "pbReceivedMessage list list"

definition wrapper_init :: "pbStreamingPullRequest \<Rightarrow> streamWrapper" where
  "wrapper_init m = \<lparr>swInitial = Some m, swSent = []\<rparr>"

text \<open>\<open>next\<close> is what the stream delivers, looked at only when the first message has been used.\<close>

definition streamWrapper_Receive :: "(string \<Rightarrow> err + uuid) \<Rightarrow> pbStreamingPullRequest res \<Rightarrow> streamWrapper \<Rightarrow>
    messageStreamRequest res \<times> streamWrapper" where
  "streamWrapper_Receive parse_uuid nextItem c =
     (case swInitial c of
        Some m \<Rightarrow> (adaptIn parse_uuid True m, c\<lparr>swInitial := None\<rparr>)
      | None \<Rightarrow> (bind_res nextItem (adaptIn parse_uuid False), c))"

definition SendBatch :: "(uuid \<Rightarrow> string) \<Rightarrow> streamWrapper \<Rightarrow> subscriptionMessageDelivery list \<Rightarrow> streamWrapper" where
  "SendBatch show_uuid c ds = c\<lparr>swSent := swSent c @ [map (entDeliveryToGrpc show_uuid) ds]\<rparr>"

definition wrapper_receives :: "(string \<Rightarrow> err + uuid) \<Rightarrow> streamWrapper \<Rightarrow> messageStreamRequest \<Rightarrow> streamWrapper \<Rightarrow> bool" where
  "wrapper_receives parse_uuid c r c' \<longleftrightarrow> (\<exists>nextItem. streamWrapper_Receive parse_uuid nextItem c = (Inr r, c'))"

abbreviation pull_step :: "filter_parser \<Rightarrow> (string \<Rightarrow> err + uuid) \<Rightarrow> (uuid \<Rightarrow> string) \<Rightarrow> subscription \<Rightarrow>
    streamWrapper \<times> streamer \<Rightarrow> streamWrapper \<times> streamer \<Rightarrow> bool" where
  "pull_step parse parse_uuid show_uuid sub \<equiv>
     conn_step parse (sID sub) (sName sub) (wrapper_receives parse_uuid) (SendBatch show_uuid) (\<lambda>_ _ _. False)"

definition wrapper_limits :: "int \<Rightarrow> int \<Rightarrow> streamWrapper \<Rightarrow> bool" where
  "wrapper_limits N B c \<longleftrightarrow> (case swInitial c of
     None \<Rightarrow> True | Some m \<Rightarrow> fc_within N B (effectiveFlowControl (srMaxOutstandingMessages m) (srMaxOutstandingBytes m)))"

lemma adaptIn_flow:
  "adaptIn parse_uuid initial m = Inr r \<Longrightarrow> mrFlowControl r =
     (if initial then Some (effectiveFlowControl (srMaxOutstandingMessages m) (srMaxOutstandingBytes m)) else None)"
  by (auto simp: adaptIn_def elim!: bind_res_InrE split: if_split_asm)

interpretation grpc_stream: stream_connection "wrapper_receives parse_uuid" "SendBatch show_uuid" "\<lambda>_ _ _. False" wrapper_limits
proof unfold_locales
  fix N B c r c'
  assume "wrapper_limits N B c" "wrapper_receives parse_uuid c r c'"
  then show "wrapper_limits N B c' \<and> request_within N B r"
    by (auto simp: wrapper_limits_def wrapper_receives_def streamWrapper_Receive_def request_within_def adaptIn_flow
        elim!: bind_res_InrE split: option.split_asm)
qed (auto simp: wrapper_limits_def SendBatch_def)

lemma effectiveFlowControl_pos:
  "1 \<le> fcMaxMessages (effectiveFlowControl n b) \<and> 1 \<le> fcMaxBytes (effectiveFlowControl n b)"
  by (simp add: effectiveFlowControl_def maxInt_def)

lemma pull_step_sent:
  assumes "(pull_step parse parse_uuid show_uuid sub)\<^sup>*\<^sup>* (wrapper_init m, stream_init True True w) x"
  shows "concat (swSent (fst x)) = map (entDeliveryToGrpc show_uuid) (msSent (snd x))"
  using assms
proof (induction rule: rtranclp_induct)
  case base
  then show ?case by (simp add: wrapper_init_def stream_init_def)
next
  case (step x y)
  from step(2) show ?case
  proof (cases rule: conn_step.cases)
    case (streams s s' ds c)
    then show ?thesis using step(3) by (auto simp: SendBatch_def)
  next
    case (reads s c r c')
    then have "swSent c' = swSent c"
      by (auto simp: wrapper_receives_def streamWrapper_Receive_def split: option.split_asm)
    then show ?thesis using step(3) reads by simp
  qed simp
qed

definition sample_initial :: pbStreamingPullRequest where
  "sample_initial = \<lparr>srSubscription = ''s'', srAckIds = [], srModifyDeadlineSeconds = [], srModifyDeadlineAckIds = [],
     srMaxOutstandingMessages = 0, srMaxOutstandingBytes = 0\<rparr>"

text \<open>
  Property C7. A client of the streaming call never holds more messages or bytes than the limits of
  its first message allow, with the defaults for limits that are not positive, except for a single
  message that is larger than the limit; later messages cannot change the limits. What a client holds
  is read off the history: the distinct deliveries taken for it, less those that it acknowledged or
  refused on the stream since, and those that the refresher found completed, expired or gone. What the
  stream carried is, in order, a first part of what was taken, so that everything the client was
  sent is held or was dropped in one of these ways.
\<close>

theorem StreamingPull_limits:
  assumes "(pull_step parse parse_uuid show_uuid sub)\<^sup>*\<^sup>* (wrapper_init m, stream_init True True w) (c, s)"
    and "fc = effectiveFlowControl (srMaxOutstandingMessages m) (srMaxOutstandingBytes m)"
  shows "int (card (dom (held (msLog s)))) \<le> fcMaxMessages fc \<and>
    (int (held_bytes (msLog s)) \<le> fcMaxBytes fc \<or> card (dom (held (msLog s))) = 1) \<and>
    concat (swSent c) = map (entDeliveryToGrpc show_uuid) (take (length (msSent s)) (taken (msLog s))) \<and>
    smdID ` set (msSent s) \<subseteq> dom (held (msLog s)) \<union> dropped_ids (msLog s)"
proof -
  have limits: "wrapper_limits (fcMaxMessages fc) (fcMaxBytes fc) (wrapper_init m)"
    by (simp add: wrapper_limits_def wrapper_init_def fc_within_def assms(2))
  have "1 \<le> fcMaxMessages fc" "1 \<le> fcMaxBytes fc" using effectiveFlowControl_pos by (simp_all add: assms(2))
  from grpc_stream.outstanding_within[OF assms(1) limits this]
  have flow: "flow_inv (fcMaxMessages fc) (fcMaxBytes fc) s" and hist: "log_inv s" by simp_all
  have "take (length (msSent s)) (taken (msLog s)) = msSent s"
    using hist by (auto simp: log_inv_def intro: accounted_take)
  with held_within[OF hist flow] pull_step_sent[OF assms(1)] sent_held[OF hist] show ?thesis by simp
qed

theorem StreamingPull_limits_witness:
  "\<exists>c s d. (pull_step (\<lambda>_. None) unary_parse unary_show sample_sub)\<^sup>*\<^sup>* (wrapper_init sample_initial, stream_init True True sample_stream_world) (c, s) \<and>
    msSent s = [d] \<and> dom (held (msLog s)) = {31} \<and> int (card (dom (held (msLog s)))) \<le> 1000 \<and> concat (swSent c) = [entDeliveryToGrpc unary_show d]"
proof -
  have sub: "sID sample_sub = 11" "sName sample_sub = ''s''" by (simp_all add: sample_sub_def)
  obtain s d where run: "stream_steps (\<lambda>_. None) (sID sample_sub) (sName sample_sub) (\<lambda>_. False) (stream_init True True sample_stream_world) s"
      "msSender s = SSend [d]" "msLog s = [Taken [d]]" "msSent s = []" "smdID d = 31"
    unfolding sub using sample_run by blast
  let ?s = "s\<lparr>msSent := msSent s @ [d], msSender := SCheck False\<rparr>"
  have "stream_steps (\<lambda>_. None) (sID sample_sub) (sName sample_sub) (\<lambda>_. False) (stream_init True True sample_stream_world) ?s"
    using run(1) sent_single[OF run(2)] by (rule rtranclp.rtrancl_into_rtrancl)
  from streams_alone[OF this, where receives = "wrapper_receives unary_parse" and sends = "SendBatch unary_show" and own = "\<lambda>_ _ _. False"
      and c = "wrapper_init sample_initial"]
  obtain c where
    c: "(pull_step (\<lambda>_. None) unary_parse unary_show sample_sub)\<^sup>*\<^sup>* (wrapper_init sample_initial, stream_init True True sample_stream_world) (c, ?s)"
    by blast
  have h: "dom (held (msLog ?s)) = {31}" using run(3,5) by (simp add: held_def)
  have "int (card (dom (held (msLog ?s)))) \<le> 1000" "concat (swSent c) = [entDeliveryToGrpc unary_show d]"
    using StreamingPull_limits[OF c refl] run(3,4) by (simp_all add: sample_initial_def effectiveFlowControl_def maxInt_def)
  with c h run(4) show ?thesis by (intro exI[of _ c] exI[of _ ?s] exI[of _ d]) simp
qed

end
