(* ===== verification/HttpPush.thy ===== *)
theory HttpPush
  imports Streamer "HOL-Library.Multiset"
begin

text \<open>
  The connection of the streamer to an HTTP endpoint, \<open>actions/http-push-streamer.go\<close>. Every delivery
  is posted by a goroutine of its own, which waits for the answer and then for room in one of three
  channels; the reader of the streamer empties a channel into a request and adapts the number of
  messages that may be outstanding. Answers come in any order and after any time. The clock and the
  answers are given by the environment. Besides the fields of the code the state lists the
  goroutines under way and records what was answered and reported.
\<close>

subsection \<open>What is posted\<close>

text \<open>Base 64, with padding.\<close>

definition base64_alphabet :: string where
  "base64_alphabet = ''ABCDEFGHIJKLMNOPQRSTUVWXYZabcdefghijklmnopqrstuvwxyz0123456789+/''"

fun base64_sextets :: "nat list \<Rightarrow> nat option list" where
  "base64_sextets [] = []"
| "base64_sextets [a] = [Some (a div 4), Some (a mod 4 * 16), None, None]"
| "base64_sextets [a, b] = [Some (a div 4), Some (a mod 4 * 16 + b div 16), Some (b mod 16 * 4), None]"
| "base64_sextets (a # b # c # xs) =
     Some (a div 4) # Some (a mod 4 * 16 + b div 16) # Some (b mod 16 * 4 + c div 64) # Some (c mod 64) # base64_sextets xs"

definition EncodeToString :: "string \<Rightarrow> string" where
  "EncodeToString xs = map (\<lambda>s. case s of Some i \<Rightarrow> base64_alphabet ! i | None \<Rightarrow> CHR ''='') (base64_sextets (map of_char xs))"

record pushRequest =
  pqAttributes :: attrs
  pqData :: string
  pqMessageId :: string
  pqPublishTime :: time
  pqOrderingKey :: string
  pqSubscription :: string
  pqDeliveryAttempt :: int

definition push_body :: "(uuid \<Rightarrow> string) \<Rightarrow> string \<Rightarrow> subscriptionMessageDelivery \<Rightarrow> pushRequest" where
  "push_body show_uuid subscriptionName del =
     \<lparr>pqAttributes = smdAttributes del, pqData = EncodeToString (smdPayload del), pqMessageId = show_uuid (smdMessageID del),
      pqPublishTime = smdPublishedAt del, pqOrderingKey = (case smdOrderKey del of None \<Rightarrow> [] | Some k \<Rightarrow> k),
      pqSubscription = subscriptionName, pqDeliveryAttempt = smdNumAttempts del\<rparr>"

subsection \<open>The connection\<close>

datatype ackQueue = FastAck | SlowAck | Nack

datatype response = Failed | Answered int

record httpPushStreamConn =
  hcSubscriptionName :: string
  hcQueue :: "ackQueue \<Rightarrow> uuid list"
  hcMaxBytes :: int
  hcMaxMessages :: int
  hcFailing :: bool
  hcLastFail :: "time option"
  hcPosts :: "(uuid \<times> pushRequest) list"
  hcFinished :: "(ackQueue \<times> uuid) list"
  hcDrain :: "(ackQueue \<times> uuid list) option"
  hcAnswers :: "(uuid \<times> response) list"
  hcAcked :: "uuid list"
  hcNacked :: "uuid list"
  hcDropped :: "uuid list"

definition newHttpPushConn :: "string \<Rightarrow> httpPushStreamConn" where
  "newHttpPushConn subscriptionName = \<lparr>hcSubscriptionName = subscriptionName, hcQueue = (\<lambda>_. []), hcMaxBytes = 10000000,
     hcMaxMessages = 1, hcFailing = False, hcLastFail = None, hcPosts = [], hcFinished = [], hcDrain = None,
     hcAnswers = [], hcAcked = [], hcNacked = [], hcDropped = []\<rparr>"

definition queue_capacity :: nat where
  "queue_capacity = 10"

text \<open>The new limit, if a channel that gave \<open>n\<close> identifiers changes it.\<close>

fun new_limit :: "ackQueue \<Rightarrow> int \<Rightarrow> int \<Rightarrow> int option" where
  "new_limit FastAck n maxMessages =
     (if maxMessages < 1000 then Some (if maxMessages + n > 1000 then 1000 else maxMessages + n) else None)"
| "new_limit SlowAck n maxMessages =
     (if maxMessages > 1 then Some (if maxMessages - n < 1 then 1 else maxMessages - n) else None)"
| "new_limit Nack n maxMessages =
     (if maxMessages > 1 then Some (if maxMessages - 10 * n < 1 then 1 else maxMessages - 10 * n) else None)"

definition push_limit :: "ackQueue \<Rightarrow> uuid list \<Rightarrow> httpPushStreamConn \<Rightarrow> flowControl option \<times> httpPushStreamConn" where
  "push_limit q ids c =
     (case new_limit q (int (length ids)) (hcMaxMessages c) of
        None \<Rightarrow> (None, c)
      | Some mm \<Rightarrow> (Some \<lparr>fcMaxMessages = mm, fcMaxBytes = hcMaxBytes c\<rparr>, c\<lparr>hcMaxMessages := mm\<rparr>))"

definition push_request :: "ackQueue \<Rightarrow> uuid list \<Rightarrow> httpPushStreamConn \<Rightarrow> messageStreamRequest \<times> httpPushStreamConn" where
  "push_request q ids c =
     (let (fc, c1) = push_limit q ids c;
          acks = (if q = Nack then [] else ids); nacks = (if q = Nack then ids else [])
      in (\<lparr>mrFlowControl = fc, mrAck = acks, mrNack = nacks, mrDelay = [], mrDelaySeconds = 0\<rparr>,
          c1\<lparr>hcDrain := None, hcAcked := hcAcked c1 @ acks, hcNacked := hcNacked c1 @ nacks\<rparr>))"

definition push_receives :: "httpPushStreamConn \<Rightarrow> messageStreamRequest \<Rightarrow> httpPushStreamConn \<Rightarrow> bool" where
  "push_receives c m c' \<longleftrightarrow> (case hcDrain c of
     None \<Rightarrow> False | Some (q, ids) \<Rightarrow> hcQueue c q = [] \<and> push_request q ids c = (m, c'))"

definition push_sends :: "(uuid \<Rightarrow> string) \<Rightarrow> httpPushStreamConn \<Rightarrow> subscriptionMessageDelivery list \<Rightarrow> httpPushStreamConn" where
  "push_sends show_uuid c ds =
     c\<lparr>hcPosts := hcPosts c @ map (\<lambda>d. (smdID d, push_body show_uuid (hcSubscriptionName c) d)) ds\<rparr>"

definition nowFailing :: "time \<Rightarrow> time \<Rightarrow> bool \<Rightarrow> httpPushStreamConn \<Rightarrow> bool \<times> httpPushStreamConn" where
  "nowFailing now now' newValue c =
     (let isChanged = (hcFailing c \<noteq> newValue \<or> (case hcLastFail c of None \<Rightarrow> True | Some t \<Rightarrow> now - t > minute)) in
      (isChanged, c\<lparr>hcFailing := newValue, hcLastFail := (if isChanged \<and> newValue then Some now' else hcLastFail c)\<rparr>))"

definition is_success :: "response \<Rightarrow> bool" where
  "is_success r = (case r of Failed \<Rightarrow> False | Answered code \<Rightarrow> code = 102 \<or> code = 200 \<or> code = 201 \<or> code = 202 \<or> code = 204)"

definition post_queue :: "duration \<Rightarrow> response \<Rightarrow> ackQueue" where
  "post_queue dur r = (if \<not> is_success r then Nack else if dur < second then FastAck else SlowAck)"

definition post_answered :: "duration \<Rightarrow> time \<Rightarrow> time \<Rightarrow> response \<Rightarrow> uuid \<Rightarrow> httpPushStreamConn \<Rightarrow> httpPushStreamConn" where
  "post_answered dur now now' r i c =
     (let c1 = snd (nowFailing now now' (\<not> is_success r) c) in
      c1\<lparr>hcFinished := (post_queue dur r, i) # hcFinished c1, hcAnswers := (i, r) # hcAnswers c1\<rparr>)"

text \<open>
  The steps of the goroutines, and of a receive that has taken the first identifier and empties its
  channel, while others may still arrive there. A goroutine that cannot report is given up only
  when the context is done.
\<close>

inductive push_own :: "bool \<Rightarrow> httpPushStreamConn \<Rightarrow> httpPushStreamConn \<Rightarrow> bool" where
  answer: "hcPosts c = ps @ (i, body) # qs \<Longrightarrow> push_own b c (post_answered dur now now' r i (c\<lparr>hcPosts := ps @ qs\<rparr>))"
| report: "hcFinished c = ps @ (q, i) # qs \<Longrightarrow> length (hcQueue c q) < queue_capacity \<Longrightarrow>
    push_own b c (c\<lparr>hcFinished := ps @ qs, hcQueue := (hcQueue c)(q := hcQueue c q @ [i])\<rparr>)"
| give_up: "hcFinished c = ps @ (q, i) # qs \<Longrightarrow> push_own True c (c\<lparr>hcFinished := ps @ qs, hcDropped := i # hcDropped c\<rparr>)"
| take_first: "hcDrain c = None \<Longrightarrow> hcQueue c q = i # is \<Longrightarrow>
    push_own b c (c\<lparr>hcQueue := (hcQueue c)(q := is), hcDrain := Some (q, [i])\<rparr>)"
| drain: "hcDrain c = Some (q, ids) \<Longrightarrow> hcQueue c q = i # is \<Longrightarrow>
    push_own b c (c\<lparr>hcQueue := (hcQueue c)(q := is), hcDrain := Some (q, ids @ [i])\<rparr>)"

abbreviation push_step :: "filter_parser \<Rightarrow> (uuid \<Rightarrow> string) \<Rightarrow> uuid \<Rightarrow> string \<Rightarrow>
    httpPushStreamConn \<times> streamer \<Rightarrow> httpPushStreamConn \<times> streamer \<Rightarrow> bool" where
  "push_step parse show_uuid subID subName \<equiv> conn_step parse subID subName push_receives (push_sends show_uuid) push_own"

subsection \<open>Limits\<close>

definition push_ok :: "int \<Rightarrow> int \<Rightarrow> httpPushStreamConn \<Rightarrow> bool" where
  "push_ok N B c \<longleftrightarrow> 1000 \<le> N \<and> 10000000 \<le> B \<and> 1 \<le> hcMaxMessages c \<and> hcMaxMessages c \<le> 1000 \<and> hcMaxBytes c = 10000000"

lemma new_limit_bounds:
  "new_limit q (int n) mm = Some mm' \<Longrightarrow> 1 \<le> mm \<Longrightarrow> mm \<le> 1000 \<Longrightarrow> 1 \<le> mm' \<and> mm' \<le> 1000"
  by (cases q) (auto split: if_split_asm)

lemma push_limit_ok:
  assumes "push_ok N B c" and "push_limit q ids c = (fc, c1)"
  shows "push_ok N B c1 \<and> (case fc of None \<Rightarrow> True | Some f \<Rightarrow> fc_within N B f)"
proof (cases "new_limit q (int (length ids)) (hcMaxMessages c)")
  case None
  then show ?thesis using assms by (auto simp: push_limit_def)
next
  case (Some mm)
  then show ?thesis using assms new_limit_bounds[OF Some] by (auto simp: push_limit_def push_ok_def fc_within_def)
qed

lemma push_receives_iff: "push_receives c m c' \<longleftrightarrow>
    (\<exists>q ids. hcDrain c = Some (q, ids) \<and> hcQueue c q = [] \<and> push_request q ids c = (m, c'))"
  by (simp add: push_receives_def split: option.split)

interpretation http_push: stream_connection push_receives "push_sends show_uuid" push_own push_ok
proof unfold_locales
  fix N B c m c'
  assume ok: "push_ok N B c" and "push_receives c m c'"
  then obtain q ids where "push_request q ids c = (m, c')" by (auto simp: push_receives_iff)
  then show "push_ok N B c' \<and> request_within N B m"
    using push_limit_ok[OF ok, of q ids] by (cases "push_limit q ids c") (auto simp: push_request_def request_within_def push_ok_def Let_def)
next
  fix N B b c c'
  assume "push_ok N B c" "push_own b c c'"
  then show "push_ok N B c'"
    by (auto elim!: push_own.cases simp: push_ok_def post_answered_def nowFailing_def Let_def)
qed (auto simp: push_ok_def push_sends_def)

subsection \<open>Every delivery is reported once\<close>

definition drained :: "httpPushStreamConn \<Rightarrow> uuid list" where
  "drained c = (case hcDrain c of None \<Rightarrow> [] | Some (q, ids) \<Rightarrow> ids)"

text \<open>Where the delivery of a post can be.\<close>

definition under_way :: "httpPushStreamConn \<Rightarrow> uuid multiset" where
  "under_way c = mset (map fst (hcPosts c)) + mset (map snd (hcFinished c)) + mset (hcQueue c FastAck) +
     mset (hcQueue c SlowAck) + mset (hcQueue c Nack) + mset (drained c)"

definition reported :: "httpPushStreamConn \<Rightarrow> uuid multiset" where
  "reported c = mset (hcAcked c) + mset (hcNacked c) + mset (hcDropped c)"

definition answered :: "httpPushStreamConn \<Rightarrow> ackQueue \<Rightarrow> uuid \<Rightarrow> bool" where
  "answered c q i \<longleftrightarrow> (\<exists>r. (i, r) \<in> set (hcAnswers c) \<and> (q = Nack \<longleftrightarrow> \<not> is_success r))"

definition answers_ok :: "httpPushStreamConn \<Rightarrow> bool" where
  "answers_ok c \<longleftrightarrow> (\<forall>(q, i)\<in>set (hcFinished c). answered c q i) \<and> (\<forall>q. \<forall>i\<in>set (hcQueue c q). answered c q i) \<and>
     (\<forall>q ids. hcDrain c = Some (q, ids) \<longrightarrow> (\<forall>i\<in>set ids. answered c q i)) \<and>
     (\<forall>i\<in>set (hcAcked c). answered c FastAck i) \<and> (\<forall>i\<in>set (hcNacked c). answered c Nack i)"

lemma push_own_conserves:
  assumes "push_own b c c'"
  shows "under_way c' + reported c' = under_way c + reported c \<and> (\<not> b \<longrightarrow> hcDropped c' = hcDropped c)"
  using assms
proof (cases rule: push_own.cases)
  case (report ps q i qs)
  then show ?thesis by (cases q) (simp_all add: under_way_def reported_def drained_def)
next
  case (take_first q i "is")
  then show ?thesis by (cases q) (simp_all add: under_way_def reported_def drained_def)
next
  case (drain q ids i "is")
  then show ?thesis by (cases q) (simp_all add: under_way_def reported_def drained_def)
qed (simp_all add: under_way_def reported_def drained_def post_answered_def nowFailing_def Let_def)

lemma push_receives_fields:
  assumes "push_receives c m c'"
  obtains q ids where "hcDrain c = Some (q, ids)" and "hcPosts c' = hcPosts c" and "hcFinished c' = hcFinished c"
    and "hcQueue c' = hcQueue c" and "hcDrain c' = None" and "hcAnswers c' = hcAnswers c" and "hcDropped c' = hcDropped c"
    and "hcAcked c' = hcAcked c @ (if q = Nack then [] else ids)" and "hcNacked c' = hcNacked c @ (if q = Nack then ids else [])"
proof -
  from assms obtain q ids where "hcDrain c = Some (q, ids)" and "push_request q ids c = (m, c')"
    by (auto simp: push_receives_iff)
  then show ?thesis
    using that by (cases "new_limit q (int (length ids)) (hcMaxMessages c)") (auto simp: push_request_def push_limit_def Let_def)
qed

lemma push_receives_conserves:
  assumes "push_receives c m c'"
  shows "under_way c' + reported c' = under_way c + reported c \<and> hcDropped c' = hcDropped c"
  using assms by (elim push_receives_fields) (simp add: under_way_def reported_def drained_def)

lemma answered_mono: "set (hcAnswers c) \<subseteq> set (hcAnswers c') \<Longrightarrow> answered c q i \<Longrightarrow> answered c' q i"
  by (auto simp: answered_def)

lemma answered_updates [simp]:
  "answered (c\<lparr>hcFinished := x\<rparr>) = answered c" "answered (c\<lparr>hcQueue := y\<rparr>) = answered c"
  "answered (c\<lparr>hcDrain := z\<rparr>) = answered c" "answered (c\<lparr>hcDropped := u\<rparr>) = answered c"
  by (simp_all add: answered_def fun_eq_iff)

lemma push_own_answers:
  assumes "push_own b c c'" and "answers_ok c"
  shows "answers_ok c'"
  using assms(1)
proof (cases rule: push_own.cases)
  case (answer ps i body qs dur now now' r)
  have new: "answered c' (post_queue dur r) i"
    by (auto simp: answered_def answer post_answered_def nowFailing_def post_queue_def Let_def)
  have "answered c q j \<Longrightarrow> answered c' q j" for q j
    by (rule answered_mono) (auto simp: answer post_answered_def nowFailing_def Let_def)
  with assms(2) new show ?thesis by (auto simp: answers_ok_def answer post_answered_def nowFailing_def Let_def)
qed (use assms(2) in \<open>auto simp: answers_ok_def split: if_split_asm\<close>)

lemma push_receives_answers: "push_receives c m c' \<Longrightarrow> answers_ok c \<Longrightarrow> answers_ok c'"
proof (elim push_receives_fields)
  fix q ids
  assume ok: "answers_ok c" and *: "hcDrain c = Some (q, ids)" "hcFinished c' = hcFinished c" "hcQueue c' = hcQueue c" "hcDrain c' = None"
    "hcAcked c' = hcAcked c @ (if q = Nack then [] else ids)" "hcNacked c' = hcNacked c @ (if q = Nack then ids else [])"
    and "hcAnswers c' = hcAnswers c"
  then have same: "answered c' = answered c" by (simp add: answered_def fun_eq_iff)
  have "answered c FastAck i" if "answered c q i" "q \<noteq> Nack" for i using that by (simp add: answered_def)
  with ok * show "answers_ok c'" unfolding answers_ok_def same by auto
qed

lemma ctx_done_stays: "stream_step parse subID subName req s s' \<Longrightarrow> msCtxDone s \<Longrightarrow> msCtxDone s'"
  by (erule stream_step.cases) (auto simp: sender_lock_def sender_got_def sender_record_def reader_flow_def reader_forget_def refresher_update_def
      renewer_init_def renewer_tick_def renewer_update_def Let_def split: option.split)

definition push_inv :: "httpPushStreamConn \<Rightarrow> streamer \<Rightarrow> bool" where
  "push_inv c s \<longleftrightarrow> under_way c + reported c = mset (map smdID (msSent s)) \<and> (hcDropped c \<noteq> [] \<longrightarrow> msCtxDone s) \<and> answers_ok c"

lemma push_sends_fields:
  "under_way (push_sends show_uuid c ds) = under_way c + mset (map smdID ds)" "reported (push_sends show_uuid c ds) = reported c"
  "hcDropped (push_sends show_uuid c ds) = hcDropped c" "answers_ok (push_sends show_uuid c ds) = answers_ok c"
  by (simp_all add: push_sends_def under_way_def reported_def drained_def answers_ok_def answered_def comp_def)

lemma push_inv_step:
  assumes "push_step parse show_uuid subID subName x y" and "push_inv (fst x) (snd x)"
  shows "push_inv (fst y) (snd y)"
  using assms(1)
proof (cases rule: conn_step.cases)
  case (streams s s' ds c)
  then show ?thesis
    using assms(2) ctx_done_stays[OF streams(3)] by (auto simp: push_inv_def push_sends_fields ac_simps)
next
  case (reads s c m c')
  then show ?thesis
    using assms(2) push_receives_conserves[OF reads(4)] push_receives_answers[OF reads(4)] by (simp add: push_inv_def)
next
  case (alone s c c')
  then show ?thesis
    using assms(2) push_own_conserves[OF alone(3)] push_own_answers[OF alone(3)] by (auto simp: push_inv_def)
qed

subsection \<open>The adaptive limit\<close>

text \<open>The limits of the streamer, once its reader has taken over the request it has read.\<close>

fun fc_at :: "reader \<Rightarrow> flowControl \<Rightarrow> flowControl" where
  "fc_at (LFlow m) fc = (case mrFlowControl m of Some fc' \<Rightarrow> fc' | None \<Rightarrow> fc)"
| "fc_at pc fc = fc"

definition next_fc :: "streamer \<Rightarrow> flowControl" where
  "next_fc s = fc_at (msReader s) (msFc s)"

lemma next_fc_step:
  assumes "stream_step parse subID subName (\<lambda>_. False) s s'"
  shows "next_fc s' = next_fc s"
  using assms by (cases rule: stream_step.cases)
    (simp_all add: next_fc_def sender_lock_def sender_got_def sender_record_def reader_flow_def reader_forget_def
      refresher_update_def renewer_init_def renewer_tick_def renewer_update_def Let_def split: option.split)

lemma push_own_max: "push_own b c c' \<Longrightarrow> hcMaxMessages c' = hcMaxMessages c"
  by (erule push_own.cases) (simp_all add: post_answered_def nowFailing_def Let_def)

lemma push_receives_max:
  assumes "push_receives c m c'"
  shows "hcMaxMessages c' = (case mrFlowControl m of Some fc \<Rightarrow> fcMaxMessages fc | None \<Rightarrow> hcMaxMessages c)"
proof -
  from assms obtain q ids where "push_request q ids c = (m, c')" by (auto simp: push_receives_iff)
  then show ?thesis
    by (cases "new_limit q (int (length ids)) (hcMaxMessages c)") (auto simp: push_request_def push_limit_def Let_def)
qed

lemma adaptive_step:
  assumes "push_step parse show_uuid subID subName x y" and "fcMaxMessages (next_fc (snd x)) = hcMaxMessages (fst x)"
  shows "fcMaxMessages (next_fc (snd y)) = hcMaxMessages (fst y)"
  using assms(1)
proof (cases rule: conn_step.cases)
  case (streams s s' ds c)
  then show ?thesis using assms(2) next_fc_step[OF streams(3)] by (simp add: push_sends_def)
next
  case (reads s c m c')
  then show ?thesis using assms(2) push_receives_max[OF reads(4)] by (simp add: next_fc_def split: option.split)
next
  case (alone s c c')
  then show ?thesis using assms(2) push_own_max[OF alone(3)] by simp
qed

lemma push_reached:
  assumes "(push_step parse show_uuid subID subName)\<^sup>*\<^sup>* (newHttpPushConn subName, stream_init False False w) x"
  shows "push_inv (fst x) (snd x) \<and> fcMaxMessages (next_fc (snd x)) = hcMaxMessages (fst x)"
  using assms
proof (induction rule: rtranclp_induct)
  case base
  then show ?case
    by (simp add: push_inv_def under_way_def reported_def drained_def answers_ok_def newHttpPushConn_def stream_init_def next_fc_def)
next
  case (step x y)
  then show ?case using push_inv_step adaptive_step by blast
qed

text \<open>
  Property C21. However fast or slow the endpoint answers, the deliveries that were taken for it and
  not dropped since are at most a thousand, and at most ten million bytes unless it is a single
  larger one. The adaptive limit stays between one and a thousand, and governs what is fetched: once
  the reader has passed on the limit, the sender asks for at least one message and for no more than
  the limit leaves room for. A post that is open belongs to a delivery that counts, unless its
  delivery was reported before or dropped as completed or expired: a slow endpoint may have open
  posts of expired deliveries beyond the limit.
\<close>

theorem push_limits:
  assumes "(push_step parse show_uuid subID subName)\<^sup>*\<^sup>* (newHttpPushConn subName, stream_init False False w) (c, s)"
  shows "1 \<le> hcMaxMessages c \<and> hcMaxMessages c \<le> 1000 \<and> card (dom (held (msLog s))) \<le> 1000 \<and>
    (held_bytes (msLog s) \<le> 10000000 \<or> card (dom (held (msLog s))) = 1) \<and>
    fst ` set (hcPosts c) \<subseteq> dom (held (msLog s)) \<union> dropped_ids (msLog s) \<and>
    (\<forall>a p. msSender s = SLock a \<and> (\<forall>m. msReader s \<noteq> LFlow m) \<and> msSender (sender_lock subID subName a s) = SFetch p \<longrightarrow>
       1 \<le> gmMaxMessages p \<and> int (card (dom (held (msLog s)))) + gmMaxMessages p \<le> hcMaxMessages c)"
proof -
  have "push_ok 1000 10000000 (newHttpPushConn subName)" by (simp add: push_ok_def newHttpPushConn_def)
  from http_push.outstanding_within[OF assms this]
  have ok: "push_ok 1000 10000000 c" and flow: "flow_inv 1000 10000000 s" and hist: "log_inv s" by simp_all
  have inv: "push_inv c s" and fc: "fcMaxMessages (next_fc s) = hcMaxMessages c" using push_reached[OF assms] by simp_all
  have "set_mset (under_way c) \<subseteq> smdID ` set (msSent s)"
    using inv by (metis mset_subset_eq_add_left push_inv_def set_map set_mset_mono set_mset_mset)
  then have posts: "fst ` set (hcPosts c) \<subseteq> smdID ` set (msSent s)" by (auto simp: under_way_def)
  have "1 \<le> gmMaxMessages p \<and> int (card (dom (held (msLog s)))) + gmMaxMessages p \<le> hcMaxMessages c"
    if lock: "msSender s = SLock a" and r: "\<forall>m. msReader s \<noteq> LFlow m"
      and f: "msSender (sender_lock subID subName a s) = SFetch p" for a p
  proof -
    have "msFc s = next_fc s" using r by (cases "msReader s") (simp_all add: next_fc_def)
    then have "int (length (msPending s)) + gmMaxMessages p \<le> hcMaxMessages c" "1 \<le> gmMaxMessages p"
      using f fc by (auto simp: sender_lock_def Let_def fetch_params_def curFc_def has_room_def split: if_split_asm)
    moreover have "held (msLog s) \<subseteq>\<^sub>m sizes (msPending s)" using hist lock by (simp add: log_inv_def counted_def)
    then have "card (dom (held (msLog s))) \<le> length (msPending s)"
      using card_mono[OF _ map_le_implies_dom_le] sizes_card[of "msPending s"] by fastforce
    ultimately show ?thesis by linarith
  qed
  then show ?thesis
    using ok held_within[OF hist flow] posts sent_held[OF hist] by (auto simp: push_ok_def)
qed

text \<open>
  Property C6. Pushing loses nothing and acknowledges nothing by mistake. At any time every delivery
  that was posted is under way or was reported, exactly as often as it was posted, as acknowledged,
  refused or, once the stream is over, given up. What is reported as acknowledged was answered with
  one of the codes that mean success, and what is refused was not.
\<close>

theorem push_reports_once:
  assumes "(push_step parse show_uuid subID subName)\<^sup>*\<^sup>* (newHttpPushConn subName, stream_init False False w) (c, s)"
  shows "under_way c + mset (hcAcked c) + mset (hcNacked c) + mset (hcDropped c) = mset (map smdID (msSent s)) \<and>
    (\<not> msCtxDone s \<longrightarrow> hcDropped c = []) \<and>
    (\<forall>i\<in>set (hcAcked c). \<exists>r. (i, r) \<in> set (hcAnswers c) \<and> is_success r) \<and>
    (\<forall>i\<in>set (hcNacked c). \<exists>r. (i, r) \<in> set (hcAnswers c) \<and> \<not> is_success r)"
proof -
  from push_reached[OF assms] show ?thesis
    by (auto simp: push_inv_def reported_def answers_ok_def answered_def ac_simps)
qed

lemma sample_push_run:
  "\<exists>c s. (push_step (\<lambda>_. None) (\<lambda>_. []) 11 ''s'')\<^sup>*\<^sup>* (newHttpPushConn ''s'', stream_init False False sample_stream_world) (c, s) \<and>
     hcAcked c = [31] \<and> hcMaxMessages c = 2 \<and> dom (held (msLog s)) = {31} \<and> length (msSent s) = 1"
proof -
  let ?step = "push_step (\<lambda>_. None) (\<lambda>_. []) 11 ''s''"
  obtain s d where run: "stream_steps (\<lambda>_. None) 11 ''s'' (\<lambda>_. False) (stream_init False False sample_stream_world) s"
      "msSender s = SSend [d]" "msLog s = [Taken [d]]" "msReader s = LLoop" "\<not> msCtxDone s" "msSent s = []" "smdID d = 31"
    using sample_run by blast
  define s1 where "s1 = s\<lparr>msSent := msSent s @ [d], msSender := SCheck False\<rparr>"
  define c0 where "c0 = newHttpPushConn ''s''"
  define c1 where "c1 = push_sends (\<lambda>_. []) c0 [d]"
  define c2 where "c2 = post_answered 1 0 0 (Answered 200) 31 (c1\<lparr>hcPosts := [] @ []\<rparr>)"
  define c3 where "c3 = c2\<lparr>hcFinished := [] @ [], hcQueue := (hcQueue c2)(FastAck := hcQueue c2 FastAck @ [31])\<rparr>"
  define c4 where "c4 = c3\<lparr>hcQueue := (hcQueue c3)(FastAck := []), hcDrain := Some (FastAck, [31])\<rparr>"
  define x where "x = push_request FastAck [31] c4"
  note defs = c0_def newHttpPushConn_def c1_def push_sends_def c2_def post_answered_def nowFailing_def is_success_def post_queue_def
    c3_def queue_capacity_def c4_def Let_def
  have "?step\<^sup>*\<^sup>* (c0, stream_init False False sample_stream_world) (c0, s)"
    using run(1) by (rule streams_quiet) (simp add: run(6) stream_init_def)
  moreover have "?step (c0, s) (c1, s1)"
    using conn_step.streams[OF sent_single[OF run(2)], of "[d]"] by (simp add: s1_def c1_def)
  moreover have "?step (c1, s1) (c2, s1)"
    unfolding c2_def by (rule conn_step.alone, rule push_own.answer[where ps = "[]" and qs = "[]"]) (simp add: defs run(7))
  moreover have "?step (c2, s1) (c3, s1)"
    unfolding c3_def by (rule conn_step.alone, rule push_own.report[where ps = "[]" and qs = "[]"]) (simp_all add: defs)
  moreover have "?step (c3, s1) (c4, s1)"
    unfolding c4_def by (rule conn_step.alone, rule push_own.take_first) (simp_all add: defs)
  moreover have "?step (c4, s1) (snd x, s1\<lparr>msReader := LFlow (fst x)\<rparr>)"
    by (rule conn_step.reads) (simp_all add: s1_def run(4) push_receives_iff x_def, simp add: defs)
  ultimately have "?step\<^sup>*\<^sup>* (c0, stream_init False False sample_stream_world) (snd x, s1\<lparr>msReader := LFlow (fst x)\<rparr>)"
    by (meson rtranclp.rtrancl_into_rtrancl)
  moreover have "hcAcked (snd x) = [31]" "hcMaxMessages (snd x) = 2"
    by (simp_all add: x_def push_request_def push_limit_def defs)
  ultimately show ?thesis
    unfolding c0_def by (intro exI[of _ "snd x"] exI[of _ "s1\<lparr>msReader := LFlow (fst x)\<rparr>"]) (simp add: s1_def run held_def)
qed

theorem push_limits_witness:
  "\<exists>c s. (push_step (\<lambda>_. None) (\<lambda>_. []) 11 ''s'')\<^sup>*\<^sup>* (newHttpPushConn ''s'', stream_init False False sample_stream_world) (c, s) \<and>
     hcMaxMessages c = 2 \<and> dom (held (msLog s)) = {31} \<and> (held_bytes (msLog s) \<le> 10000000 \<or> card {31 :: uuid} = 1)"
proof -
  obtain c s where "(push_step (\<lambda>_. None) (\<lambda>_. []) 11 ''s'')\<^sup>*\<^sup>* (newHttpPushConn ''s'', stream_init False False sample_stream_world) (c, s)"
      "hcMaxMessages c = 2" "dom (held (msLog s)) = {31}"
    using sample_push_run by blast
  with push_limits[OF this(1)] show ?thesis by auto
qed

theorem push_reports_once_witness:
  "\<exists>c s. (push_step (\<lambda>_. None) (\<lambda>_. []) 11 ''s'')\<^sup>*\<^sup>* (newHttpPushConn ''s'', stream_init False False sample_stream_world) (c, s) \<and>
     hcAcked c = [31] \<and> (\<exists>r. (31, r) \<in> set (hcAnswers c) \<and> is_success r) \<and> size (under_way c + mset (hcNacked c) + mset (hcDropped c)) = 0"
proof -
  obtain c s where run: "(push_step (\<lambda>_. None) (\<lambda>_. []) 11 ''s'')\<^sup>*\<^sup>* (newHttpPushConn ''s'', stream_init False False sample_stream_world) (c, s)"
      "hcAcked c = [31]" "length (msSent s) = 1"
    using sample_push_run by blast
  note ok = push_reports_once[OF run(1)]
  from ok have "size (under_way c + mset (hcAcked c) + mset (hcNacked c) + mset (hcDropped c)) = 1"
    by (metis run(3) size_mset length_map)
  then have "size (under_way c + mset (hcNacked c) + mset (hcDropped c)) = 0" by (simp add: run(2))
  with run ok show ?thesis by (intro exI[of _ c] exI[of _ s]) simp
qed

subsection \<open>What the endpoint reads\<close>

definition base64_index :: "char \<Rightarrow> nat" where
  "base64_index x = length (takeWhile (\<lambda>y. y \<noteq> x) base64_alphabet)"

text \<open>The reader of the other side.\<close>

fun base64_decode :: "string \<Rightarrow> nat list" where
  "base64_decode (a # b # c # d # xs) =
     (if c = CHR ''='' then [base64_index a * 4 + base64_index b div 16]
      else if d = CHR ''='' then [base64_index a * 4 + base64_index b div 16, base64_index b mod 16 * 16 + base64_index c div 4]
      else (base64_index a * 4 + base64_index b div 16) # (base64_index b mod 16 * 16 + base64_index c div 4) #
        (base64_index c mod 4 * 64 + base64_index d) # base64_decode xs)"
| "base64_decode _ = []"

lemma takeWhile_distinct: "distinct xs \<Longrightarrow> i < length xs \<Longrightarrow> length (takeWhile (\<lambda>y. y \<noteq> xs ! i) xs) = i"
  by (induction xs arbitrary: i) (auto simp: nth_Cons split: nat.split)

lemma base64_alphabet_facts: "length base64_alphabet = 64" "distinct base64_alphabet" "CHR ''='' \<notin> set base64_alphabet"
  by (simp_all add: base64_alphabet_def)

lemma base64_index_nth [simp]: "i < 64 \<Longrightarrow> base64_index (base64_alphabet ! i) = i"
  unfolding base64_index_def by (rule takeWhile_distinct) (simp_all add: base64_alphabet_facts)

lemma base64_no_padding [simp]: "i < 64 \<Longrightarrow> base64_alphabet ! i \<noteq> CHR ''=''"
  using base64_alphabet_facts(1,3) nth_mem[of i base64_alphabet] by metis

lemma base64_decode_sextets:
  "\<forall>x\<in>set xs. x < 256 \<Longrightarrow>
   base64_decode (map (\<lambda>s. case s of Some i \<Rightarrow> base64_alphabet ! i | None \<Rightarrow> CHR ''='') (base64_sextets xs)) = xs"
proof (induction xs rule: base64_sextets.induct)
  case (2 a)
  then have "a div 4 < 64" "a mod 4 * 16 < 64" "a div 4 * 4 + a mod 4 * 16 div 16 = a" by auto
  then show ?case by simp
next
  case (3 a b)
  then have "a div 4 < 64" "a mod 4 * 16 + b div 16 < 64" "b mod 16 * 4 < 64"
    "a div 4 * 4 + (a mod 4 * 16 + b div 16) div 16 = a"
    "(a mod 4 * 16 + b div 16) mod 16 * 16 + b mod 16 * 4 div 4 = b" by auto
  then show ?case by simp
next
  case (4 a b c xs)
  then have "a div 4 < 64" "a mod 4 * 16 + b div 16 < 64" "b mod 16 * 4 + c div 64 < 64" "c mod 64 < 64"
    "a div 4 * 4 + (a mod 4 * 16 + b div 16) div 16 = a"
    "(a mod 4 * 16 + b div 16) mod 16 * 16 + (b mod 16 * 4 + c div 64) div 4 = b"
    "(b mod 16 * 4 + c div 64) mod 4 * 64 + c mod 64 = c" by auto
  moreover from this(1) have "base64_index (base64_alphabet ! (a div 4)) = a div 4" by (rule base64_index_nth)
  ultimately show ?case using 4 by simp
qed simp

text \<open>
  The endpoint can recover the payload of a pushed message, byte for byte, from the text
  it is posted as, together with the attributes and the number of the attempt.
\<close>

theorem push_body_roundtrip:
  "map char_of (base64_decode (pqData (push_body show_uuid subscriptionName del))) = smdPayload del \<and>
   pqAttributes (push_body show_uuid subscriptionName del) = smdAttributes del \<and>
   pqDeliveryAttempt (push_body show_uuid subscriptionName del) = smdNumAttempts del"
proof -
  have "\<forall>x\<in>set (map of_char (smdPayload del)). x < (256 :: nat)" using nat_of_char_less_256 by auto
  from base64_decode_sextets[OF this] show ?thesis by (simp add: push_body_def EncodeToString_def comp_def)
qed

end
