(* ===== verification/PushService.thy ===== *)
theory PushService
  imports HttpPush
begin

text \<open>
  The service that keeps one pusher per push subscription, \<open>services/http-push.go\<close>. A pusher is known
  by its name and endpoint, whether it was told to stop and how its streamer has ended, if it has;
  what it does meanwhile is the streamer of the previous theory. The answers of the SQL driver are given by
  the environment.
\<close>

subsection \<open>Pushers\<close>

record monitoredPusher =
  mpName :: string
  mpEndpoint :: string
  mpCanceled :: bool
  mpEnded :: "err option option"

type_synonym pushers = "(uuid \<times> monitoredPusher) list"

definition push_subs :: "database \<Rightarrow> subscription list" where
  "push_subs db = filter (\<lambda>s. sDeletedAt s = None \<and> sPushEndpoint s \<noteq> None \<and> sPushEndpoint s \<noteq> Some []) (subscriptions db)"

text \<open>A new connection without an endpoint is a panic.\<close>

definition NewHttpPusher :: "string \<Rightarrow> string \<Rightarrow> monitoredPusher res" where
  "NewHttpPusher subscriptionName endpoint =
     (if endpoint = [] then Inl (Panic ''empty endpoint'')
      else Inr \<lparr>mpName = subscriptionName, mpEndpoint = endpoint, mpCanceled = False, mpEnded = None\<rparr>)"

text \<open>
  The context of a pusher is done when it was told to stop or its streamer has failed, but not when
  its streamer has ended without an error. Harvesting waits for the streamer.
\<close>

definition pusher_done :: "monitoredPusher \<Rightarrow> bool" where
  "pusher_done p \<longleftrightarrow> mpCanceled p \<or> (case mpEnded p of Some (Some e) \<Rightarrow> True | _ \<Rightarrow> False)"

definition harvest :: "pushers \<Rightarrow> pushers" where
  "harvest ps = filter (\<lambda>(i, p). \<not> pusher_done p) ps"

fun startEach :: "subscription list \<Rightarrow> pushers \<Rightarrow> pushers res" where
  "startEach [] ps = Inr ps"
| "startEach (s # ss) ps =
     (if sID s \<in> fst ` set ps then startEach ss ps
      else case NewHttpPusher (sName s) (case sPushEndpoint s of None \<Rightarrow> [] | Some e \<Rightarrow> e) of
          Inl e \<Rightarrow> Inl e
        | Inr p \<Rightarrow> startEach ss (ps @ [(sID s, p)]))"

definition cancel_others :: "uuid set \<Rightarrow> pushers \<Rightarrow> pushers" where
  "cancel_others curSet ps = map (\<lambda>(i, p). (i, if i \<in> curSet then p else p\<lparr>mpCanceled := True\<rparr>)) ps"

text \<open>
  One round. The pushers are started inside of the transaction and stay when its commit fails;
  \<open>queryErr\<close> is the error of the query, if any.
\<close>

definition startPushersOnce :: "bool \<Rightarrow> driver \<Rightarrow> err option \<Rightarrow> pushers \<Rightarrow> world \<Rightarrow> unit res \<times> pushers \<times> world" where
  "startPushersOnce ctxDone drv queryErr ps w =
     (if ctxDone then (Inr (), ps, w)
      else let live = harvest ps;
               inner = (\<lambda>db. case queryErr of
                   Some e \<Rightarrow> Inl e
                 | None \<Rightarrow> bind_res (startEach (push_subs db) live) (\<lambda>started. Inr (started, [], db)));
               started = (if drvBegin drv \<noteq> None then live
                          else case inner (wDb w) of Inl e \<Rightarrow> live | Inr (started, _) \<Rightarrow> started);
               (r, w') = DoTx drv inner w
           in (case r of
                 Inl e \<Rightarrow> (Inl e, started, w')
               | Inr _ \<Rightarrow> (Inr (), cancel_others (sID ` set (push_subs (wDb w))) started, w')))"

subsection \<open>The service\<close>

record httpPusher =
  hpPushers :: pushers
  hpReady :: bool
  hpEnded :: bool
  hpWorld :: world

text \<open>
  The loop of the service against an environment that ends pushers and changes the database. A
  round that fails is tried again after a second; the others wait for a change, an ended pusher, or
  a minute.
\<close>

inductive monitor_step :: "httpPusher \<Rightarrow> httpPusher \<Rightarrow> bool" where
  round: "\<not> hpEnded s \<Longrightarrow> startPushersOnce ctxDone drv queryErr (hpPushers s) (hpWorld s) = (Inr (), ps, w) \<Longrightarrow>
    monitor_step s (s\<lparr>hpPushers := ps, hpReady := True, hpWorld := w\<rparr>)"
| failed_round: "\<not> hpEnded s \<Longrightarrow> startPushersOnce ctxDone drv queryErr (hpPushers s) (hpWorld s) = (Inl e, ps, w) \<Longrightarrow>
    monitor_step s (s\<lparr>hpPushers := ps, hpWorld := w\<rparr>)"
| stop: "monitor_step s (s\<lparr>hpEnded := True\<rparr>)"
| pusher_ends: "hpPushers s = ps @ (i, p) # qs \<Longrightarrow> monitor_step s (s\<lparr>hpPushers := ps @ (i, p\<lparr>mpEnded := Some r\<rparr>) # qs\<rparr>)"
| others: "monitor_step s (s\<lparr>hpWorld := w\<rparr>)"

subsection \<open>What a round does\<close>

definition push_endpoint :: "subscription \<Rightarrow> string" where
  "push_endpoint s = (case sPushEndpoint s of None \<Rightarrow> [] | Some e \<Rightarrow> e)"

definition started_pusher :: "subscription \<Rightarrow> uuid \<times> monitoredPusher" where
  "started_pusher s = (sID s, \<lparr>mpName = sName s, mpEndpoint = push_endpoint s, mpCanceled = False, mpEnded = None\<rparr>)"

lemma fst_started_pusher [simp]: "fst (started_pusher s) = sID s"
  by (simp add: started_pusher_def)

lemma push_subs_endpoint: "s \<in> set (push_subs db) \<Longrightarrow> push_endpoint s \<noteq> []"
  by (auto simp: push_subs_def push_endpoint_def split: option.split)

lemma startEach_eq:
  assumes "distinct (map sID ss)" and "\<forall>s\<in>set ss. push_endpoint s \<noteq> []"
  shows "startEach ss ps = Inr (ps @ map started_pusher (filter (\<lambda>s. sID s \<notin> fst ` set ps) ss))"
  using assms
proof (induction ss arbitrary: ps)
  case (Cons s ss)
  have "filter (\<lambda>x. sID x \<notin> fst ` set (ps @ [started_pusher s])) ss = filter (\<lambda>x. sID x \<notin> fst ` set ps) ss"
    using Cons.prems(1) by (intro filter_cong) (auto simp: image_iff)
  with Cons show ?case by (simp add: NewHttpPusher_def started_pusher_def push_endpoint_def[symmetric])
qed simp

lemma map_fst_cancel [simp]: "map fst (cancel_others cs ps) = map fst ps"
  by (induction ps) (auto simp: cancel_others_def)

lemma startPushersOnce_ok:
  assumes "wf_db (wDb w)" and "drvBegin drv = None" and "drvCommit drv = None"
  shows "startPushersOnce False drv None ps w =
    (Inr (), cancel_others (sID ` set (push_subs (wDb w)))
       (harvest ps @ map started_pusher (filter (\<lambda>s. sID s \<notin> fst ` set (harvest ps)) (push_subs (wDb w)))), w)"
proof -
  have "distinct (map sID (push_subs (wDb w)))"
    using wf_db_distinct(2)[OF assms(1)] by (simp add: push_subs_def distinct_map_filter)
  from startEach_eq[OF this, of "harvest ps"] push_subs_endpoint show ?thesis
    using assms(2,3) by (simp add: startPushersOnce_def DoTx_ok Let_def)
qed

subsection \<open>One pusher per subscription\<close>

definition pushers_ok :: "pushers \<Rightarrow> bool" where
  "pushers_ok ps \<longleftrightarrow> distinct (map fst ps) \<and> (\<forall>(i, p)\<in>set ps. mpEndpoint p \<noteq> [])"

lemma pushers_ok_harvest: "pushers_ok ps \<Longrightarrow> pushers_ok (harvest ps)"
  by (auto simp: pushers_ok_def harvest_def distinct_map_filter)

lemma pushers_ok_cancel: "pushers_ok ps \<Longrightarrow> pushers_ok (cancel_others cs ps)"
  unfolding pushers_ok_def map_fst_cancel by (auto simp: cancel_others_def split: if_split_asm)

lemma in_cancel_others: "(i, p) \<in> set (cancel_others cs ps) \<longleftrightarrow>
    (\<exists>q. (i, q) \<in> set ps \<and> p = (if i \<in> cs then q else q\<lparr>mpCanceled := True\<rparr>))"
  unfolding cancel_others_def by (induction ps) (auto split del: if_split)

lemma cancel_others_canceled:
  assumes "(i, p) \<in> set (cancel_others cs ps)" and "\<And>j q. (j, q) \<in> set ps \<Longrightarrow> \<not> mpCanceled q"
  shows "mpCanceled p \<longleftrightarrow> i \<notin> cs"
  using assms unfolding in_cancel_others by (cases "i \<in> cs") auto

lemma started_not_canceled: "(j, q) \<in> set (harvest ps @ map started_pusher ss) \<Longrightarrow> \<not> mpCanceled q"
  by (auto simp: harvest_def pusher_done_def started_pusher_def)

lemma pushers_ok_startEach: "startEach ss ps = Inr ps' \<Longrightarrow> pushers_ok ps \<Longrightarrow> pushers_ok ps'"
  by (induction ss ps rule: startEach.induct) (auto simp: pushers_ok_def NewHttpPusher_def split: if_split_asm sum.split_asm)

lemma pushers_ok_round:
  assumes "startPushersOnce ctxDone drv queryErr ps w = (r, ps', w')" and "pushers_ok ps"
  shows "pushers_ok ps'"
proof -
  have "pushers_ok started" if "startEach ss (harvest ps) = Inr started" for ss started
    using pushers_ok_startEach[OF that pushers_ok_harvest[OF assms(2)]] .
  then show ?thesis
    using assms pushers_ok_harvest[OF assms(2)]
    by (auto simp: startPushersOnce_def Let_def bind_res_def intro: pushers_ok_cancel
        split: if_split_asm prod.split_asm sum.split_asm option.split_asm)
qed

lemma pushers_ok_step: "monitor_step s s' \<Longrightarrow> pushers_ok (hpPushers s) \<Longrightarrow> pushers_ok (hpPushers s')"
  by (erule monitor_step.cases) (auto simp: pushers_ok_round, auto simp: pushers_ok_def)

definition push_service_init :: "world \<Rightarrow> httpPusher" where
  "push_service_init w = \<lparr>hpPushers = [], hpReady = False, hpEnded = False, hpWorld = w\<rparr>"

lemma pushers_ok_reachable: "monitor_step\<^sup>*\<^sup>* (push_service_init w) s \<Longrightarrow> pushers_ok (hpPushers s)"
  by (induction rule: rtranclp_induct) (auto simp: push_service_init_def pushers_ok_def[of "[]"] intro: pushers_ok_step)

text \<open>
  Property C22. In every state that the service reaches, a round that the database answers leaves one
  pusher for every active push subscription, a new one with its endpoint where there was none or it
  was stopped or had failed, and tells exactly the other pushers to stop. A pusher that is neither
  stopped nor failed is kept as it is, also when the endpoint of its subscription has changed, and
  also when its streamer has ended without an error.
\<close>

theorem push_service_round:
  assumes "monitor_step\<^sup>*\<^sup>* (push_service_init w) s" and "wf_db (wDb (hpWorld s))" and "drvBegin drv = None" and "drvCommit drv = None"
  shows "\<exists>ps. startPushersOnce False drv None (hpPushers s) (hpWorld s) = (Inr (), ps, hpWorld s) \<and> distinct (map fst ps) \<and>
    (\<forall>x\<in>set (push_subs (wDb (hpWorld s))). \<exists>p. (sID x, p) \<in> set ps \<and>
       (if \<exists>q. (sID x, q) \<in> set (hpPushers s) \<and> \<not> pusher_done q then (sID x, p) \<in> set (hpPushers s)
        else (sID x, p) = started_pusher x)) \<and>
    (\<forall>(i, p)\<in>set ps. mpCanceled p \<longleftrightarrow> i \<notin> sID ` set (push_subs (wDb (hpWorld s))))"
proof -
  let ?subs = "push_subs (wDb (hpWorld s))" and ?live = "harvest (hpPushers s)"
  let ?started = "?live @ map started_pusher (filter (\<lambda>x. sID x \<notin> fst ` set ?live) ?subs)"
  let ?ps = "cancel_others (sID ` set ?subs) ?started"
  note eq = startPushersOnce_ok[OF assms(2-4), of "hpPushers s"]
  from pushers_ok_round[OF eq pushers_ok_reachable[OF assms(1)]] have dist: "distinct (map fst ?ps)" by (simp add: pushers_ok_def)
  have live: "(i, p) \<in> set ?live \<longleftrightarrow> (i, p) \<in> set (hpPushers s) \<and> \<not> pusher_done p" for i p by (simp add: harvest_def)
  have keep: "(sID x, p) \<in> set ?ps" if "x \<in> set ?subs" "(sID x, p) \<in> set ?started" for x p
    using that unfolding in_cancel_others by (intro exI[of _ p]) simp
  have "\<exists>p. (sID x, p) \<in> set ?ps \<and>
       (if \<exists>q. (sID x, q) \<in> set (hpPushers s) \<and> \<not> pusher_done q then (sID x, p) \<in> set (hpPushers s)
        else (sID x, p) = started_pusher x)" if x: "x \<in> set ?subs" for x
  proof (cases "\<exists>q. (sID x, q) \<in> set (hpPushers s) \<and> \<not> pusher_done q")
    case True
    then obtain q where "(sID x, q) \<in> set ?live" using live by blast
    with keep[OF x, of q] live True show ?thesis by auto
  next
    case False
    then have "sID x \<notin> fst ` set ?live" using live by force
    then have "started_pusher x \<in> set ?started" using x by simp
    with keep[OF x, of "snd (started_pusher x)"] False show ?thesis by (auto simp: started_pusher_def)
  qed
  moreover have "\<forall>(i, p)\<in>set ?ps. mpCanceled p \<longleftrightarrow> i \<notin> sID ` set ?subs"
  proof clarify
    fix i p
    assume "(i, p) \<in> set ?ps"
    then show "mpCanceled p \<longleftrightarrow> i \<notin> sID ` set ?subs" by (rule cancel_others_canceled) (rule started_not_canceled)
  qed
  ultimately show ?thesis using eq dist by (intro exI[of _ ?ps]) blast
qed

definition sample_push_sub :: subscription where
  "sample_push_sub = sample_sub\<lparr>sDeadLetterTopicID := None, sPushEndpoint := Some ''http://new''\<rparr>"

definition sample_push_world :: "string \<Rightarrow> world" where
  "sample_push_world e = \<lparr>wDb = empty_db\<lparr>topics := [sample_topic], subscriptions := [sample_push_sub\<lparr>sPushEndpoint := Some e\<rparr>]\<rparr>,
     wNotify = init_notify\<rparr>"

lemma wf_sample_push: "wf_db (wDb (sample_push_world e))"
  by (simp add: wf_db_def topics_wf_def subs_wf_def snapshots_wf_def unique_live_def all_consistent_def sample_push_world_def
      sample_push_sub_def sample_defs empty_db_def sub_refs_def delivery_refs_def id_defs)

text \<open>After the endpoint of a running pusher has changed, a round leaves the pusher of the old one.\<close>

theorem push_service_round_witness:
  "\<exists>ps. startPushersOnce False good_driver None [(11, \<lparr>mpName = ''s'', mpEndpoint = ''http://old'', mpCanceled = False, mpEnded = None\<rparr>)]
     (sample_push_world ''http://new'') = (Inr (), ps, sample_push_world ''http://new'') \<and>
     (\<forall>p. (11, p) \<in> set ps \<longrightarrow> mpEndpoint p = ''http://old'')"
proof -
  let ?p = "\<lparr>mpName = ''s'', mpEndpoint = ''http://old'', mpCanceled = False, mpEnded = None\<rparr>"
  let ?s0 = "push_service_init (sample_push_world ''http://old'')"
  let ?s1 = "\<lparr>hpPushers = [(11, ?p)], hpReady = True, hpEnded = False, hpWorld = sample_push_world ''http://old''\<rparr>"
  let ?s2 = "\<lparr>hpPushers = [(11, ?p)], hpReady = True, hpEnded = False, hpWorld = sample_push_world ''http://new''\<rparr>"
  have g: "drvBegin good_driver = None" "drvCommit good_driver = None" by (simp_all add: good_driver_def)
  have "startPushersOnce False good_driver None [] (sample_push_world ''http://old'') = (Inr (), [(11, ?p)], sample_push_world ''http://old'')"
    by (subst startPushersOnce_ok[OF wf_sample_push g])
      (simp add: sample_push_world_def push_subs_def sample_push_sub_def sample_sub_def harvest_def empty_db_def
        cancel_others_def started_pusher_def push_endpoint_def)
  then have 1: "monitor_step ?s0 ?s1"
    using monitor_step.round[where s = ?s0 and ctxDone = False and drv = good_driver and queryErr = None] by (simp add: push_service_init_def)
  have 2: "monitor_step ?s1 ?s2" using monitor_step.others[of ?s1 "sample_push_world ''http://new''"] by simp
  have reach: "monitor_step\<^sup>*\<^sup>* ?s0 ?s2" using 1 2 by (rule rtranclp.rtrancl_into_rtrancl[OF r_into_rtranclp])
  have f: "hpPushers ?s2 = [(11, ?p)]" "hpWorld ?s2 = sample_push_world ''http://new''" by simp_all
  have wf: "wf_db (wDb (hpWorld ?s2))" by (simp add: wf_sample_push)
  from push_service_round[OF reach wf g, unfolded f]
  obtain ps where ps: "startPushersOnce False good_driver None [(11, ?p)] (sample_push_world ''http://new'') =
        (Inr (), ps, sample_push_world ''http://new'')" "distinct (map fst ps)"
      and x: "\<forall>x\<in>set (push_subs (wDb (sample_push_world ''http://new''))). \<exists>p. (sID x, p) \<in> set ps \<and>
       (if \<exists>q. (sID x, q) \<in> set [(11, ?p)] \<and> \<not> pusher_done q then (sID x, p) \<in> set [(11, ?p)] else (sID x, p) = started_pusher x)"
    by blast
  have "(11, ?p) \<in> set ps"
    using x by (simp add: sample_push_world_def push_subs_def sample_push_sub_def sample_sub_def empty_db_def pusher_done_def)
  then have "mpEndpoint p = ''http://old''" if "(11, p) \<in> set ps" for p
    using eq_key_imp_eq_value[OF ps(2) that] by auto
  with ps(1) show ?thesis by blast
qed

end
