(* ===== verification/SwaggerUi.thy ===== *)
theory SwaggerUi
  imports JsRuntime
begin

text \<open>
  The API browser: the page script \<open>internal/swagger-ui/ui/swagger-initializer.js\<close>, the upstream
  script it replaces, the handler that serves the page's configuration
  (\<open>internal/swagger-ui/config-handler.go\<close>) and its mount points in \<open>cmd/mmmbbb/main.go\<close>. The
  bundle that draws the page is a third-party library: a function of the configuration.
\<close>

subsection \<open>The page script\<close>

definition initializer_config :: jsvalue where
  "initializer_config = js_object
     [Prop ''configUrl'' (JStr ''../oas-ui-config''),
      Prop ''dom_id'' (JStr ''#swagger-ui''),
      Prop ''deepLinking'' (JBool True),
      Prop ''layout'' (JStr ''StandaloneLayout''),
      Prop ''displayOperationId'' (JBool True),
      Prop ''docExpansion'' (JStr ''none''),
      Prop ''queryConfigEnabled'' (JBool True),
      Prop ''showCommonExtensions'' (JBool True),
      Prop ''tryItOutEnabled'' (JBool True),
      Prop ''withCredentials'' (JBool True),
      Prop ''validatorUrl'' JNull,
      Prop ''presets'' (JArr [JExt ''SwaggerUIBundle.presets.apis'', JExt ''SwaggerUIStandalonePreset'']),
      Prop ''plugins'' (JArr [JExt ''SwaggerUIBundle.plugins.DownloadUrl'']),
      Prop ''layout'' (JStr ''StandaloneLayout'')]"

definition initializer_orig_config :: jsvalue where
  "initializer_orig_config = js_object
     [Prop ''url'' (JStr ''https://petstore.swagger.io/v2/swagger.json''),
      Prop ''dom_id'' (JStr ''#swagger-ui''),
      Prop ''deepLinking'' (JBool True),
      Prop ''presets'' (JArr [JExt ''SwaggerUIBundle.presets.apis'', JExt ''SwaggerUIStandalonePreset'']),
      Prop ''plugins'' (JArr [JExt ''SwaggerUIBundle.plugins.DownloadUrl'']),
      Prop ''layout'' (JStr ''StandaloneLayout'')]"

text \<open>The script installs a handler; when the page has loaded, the handler sets \<open>window.ui\<close>.\<close>

record 'ui window =
  winUi :: "'ui option"
  winOnload :: "('ui option \<Rightarrow> 'ui option) option"

definition initializer_script :: "(jsvalue \<Rightarrow> 'ui) \<Rightarrow> 'ui window \<Rightarrow> 'ui window" where
  "initializer_script SwaggerUIBundle w = w\<lparr>winOnload := Some (\<lambda>_. Some (SwaggerUIBundle initializer_config))\<rparr>"

definition initializer_orig_script :: "(jsvalue \<Rightarrow> 'ui) \<Rightarrow> 'ui window \<Rightarrow> 'ui window" where
  "initializer_orig_script SwaggerUIBundle w =
     w\<lparr>winOnload := Some (\<lambda>_. Some (SwaggerUIBundle initializer_orig_config))\<rparr>"

definition load_event :: "'ui window \<Rightarrow> 'ui window" where
  "load_event w = (case winOnload w of None \<Rightarrow> w | Some h \<Rightarrow> w\<lparr>winUi := h (winUi w)\<rparr>)"

subsection \<open>The configuration handler\<close>

text \<open>A Go \<open>map[string]any\<close> is a map; the handler answers every request with the same document.\<close>

definition ConfigLoadingPath :: string where
  "ConfigLoadingPath = ''/oas-ui-config''"

definition defaultConfig :: "string \<rightharpoonup> jsvalue" where
  "defaultConfig = [''url'' \<mapsto> JStr ''../oas/openapi.yaml'']"

definition CustomConfigHandler :: "((string \<rightharpoonup> jsvalue) \<Rightarrow> (string \<rightharpoonup> jsvalue)) \<Rightarrow> (string \<rightharpoonup> jsvalue)" where
  "CustomConfigHandler customizer = customizer defaultConfig"

definition DefaultConfigHandler :: "string \<rightharpoonup> jsvalue" where
  "DefaultConfigHandler = CustomConfigHandler (\<lambda>config. config)"

text \<open>The customisation and the routes that the application sets up.\<close>

definition config_customizer :: "string \<Rightarrow> (string \<rightharpoonup> jsvalue) \<Rightarrow> (string \<rightharpoonup> jsvalue)" where
  "config_customizer appName config =
     (let url = (case config ''url'' of Some v \<Rightarrow> v | None \<Rightarrow> JNull) in
      (config(''urls'' \<mapsto> JArr
        [JObj [(''url'', url), (''name'', JStr appName)],
         JObj [(''url'', JStr ''../oas-grpc/pubsub.swagger.json''), (''name'', JStr ''grpc:pubsub'')],
         JObj [(''url'', JStr ''../oas-grpc/schema.swagger.json''), (''name'', JStr ''grpc:schema'')]]))(''url'' := None))"

text \<open>A tree of files that are embedded in the program, by the name of its directory, or a route of its own.\<close>

datatype mount = StaticFS string "string list" | GET string

definition uiFS :: "string list" where
  "uiFS = [''favicon-16x16.png'', ''favicon-32x32.png'', ''index.css'', ''index.html'', ''swagger-initializer.js'',
     ''swagger-initializer.orig.js'', ''swagger-ui-bundle.js'', ''swagger-ui-standalone-preset.js'', ''swagger-ui.css'']"

definition OpenAPIFS :: "string list" where
  "OpenAPIFS = [''openapi.yaml'']"

definition SwaggerFS :: "string list" where
  "SwaggerFS = [''pubsub.swagger.json'', ''schema.swagger.json'']"

definition mounts :: "mount list" where
  "mounts = [StaticFS ''/oas-ui'' uiFS, GET ConfigLoadingPath, StaticFS ''/oas'' OpenAPIFS, StaticFS ''/oas-grpc'' SwaggerFS]"

fun mount_serves :: "string \<Rightarrow> mount \<Rightarrow> bool" where
  "mount_serves path (StaticFS dir files) = list_ex (\<lambda>f. path = dir @ ''/'' @ f) files"
| "mount_serves path (GET p) = (path = p)"

subsection \<open>Relative references\<close>

text \<open>
  A browser resolves a relative path against the path of the page: the last segment of the
  page is dropped and dot segments are taken away, never beyond the root.
\<close>

fun split_slash :: "string \<Rightarrow> string \<Rightarrow> string list" where
  "split_slash [] acc = [acc]"
| "split_slash (c # cs) acc = (if c = CHR ''/'' then acc # split_slash cs [] else split_slash cs (acc @ [c]))"

fun join_slash :: "string list \<Rightarrow> string" where
  "join_slash [] = []"
| "join_slash [x] = x"
| "join_slash (x # xs) = x @ CHR ''/'' # join_slash xs"

definition step_segment :: "string \<Rightarrow> string list \<Rightarrow> string list" where
  "step_segment seg base =
     (if seg = ''..'' then (if length base \<le> 1 then base else butlast base)
      else if seg = ''.'' then base
      else base @ [seg])"

definition resolve_path :: "string \<Rightarrow> string \<Rightarrow> string" where
  "resolve_path page ref =
     (if take 1 ref = ''/'' then ref
      else join_slash (fold step_segment (split_slash ref []) (butlast (split_slash page []))))"

text \<open>The two functions on segments are inverse to each other.\<close>

lemma split_slash_nonempty: "split_slash s acc \<noteq> []"
  by (induction s acc rule: split_slash.induct) auto

lemma join_split_slash: "join_slash (split_slash s acc) = acc @ s"
proof (induction s acc rule: split_slash.induct)
  case (2 c cs acc)
  show ?case
  proof (cases "c = CHR ''/''")
    case True
    obtain x xs where "split_slash cs [] = x # xs" using split_slash_nonempty by (meson neq_Nil_conv)
    with 2 True show ?thesis by auto
  qed (use 2 in simp)
qed simp

definition js_string :: "jsvalue \<Rightarrow> string" where
  "js_string v = (case v of JStr s \<Rightarrow> s | _ \<Rightarrow> [])"

fun js_elements :: "jsvalue \<Rightarrow> jsvalue list" where
  "js_elements (JArr vs) = vs"
| "js_elements v = []"

text \<open>
  A reference of one step up, seen from a page in a directory: whatever the path before the
  directory is, the last two segments of the page are replaced.
\<close>

lemma split_slash_append:
  "split_slash (xs @ CHR ''/'' # ys) acc = split_slash xs acc @ split_slash ys []"
  by (induction xs acc rule: split_slash.induct) auto

lemma split_slash_single: "CHR ''/'' \<notin> set s \<Longrightarrow> split_slash s acc = [acc @ s]"
  by (induction s acc rule: split_slash.induct) auto

lemma join_slash_append:
  "xs \<noteq> [] \<Longrightarrow> ys \<noteq> [] \<Longrightarrow> join_slash (xs @ ys) = join_slash xs @ ''/'' @ join_slash ys"
  by (induction xs rule: join_slash.induct) (auto simp: neq_Nil_conv)

lemma resolve_up:
  assumes "CHR ''/'' \<notin> set dir" and "CHR ''/'' \<notin> set file"
    and "split_slash ref [] = ''..'' # segs" and "segs \<noteq> []" and "\<forall>seg\<in>set segs. seg \<noteq> ''..'' \<and> seg \<noteq> ''.''"
    and "take 1 ref \<noteq> ''/''"
  shows "resolve_path (base @ ''/'' @ dir @ ''/'' @ file) ref = base @ ''/'' @ join_slash segs"
proof -
  have page: "butlast (split_slash (base @ ''/'' @ dir @ ''/'' @ file) []) = split_slash base [] @ [dir]"
    by (simp add: split_slash_append split_slash_single[OF assms(1)] split_slash_single[OF assms(2)] butlast_append)
  have "\<forall>seg\<in>set segs. seg \<noteq> ''..'' \<and> seg \<noteq> ''.'' \<Longrightarrow> fold step_segment segs bs = bs @ segs" for bs
    by (induction segs arbitrary: bs) (simp_all add: step_segment_def)
  then have "fold step_segment (split_slash ref []) (split_slash base [] @ [dir]) = split_slash base [] @ segs"
    using assms(3,5) split_slash_nonempty[of base "[]"] by (simp add: step_segment_def)
  then show ?thesis
    using assms(4,6) page join_slash_append[OF split_slash_nonempty assms(4), of base "[]"] join_split_slash[of base "[]"]
    by (simp add: resolve_path_def)
qed

text \<open>
  Property C34. The API browser finds its way wherever the application is mounted. For any path in
  front of the application's routes, as a reverse proxy may add it, and any page of the tree
  \<open>/oas-ui\<close>: the configuration with which the page script sets up the interface names, seen from the
  page, the route of the configuration handler, and every document that the handler's answer lists
  resolves to a file that the application embeds and serves there; the list starts with the
  application's own document under the application's name, and replaces the single address. Every
  setting of the upstream script is kept but the address of the upstream demo. This is about what
  the browser loads: which server the interface then calls is up to the documents.
\<close>

theorem initializer_correct:
  assumes "CHR ''/'' \<notin> set file"
  shows "\<exists>config urls. winUi (load_event (initializer_script SwaggerUIBundle w)) = Some (SwaggerUIBundle config) \<and>
     resolve_path (base @ ''/oas-ui/'' @ file) (js_string (js_get config ''configUrl'')) = base @ ConfigLoadingPath \<and>
     list_ex (mount_serves ConfigLoadingPath) mounts \<and>
     js_get config ''url'' = JUndefined \<and>
     (\<forall>(k, v)\<in>set (js_entries initializer_orig_config). k \<noteq> ''url'' \<longrightarrow> js_get config k = v) \<and>
     CustomConfigHandler (config_customizer appName) ''url'' = None \<and>
     CustomConfigHandler (config_customizer appName) ''urls'' = Some (JArr urls) \<and>
     map (\<lambda>u. js_get u ''name'') urls = map JStr [appName, ''grpc:pubsub'', ''grpc:schema''] \<and>
     (\<forall>u\<in>set urls. \<exists>path. resolve_path (base @ ''/oas-ui/'' @ file) (js_string (js_get u ''url'')) = base @ path \<and>
        list_ex (mount_serves path) mounts)"
proof -
  have dir: "CHR ''/'' \<notin> set ''oas-ui''" by simp
  define page where "page = base @ ''/oas-ui/'' @ file"
  have up: "resolve_path page ref = base @ ''/'' @ join_slash segs"
    if "split_slash ref [] = ''..'' # segs" "segs \<noteq> []" "\<forall>seg\<in>set segs. seg \<noteq> ''..'' \<and> seg \<noteq> ''.''"
      "take 1 ref \<noteq> ''/''" for ref segs
    using resolve_up[OF dir assms that, of base] by (simp add: page_def)
  have cfg: "resolve_path page ''../oas-ui-config'' = base @ ''/oas-ui-config''"
    using up[of "''../oas-ui-config''" "[''oas-ui-config'']"] by simp
  have docs: "resolve_path page ''../oas/openapi.yaml'' = base @ ''/oas/openapi.yaml''"
    "resolve_path page ''../oas-grpc/pubsub.swagger.json'' = base @ ''/oas-grpc/pubsub.swagger.json''"
    "resolve_path page ''../oas-grpc/schema.swagger.json'' = base @ ''/oas-grpc/schema.swagger.json''"
    using up[of "''../oas/openapi.yaml''" "[''oas'', ''openapi.yaml'']"]
      up[of "''../oas-grpc/pubsub.swagger.json''" "[''oas-grpc'', ''pubsub.swagger.json'']"]
      up[of "''../oas-grpc/schema.swagger.json''" "[''oas-grpc'', ''schema.swagger.json'']"] by simp_all
  let ?urls = "[JObj [(''url'', JStr ''../oas/openapi.yaml''), (''name'', JStr appName)],
     JObj [(''url'', JStr ''../oas-grpc/pubsub.swagger.json''), (''name'', JStr ''grpc:pubsub'')],
     JObj [(''url'', JStr ''../oas-grpc/schema.swagger.json''), (''name'', JStr ''grpc:schema'')]]"
  have served: "\<forall>u\<in>set ?urls. \<exists>path. resolve_path page (js_string (js_get u ''url'')) = base @ path \<and>
      list_ex (mount_serves path) mounts"
    by (simp add: js_get_def js_string_def docs mounts_def OpenAPIFS_def SwaggerFS_def ConfigLoadingPath_def)
  have conf: "CustomConfigHandler (config_customizer appName) ''url'' = None"
    "CustomConfigHandler (config_customizer appName) ''urls'' = Some (JArr ?urls)"
    by (simp_all add: CustomConfigHandler_def config_customizer_def defaultConfig_def)
  have kept: "\<forall>(k, v)\<in>set (js_entries initializer_orig_config). k \<noteq> ''url'' \<longrightarrow> js_get initializer_config k = v"
    "js_get initializer_config ''url'' = JUndefined" "js_get initializer_config ''configUrl'' = JStr ''../oas-ui-config''"
    by (simp_all add: initializer_config_def initializer_orig_config_def js_object_def js_get_def)
  show ?thesis
    unfolding page_def[symmetric]
    by (rule exI[of _ initializer_config], rule exI[of _ ?urls], intro conjI)
      (use conf served kept cfg in \<open>simp_all add: load_event_def initializer_script_def js_string_def ConfigLoadingPath_def
        mounts_def js_get_def\<close>)
qed

theorem initializer_correct_witness:
  "\<exists>config urls. winUi (load_event (initializer_script (\<lambda>config. config) \<lparr>winUi = None, winOnload = None\<rparr>)) = Some config \<and>
     resolve_path ''/proxy/oas-ui/index.html'' (js_string (js_get config ''configUrl'')) = ''/proxy/oas-ui-config'' \<and>
     CustomConfigHandler (config_customizer ''mmmbbb'') ''urls'' = Some (JArr urls) \<and> length urls = 3"
proof -
  have f: "CHR ''/'' \<notin> set ''index.html''" by simp
  obtain config urls where c: "winUi (load_event (initializer_script (\<lambda>config. config) \<lparr>winUi = None, winOnload = None\<rparr>)) = Some config"
      "resolve_path (''/proxy'' @ ''/oas-ui/'' @ ''index.html'') (js_string (js_get config ''configUrl'')) = ''/proxy'' @ ConfigLoadingPath"
      "CustomConfigHandler (config_customizer ''mmmbbb'') ''urls'' = Some (JArr urls)"
      "map (\<lambda>u. js_get u ''name'') urls = map JStr [''mmmbbb'', ''grpc:pubsub'', ''grpc:schema'']"
    using initializer_correct[OF f, of "\<lambda>config. config" "\<lparr>winUi = None, winOnload = None\<rparr>" "''/proxy''" "''mmmbbb''"] by blast
  have "length urls = 3" using arg_cong[OF c(4), of length] by simp
  moreover have "resolve_path ''/proxy/oas-ui/index.html'' (js_string (js_get config ''configUrl'')) = ''/proxy/oas-ui-config''"
    using c(2) by (simp add: ConfigLoadingPath_def)
  ultimately show ?thesis using c(1,3) by blast
qed

end
