(* ===== verification/Faults.thy ===== *)
theory Faults
  imports Prelude
begin

text \<open>
  Fault injection, the package \<open>faults\<close>: a set of descriptions of faults, each to be run a number of
  times, that concurrent calls look through. Descriptions are shared through pointers, which are
  indices into a list of all descriptions ever added. A call is a program counter; its steps are
  the search under the read lock, the atomic decrement, and the run of the fault. Pruning runs in a
  goroutine of its own. What a fault does is given by the environment. The counters are 64 bit
  integers in the code and unbounded here: they fall below zero only by one for every call that
  lost a race. The metrics are left out, except for the log of what was run.
\<close>

subsection \<open>Descriptions\<close>

type_synonym parameters = "(string \<times> string) list"

record description =
  fdOperation :: string
  fdParameters :: parameters
  fdCount :: int
  fdFaultDescription :: string

definition Description_match :: "description \<Rightarrow> string \<Rightarrow> parameters \<Rightarrow> bool" where
  "Description_match d op params \<longleftrightarrow>
     (if fdCount d \<le> 0 then False
      else if fdOperation d \<noteq> op then False
      else list_all (\<lambda>(p, v). case map_of params p of None \<Rightarrow> False | Some vv \<Rightarrow> vv = v) (fdParameters d))"

subsection \<open>The set\<close>

datatype check =
    CMatch string parameters bool
  | CGot nat string parameters bool
  | CFire nat string parameters bool
  | CDone "err option"

text \<open>\<open>fsAdded\<close> and \<open>fsRun\<close> record the descriptions as they were added and the faults that were run.\<close>

record faultSet =
  fsHeap :: "description list"
  fsFaults :: "string \<Rightarrow> nat list"
  fsChecks :: "check list"
  fsPrunes :: nat
  fsAdded :: "description list"
  fsRun :: "(nat \<times> string \<times> parameters) list"

definition NewSet :: faultSet where
  "NewSet = \<lparr>fsHeap = [], fsFaults = (\<lambda>_. []), fsChecks = [], fsPrunes = 0, fsAdded = [], fsRun = []\<rparr>"

definition Set_match :: "string \<Rightarrow> parameters \<Rightarrow> faultSet \<Rightarrow> nat option" where
  "Set_match op params s = find (\<lambda>i. Description_match (fsHeap s ! i) op params) (fsFaults s op)"

definition Set_prune :: "faultSet \<Rightarrow> faultSet" where
  "Set_prune s = s\<lparr>fsFaults := (\<lambda>op. filter (\<lambda>i. fdCount (fsHeap s ! i) > 0) (fsFaults s op))\<rparr>"

definition Set_Add :: "description \<Rightarrow> faultSet \<Rightarrow> faultSet" where
  "Set_Add d s = s\<lparr>fsHeap := fsHeap s @ [d], fsAdded := fsAdded s @ [d],
     fsFaults := (fsFaults s)(fdOperation d := fsFaults s (fdOperation d) @ [length (fsHeap s)])\<rparr>"

definition Set_Current :: "faultSet \<Rightarrow> string \<Rightarrow> description list" where
  "Set_Current s op = filter (\<lambda>d. fdCount d > 0) (map (\<lambda>i. fsHeap s ! i) (fsFaults s op))"

definition decrement :: "nat \<Rightarrow> faultSet \<Rightarrow> faultSet" where
  "decrement i s = s\<lparr>fsHeap := (fsHeap s)[i := (fsHeap s ! i)\<lparr>fdCount := fdCount (fsHeap s ! i) - 1\<rparr>]\<rparr>"

text \<open>The steps of a call: one search, one decrement, one run. The flag says whether to prune in the end.\<close>

definition check_search :: "string \<Rightarrow> parameters \<Rightarrow> bool \<Rightarrow> faultSet \<Rightarrow> check" where
  "check_search op params prune s = (case Set_match op params s of None \<Rightarrow> CDone None | Some i \<Rightarrow> CGot i op params prune)"

definition check_decremented :: "nat \<Rightarrow> string \<Rightarrow> parameters \<Rightarrow> bool \<Rightarrow> int \<Rightarrow> check" where
  "check_decremented i op params prune remaining =
     (if remaining < 0 then CMatch op params True else CFire i op params (prune \<or> remaining \<le> 0))"

inductive fault_step :: "faultSet \<Rightarrow> faultSet \<Rightarrow> bool" where
  add: "fault_step s (Set_Add d s)"
| call: "fault_step s (s\<lparr>fsChecks := fsChecks s @ [CMatch op params False]\<rparr>)"
| search: "fsChecks s = xs @ CMatch op params prune # ys \<Longrightarrow>
    fault_step s (s\<lparr>fsChecks := xs @ check_search op params prune s # ys\<rparr>)"
| count: "fsChecks s = xs @ CGot i op params prune # ys \<Longrightarrow>
    fault_step s ((decrement i s)\<lparr>fsChecks := xs @ check_decremented i op params prune (fdCount (fsHeap s ! i) - 1) # ys\<rparr>)"
| run: "fsChecks s = xs @ CFire i op params prune # ys \<Longrightarrow>
    fault_step s (s\<lparr>fsChecks := xs @ CDone r # ys, fsRun := (i, op, params) # fsRun s,
      fsPrunes := fsPrunes s + (if prune then 1 else 0)\<rparr>)"
| prune: "fsPrunes s = Suc n \<Longrightarrow> fault_step s ((Set_prune s)\<lparr>fsPrunes := n\<rparr>)"

subsection \<open>Every fault runs as often as it was asked for\<close>

definition about_to_run :: "nat \<Rightarrow> check \<Rightarrow> bool" where
  "about_to_run i c = (case c of CFire j op params prune \<Rightarrow> j = i | _ \<Rightarrow> False)"

definition runs :: "faultSet \<Rightarrow> nat \<Rightarrow> nat" where
  "runs s i = length (filter (\<lambda>(j, op, params). j = i) (fsRun s))"

definition wants :: "description \<Rightarrow> string \<Rightarrow> parameters \<Rightarrow> bool" where
  "wants d op params \<longleftrightarrow> fdOperation d = op \<and> (\<forall>(p, v)\<in>set (fdParameters d). map_of params p = Some v)"

definition check_ok :: "description list \<Rightarrow> check \<Rightarrow> bool" where
  "check_ok ds c = (case c of
     CGot i op params prune \<Rightarrow> i < length ds \<and> wants (ds ! i) op params
   | CFire i op params prune \<Rightarrow> i < length ds \<and> wants (ds ! i) op params
   | _ \<Rightarrow> True)"

definition same_but_count :: "description \<Rightarrow> description \<Rightarrow> bool" where
  "same_but_count d d' \<longleftrightarrow> fdOperation d' = fdOperation d \<and> fdParameters d' = fdParameters d"

definition account :: "faultSet \<Rightarrow> nat \<Rightarrow> nat" where
  "account s i = runs s i + length (filter (about_to_run i) (fsChecks s))"

definition fault_inv :: "faultSet \<Rightarrow> bool" where
  "fault_inv s \<longleftrightarrow> list_all2 same_but_count (fsAdded s) (fsHeap s) \<and>
     (\<forall>i<length (fsHeap s). account s i + nat (fdCount (fsHeap s ! i)) = nat (fdCount (fsAdded s ! i))) \<and>
     (\<forall>i<length (fsHeap s). fdCount (fsHeap s ! i) > 0 \<longrightarrow> i \<in> set (fsFaults s (fdOperation (fsHeap s ! i)))) \<and>
     (\<forall>op. \<forall>i\<in>set (fsFaults s op). i < length (fsHeap s)) \<and>
     (\<forall>c\<in>set (fsChecks s). check_ok (fsAdded s) c) \<and>
     (\<forall>(i, op, params)\<in>set (fsRun s). i < length (fsAdded s) \<and> wants (fsAdded s ! i) op params)"

lemma check_ok_mono: "check_ok ds c \<Longrightarrow> check_ok (ds @ es) c"
  by (auto simp: check_ok_def nth_append split: check.split)

lemma Description_match_wants: "Description_match d op params \<Longrightarrow> same_but_count d0 d \<Longrightarrow> wants d0 op params"
  by (force simp: Description_match_def wants_def same_but_count_def list_all_iff split: if_split_asm option.split_asm)

lemma search_ok:
  assumes "fault_inv s"
  shows "check_ok (fsAdded s) (check_search op params prune s)"
proof (cases "Set_match op params s")
  case None
  then show ?thesis by (simp add: check_search_def check_ok_def)
next
  case (Some i)
  then have i: "i \<in> set (fsFaults s op)" and m: "Description_match (fsHeap s ! i) op params"
    by (auto simp: Set_match_def find_Some_iff)
  have "i < length (fsHeap s)" using assms i by (simp add: fault_inv_def)
  then have "i < length (fsAdded s)" "same_but_count (fsAdded s ! i) (fsHeap s ! i)"
    using assms by (simp_all add: fault_inv_def list_all2_conv_all_nth)
  then show ?thesis using Some Description_match_wants[OF m] by (simp add: check_search_def check_ok_def)
qed

lemma not_about_to_run [simp]: "\<not> about_to_run i (check_search op params prune s)" "\<not> about_to_run i (CDone r)"
  "\<not> about_to_run i (CMatch op params prune)" "\<not> about_to_run i (CGot j op params prune)"
  "about_to_run i (CFire j op params prune) \<longleftrightarrow> j = i"
  by (simp_all add: about_to_run_def check_search_def split: option.split)

text \<open>A step of a call that leaves the descriptions alone.\<close>

lemma fault_inv_same_heap:
  assumes "fault_inv s" and "fsHeap s' = fsHeap s" and "fsAdded s' = fsAdded s" and "fsFaults s' = fsFaults s"
    and "\<And>i. account s' i = account s i" and "\<And>c. c \<in> set (fsChecks s') \<Longrightarrow> check_ok (fsAdded s) c"
    and "\<And>i op params. (i, op, params) \<in> set (fsRun s') \<Longrightarrow> i < length (fsAdded s) \<and> wants (fsAdded s ! i) op params"
  shows "fault_inv s'"
  using assms by (auto simp: fault_inv_def)

lemma fault_inv_add:
  assumes "fault_inv s"
  shows "fault_inv (Set_Add d s)"
proof -
  let ?n = "length (fsHeap s)"
  have len: "length (fsAdded s) = ?n" using assms by (auto simp: fault_inv_def dest: list_all2_lengthD)
  have "runs s ?n = 0" using assms len by (auto simp: fault_inv_def runs_def filter_empty_conv)
  moreover have "filter (about_to_run ?n) (fsChecks s) = []"
    using assms len by (auto simp: fault_inv_def filter_empty_conv about_to_run_def check_ok_def split: check.split)
  ultimately have "account s ?n = 0" by (simp add: account_def)
  moreover have "account (Set_Add d s) i = account s i" for i by (simp add: account_def runs_def Set_Add_def)
  ultimately have acc: "account (Set_Add d s) i + nat (fdCount (fsHeap (Set_Add d s) ! i)) = nat (fdCount (fsAdded (Set_Add d s) ! i))"
    if "i < Suc ?n" for i
    using that assms len by (auto simp: fault_inv_def Set_Add_def nth_append less_Suc_eq)
  show ?thesis
    unfolding fault_inv_def
  proof (intro conjI)
    show "list_all2 same_but_count (fsAdded (Set_Add d s)) (fsHeap (Set_Add d s))"
      using assms by (auto simp: fault_inv_def Set_Add_def same_but_count_def intro: list_all2_appendI)
    show "\<forall>i<length (fsHeap (Set_Add d s)). fdCount (fsHeap (Set_Add d s) ! i) > 0 \<longrightarrow>
        i \<in> set (fsFaults (Set_Add d s) (fdOperation (fsHeap (Set_Add d s) ! i)))"
      using assms by (auto simp: fault_inv_def Set_Add_def nth_append less_Suc_eq)
    show "\<forall>op. \<forall>i\<in>set (fsFaults (Set_Add d s) op). i < length (fsHeap (Set_Add d s))"
      using assms by (auto simp: fault_inv_def Set_Add_def less_Suc_eq split: if_split_asm)
    show "\<forall>c\<in>set (fsChecks (Set_Add d s)). check_ok (fsAdded (Set_Add d s)) c"
      using assms by (auto simp: fault_inv_def Set_Add_def intro: check_ok_mono)
    show "\<forall>(i, op, params)\<in>set (fsRun (Set_Add d s)). i < length (fsAdded (Set_Add d s)) \<and> wants (fsAdded (Set_Add d s) ! i) op params"
      using assms by (auto simp: fault_inv_def Set_Add_def nth_append)
  qed (use acc in \<open>simp add: Set_Add_def\<close>)
qed

lemma fault_inv_count:
  assumes "fault_inv s" and "fsChecks s = xs @ CGot i op params prune # ys"
  shows "fault_inv ((decrement i s)\<lparr>fsChecks := xs @ check_decremented i op params prune (fdCount (fsHeap s ! i) - 1) # ys\<rparr>)"
    (is "fault_inv ?s")
proof -
  have i: "i < length (fsAdded s)" "wants (fsAdded s ! i) op params"
    using assms by (auto simp: fault_inv_def check_ok_def)
  have len: "length (fsAdded s) = length (fsHeap s)" using assms(1) by (auto simp: fault_inv_def dest: list_all2_lengthD)
  have acc: "account ?s j + nat (fdCount (fsHeap ?s ! j)) = account s j + nat (fdCount (fsHeap s ! j))" if "j < length (fsHeap s)" for j
    using that assms(2) by (cases "j = i") (auto simp: account_def runs_def decrement_def check_decremented_def)
  have same: "fdOperation (fsHeap ?s ! j) = fdOperation (fsHeap s ! j)" "fdCount (fsHeap ?s ! j) \<le> fdCount (fsHeap s ! j)"
      "fdParameters (fsHeap ?s ! j) = fdParameters (fsHeap s ! j)" if "j < length (fsHeap s)" for j
    using that by (cases "j = i"; simp add: decrement_def)+
  have fields: "length (fsHeap ?s) = length (fsHeap s)" "fsAdded ?s = fsAdded s" "fsFaults ?s = fsFaults s" "fsRun ?s = fsRun s"
    by (simp_all add: decrement_def)
  have "\<forall>j<length (fsHeap s). fdCount (fsHeap ?s ! j) > 0 \<longrightarrow> j \<in> set (fsFaults s (fdOperation (fsHeap ?s ! j)))"
    using assms(1) same(1,2) by (fastforce simp: fault_inv_def)
  moreover have "list_all2 same_but_count (fsAdded s) (fsHeap ?s)"
    using assms(1) same(1,3) fields(1) by (simp add: fault_inv_def list_all2_conv_all_nth same_but_count_def)
  moreover have "\<forall>c\<in>set (fsChecks ?s). check_ok (fsAdded s) c"
    using assms i by (auto simp: fault_inv_def check_decremented_def check_ok_def)
  ultimately show ?thesis
    using assms(1) acc unfolding fault_inv_def fields by simp
qed

lemma fault_inv_step: "fault_step s s' \<Longrightarrow> fault_inv s \<Longrightarrow> fault_inv s'"
proof (induction rule: fault_step.induct)
  case (add s d)
  then show ?case by (rule fault_inv_add)
next
  case (call s op params)
  then show ?case
    by (intro fault_inv_same_heap[OF call]) (auto simp: fault_inv_def account_def runs_def check_ok_def)
next
  case (search s xs op params prune ys)
  then show ?case
    using search_ok[OF search(2)]
    by (intro fault_inv_same_heap[OF search(2)]) (auto simp: fault_inv_def account_def runs_def)
next
  case (count s xs i op params prune ys)
  then show ?case by (intro fault_inv_count)
next
  case (run s xs i op params prune ys r)
  have "check_ok (fsAdded s) (CFire i op params prune)" using run by (simp add: fault_inv_def)
  with run show ?case
    by (intro fault_inv_same_heap[OF run(2)]) (auto simp: fault_inv_def account_def runs_def check_ok_def[of _ "CDone r"]
        check_ok_def[of _ "CFire i op params prune"])
next
  case (prune s n)
  then show ?case by (auto simp: fault_inv_def account_def runs_def Set_prune_def)
qed

text \<open>
  Property C29. However calls interleave, a fault is run at most as often as its description asks for,
  and only for calls that it describes; while some of its runs are left, it stays in the set. When
  its count is used up and no call is about to run it, it was run exactly that often.
\<close>

theorem faults_run_exactly:
  assumes "fault_step\<^sup>*\<^sup>* NewSet s" and "i < length (fsAdded s)"
  shows "int (runs s i) \<le> max 0 (fdCount (fsAdded s ! i)) \<and>
    (\<forall>(j, op, params)\<in>set (fsRun s). j = i \<longrightarrow> wants (fsAdded s ! i) op params) \<and>
    (fdCount (fsHeap s ! i) > 0 \<longrightarrow> i \<in> set (fsFaults s (fdOperation (fsAdded s ! i)))) \<and>
    (fdCount (fsHeap s ! i) \<le> 0 \<and> filter (about_to_run i) (fsChecks s) = [] \<longrightarrow>
       int (runs s i) = max 0 (fdCount (fsAdded s ! i)))"
proof -
  have inv: "fault_inv s"
    using assms(1)
  proof (induction rule: rtranclp_induct)
    case base
    then show ?case by (simp add: fault_inv_def NewSet_def)
  next
    case (step s s')
    then show ?case by (blast intro: fault_inv_step)
  qed
  then have i: "i < length (fsHeap s)" "fdOperation (fsHeap s ! i) = fdOperation (fsAdded s ! i)"
    using assms(2) by (auto simp: fault_inv_def list_all2_conv_all_nth same_but_count_def)
  have acc: "account s i + nat (fdCount (fsHeap s ! i)) = nat (fdCount (fsAdded s ! i))"
    "fdCount (fsHeap s ! i) > 0 \<longrightarrow> i \<in> set (fsFaults s (fdOperation (fsAdded s ! i)))"
    using inv i by (auto simp: fault_inv_def)
  have "\<forall>(j, op, params)\<in>set (fsRun s). j = i \<longrightarrow> wants (fsAdded s ! i) op params"
    using inv by (auto simp: fault_inv_def)
  with acc show ?thesis by (auto simp: account_def)
qed

text \<open>One fault, asked for once, and two calls that both find it: one of them runs it.\<close>

definition sample_fault :: description where
  "sample_fault = \<lparr>fdOperation = ''Publish'', fdParameters = [], fdCount = 1, fdFaultDescription = ''once''\<rparr>"

lemma sample_faults_run:
  "\<exists>s. fault_step\<^sup>*\<^sup>* NewSet s \<and> fsAdded s = [sample_fault] \<and> length (fsChecks s) = 2 \<and> runs s 0 = 1 \<and> fdCount (fsHeap s ! 0) = - 1 \<and>
     filter (about_to_run 0) (fsChecks s) = []"
proof -
  define f where "f = (\<lambda>n cs (rs :: (nat \<times> string \<times> parameters) list) k. \<lparr>fsHeap = [sample_fault\<lparr>fdCount := n\<rparr>],
     fsFaults = (\<lambda>op. if op = ''Publish'' then [0] else []), fsChecks = cs, fsPrunes = k, fsAdded = [sample_fault], fsRun = rs\<rparr>)"
  let ?m = "CMatch ''Publish'' [] False" and ?g = "CGot 0 ''Publish'' [] False"
  have 1: "fault_step NewSet (f 1 [] [] 0)"
    using fault_step.add[of NewSet sample_fault] by (simp add: NewSet_def Set_Add_def f_def sample_fault_def fun_upd_def)
  have 2: "fault_step (f 1 cs [] 0) (f 1 (cs @ [?m]) [] 0)" for cs using fault_step.call[of "f 1 cs [] 0"] by (simp add: f_def)
  have hit: "check_search ''Publish'' [] False (f 1 cs [] 0) = ?g" for cs
    by (simp add: check_search_def Set_match_def f_def Description_match_def sample_fault_def)
  have 3: "fault_step (f 1 [?m, ?m] [] 0) (f 1 [?g, ?m] [] 0)"
    using fault_step.search[of "f 1 [?m, ?m] [] 0" "[]" "''Publish''" "[]" False "[?m]"] hit by (simp add: f_def)
  have 4: "fault_step (f 1 [?g, ?m] [] 0) (f 1 [?g, ?g] [] 0)"
    using fault_step.search[of "f 1 [?g, ?m] [] 0" "[?g]" "''Publish''" "[]" False "[]"] hit by (simp add: f_def)
  have 5: "fault_step (f 1 [?g, ?g] [] 0) (f 0 [CFire 0 ''Publish'' [] True, ?g] [] 0)"
    using fault_step.count[of "f 1 [?g, ?g] [] 0" "[]" 0 "''Publish''" "[]" False "[?g]"]
    by (simp add: f_def decrement_def check_decremented_def sample_fault_def)
  have 6: "fault_step (f 0 [CFire 0 ''Publish'' [] True, ?g] [] 0) (f (- 1) [CFire 0 ''Publish'' [] True, CMatch ''Publish'' [] True] [] 0)"
    using fault_step.count[of "f 0 [CFire 0 ''Publish'' [] True, ?g] [] 0" "[CFire 0 ''Publish'' [] True]" 0 "''Publish''" "[]" False "[]"]
    by (simp add: f_def decrement_def check_decremented_def sample_fault_def)
  have 7: "fault_step (f (- 1) [CFire 0 ''Publish'' [] True, CMatch ''Publish'' [] True] [] 0)
      (f (- 1) [CDone None, CMatch ''Publish'' [] True] [(0, ''Publish'', [])] 1)"
    using fault_step.run[of "f (- 1) [CFire 0 ''Publish'' [] True, CMatch ''Publish'' [] True] [] 0" "[]" 0 "''Publish''" "[]" True
        "[CMatch ''Publish'' [] True]" None]
    by (simp add: f_def)
  have "fault_step\<^sup>*\<^sup>* NewSet (f (- 1) [CDone None, CMatch ''Publish'' [] True] [(0, ''Publish'', [])] 1)"
    using 1 2[of "[]"] 2[of "[?m]"] 3 4 5 6 7 by (simp add: converse_rtranclp_into_rtranclp)
  then show ?thesis by (intro exI conjI) (assumption, simp_all add: f_def runs_def)
qed

theorem faults_run_exactly_witness:
  "\<exists>s. fault_step\<^sup>*\<^sup>* NewSet s \<and> length (fsChecks s) = 2 \<and> int (runs s 0) = 1"
proof -
  obtain s where run: "fault_step\<^sup>*\<^sup>* NewSet s" "fsAdded s = [sample_fault]" "length (fsChecks s) = 2"
      "fdCount (fsHeap s ! 0) = - 1" "filter (about_to_run 0) (fsChecks s) = []"
    using sample_faults_run by blast
  have "int (runs s 0) = 1"
    using faults_run_exactly[OF run(1), of 0] run(2,4,5) by (simp add: sample_fault_def)
  with run show ?thesis by blast
qed

end
