(* ===== verification/Notifier.thy ===== *)
theory Notifier
  imports Notify
begin

text \<open>
  The notification service, \<open>services/notifier.go\<close>, which carries notifications between the processes
  of a deployment over the LISTEN and NOTIFY of PostgreSQL. The hooks that it registers with the
  in-process notifications put them into three bounded channels; a goroutine collects what is there
  into three sets and issues a \<open>pg_notify\<close> for each element; another one receives what was issued
  and wakes the readers of its process. A set is a list without duplicates. The state records what
  was issued, whether or not the database accepted it, and in how many batches. Reading and
  printing an identifier is the uuid package's, a parameter.
\<close>

subsection \<open>What is sent\<close>

record pgNotification =
  pnChannel :: string
  pnPayload :: string

definition AppName :: string where
  "AppName = ''mmmbbb''"

definition subPublishedChannelName :: string where
  "subPublishedChannelName = AppName @ ''_published_to_sub''"

definition topicModifiedChannelName :: string where
  "topicModifiedChannelName = AppName @ ''_modified_topic''"

definition subModifiedChannelName :: string where
  "subModifiedChannelName = AppName @ ''_modified_sub''"

definition published_notice :: "(uuid \<Rightarrow> string) \<Rightarrow> uuid \<Rightarrow> pgNotification" where
  "published_notice show_uuid i = \<lparr>pnChannel = subPublishedChannelName, pnPayload = show_uuid i\<rparr>"

definition modified_notice :: "string \<Rightarrow> (uuid \<Rightarrow> string) \<Rightarrow> modifyKey \<Rightarrow> pgNotification" where
  "modified_notice ch show_uuid k = \<lparr>pnChannel = ch, pnPayload = show_uuid (fst k) @ '' '' @ snd k\<rparr>"

subsection \<open>Collecting and sending\<close>

datatype collector = Waiting | Draining | Sending

record pgNotifier =
  nqPub :: "uuid list"
  nqTopic :: "modifyKey list"
  nqSub :: "modifyKey list"
  nqPn :: "uuid list"
  nqTn :: "modifyKey list"
  nqSn :: "modifyKey list"
  nqAt :: collector
  nqIssued :: "pgNotification list"
  nqBatches :: nat

definition notifier_init :: pgNotifier where
  "notifier_init = \<lparr>nqPub = [], nqTopic = [], nqSub = [], nqPn = [], nqTn = [], nqSn = [], nqAt = Waiting, nqIssued = [], nqBatches = 0\<rparr>"

definition bufferSize :: nat where
  "bufferSize = 100"

definition take_pub :: "uuid \<Rightarrow> uuid list \<Rightarrow> pgNotifier \<Rightarrow> pgNotifier" where
  "take_pub p ps n = n\<lparr>nqPub := ps, nqPn := List.insert p (nqPn n)\<rparr>"

definition take_topic :: "modifyKey \<Rightarrow> modifyKey list \<Rightarrow> pgNotifier \<Rightarrow> pgNotifier" where
  "take_topic t ts n = n\<lparr>nqTopic := ts, nqTn := List.insert t (nqTn n)\<rparr>"

definition take_sub :: "modifyKey \<Rightarrow> modifyKey list \<Rightarrow> pgNotifier \<Rightarrow> pgNotifier" where
  "take_sub s ss n = n\<lparr>nqSub := ss, nqSn := List.insert s (nqSn n)\<rparr>"

definition after_take :: "nat \<Rightarrow> collector" where
  "after_take k = (if k \<ge> bufferSize then Sending else Draining)"

text \<open>Published subscriptions are taken out of their set before they are sent; the other two sets are kept.\<close>

definition send_batch :: "(uuid \<Rightarrow> string) \<Rightarrow> pgNotifier \<Rightarrow> pgNotifier" where
  "send_batch show_uuid n = n\<lparr>nqIssued := nqIssued n @ map (published_notice show_uuid) (nqPn n) @
       map (modified_notice topicModifiedChannelName show_uuid) (nqTn n) @ map (modified_notice subModifiedChannelName show_uuid) (nqSn n),
     nqPn := [], nqBatches := Suc (nqBatches n), nqAt := Waiting\<rparr>"

inductive notifier_step :: "(uuid \<Rightarrow> string) \<Rightarrow> pgNotifier \<Rightarrow> pgNotifier \<Rightarrow> bool" for show_uuid where
  hook_pub: "length (nqPub n) < 100 \<Longrightarrow> notifier_step show_uuid n (n\<lparr>nqPub := nqPub n @ [p]\<rparr>)"
| hook_topic: "length (nqTopic n) < 10 \<Longrightarrow> notifier_step show_uuid n (n\<lparr>nqTopic := nqTopic n @ [k]\<rparr>)"
| hook_sub: "length (nqSub n) < 10 \<Longrightarrow> notifier_step show_uuid n (n\<lparr>nqSub := nqSub n @ [k]\<rparr>)"
| first_pub: "nqAt n = Waiting \<Longrightarrow> nqPub n = p # ps \<Longrightarrow> notifier_step show_uuid n ((take_pub p ps n)\<lparr>nqAt := Draining\<rparr>)"
| first_topic: "nqAt n = Waiting \<Longrightarrow> nqTopic n = t # ts \<Longrightarrow> notifier_step show_uuid n ((take_topic t ts n)\<lparr>nqAt := Draining\<rparr>)"
| first_sub: "nqAt n = Waiting \<Longrightarrow> nqSub n = s # ss \<Longrightarrow> notifier_step show_uuid n ((take_sub s ss n)\<lparr>nqAt := Draining\<rparr>)"
| more_pub: "nqAt n = Draining \<Longrightarrow> nqPub n = p # ps \<Longrightarrow>
    notifier_step show_uuid n ((take_pub p ps n)\<lparr>nqAt := after_take (length (nqPn (take_pub p ps n)))\<rparr>)"
| more_topic: "nqAt n = Draining \<Longrightarrow> nqTopic n = t # ts \<Longrightarrow>
    notifier_step show_uuid n ((take_topic t ts n)\<lparr>nqAt := after_take (length (nqTn (take_topic t ts n)))\<rparr>)"
| more_sub: "nqAt n = Draining \<Longrightarrow> nqSub n = s # ss \<Longrightarrow>
    notifier_step show_uuid n ((take_sub s ss n)\<lparr>nqAt := after_take (length (nqSn (take_sub s ss n)))\<rparr>)"
| drained: "nqAt n = Draining \<Longrightarrow> nqPub n = [] \<Longrightarrow> nqTopic n = [] \<Longrightarrow> nqSub n = [] \<Longrightarrow>
    notifier_step show_uuid n (n\<lparr>nqAt := Sending\<rparr>)"
| no_connection: "nqAt n = Sending \<Longrightarrow> notifier_step show_uuid n (n\<lparr>nqAt := Waiting\<rparr>)"
| send: "nqAt n = Sending \<Longrightarrow> notifier_step show_uuid n (send_batch show_uuid n)"

subsection \<open>Receiving\<close>

definition parseUUIDName :: "(string \<Rightarrow> err + uuid) \<Rightarrow> string \<Rightarrow> modifyKey res" where
  "parseUUIDName parse_uuid s =
     (if CHR '' '' \<notin> set s then Inl (DriverError ''no space found'')
      else map_sum id (\<lambda>i. (i, tl (dropWhile (\<lambda>c. c \<noteq> CHR '' '') s))) (parse_uuid (takeWhile (\<lambda>c. c \<noteq> CHR '' '') s)))"

text \<open>
  The calls that a notification starts, each in a goroutine of its own. A notification that cannot be
  read, or of another channel, is logged.
\<close>

datatype wake_call = WakePub uuid | WakeTopic modifyKey | WakeSub modifyKey

definition on_notification :: "(string \<Rightarrow> err + uuid) \<Rightarrow> pgNotification \<Rightarrow> wake_call list" where
  "on_notification parse_uuid n =
     (if pnChannel n = subPublishedChannelName then
        (case parse_uuid (pnPayload n) of Inl e \<Rightarrow> [] | Inr i \<Rightarrow> [WakePub i])
      else if pnChannel n = topicModifiedChannelName then
        (case parseUUIDName parse_uuid (pnPayload n) of Inl e \<Rightarrow> [] | Inr k \<Rightarrow> [WakeTopic k])
      else if pnChannel n = subModifiedChannelName then
        (case parseUUIDName parse_uuid (pnPayload n) of Inl e \<Rightarrow> [] | Inr k \<Rightarrow> [WakeSub k, WakePub (fst k)])
      else [])"

fun run_wakeup :: "wake_call \<Rightarrow> notify_state \<Rightarrow> notify_state" where
  "run_wakeup (WakePub i) st = WakePublishListeners True [i] st"
| "run_wakeup (WakeTopic k) st = WakeTopicListeners True (fst k) (snd k) st"
| "run_wakeup (WakeSub k) st = WakeSubscriptionListeners True (fst k) (snd k) st"

text \<open>
  The loop that connects again whenever a connection is lost, beside the goroutines it has started and
  the others of the process. Each connection, once it listens, wakes every reader, since notifications
  may have been missed.
\<close>

record listener =
  lsUp :: bool
  lsWakeups :: "wake_call list"
  lsNotify :: notify_state

definition runOnce_listening :: "listener \<Rightarrow> listener" where
  "runOnce_listening l = l\<lparr>lsUp := True, lsNotify := WakeAllInternal (lsNotify l)\<rparr>"

inductive listener_step :: "(string \<Rightarrow> err + uuid) \<Rightarrow> listener \<Rightarrow> listener \<Rightarrow> bool" for parse_uuid where
  connect: "\<not> lsUp l \<Longrightarrow> listener_step parse_uuid l (runOnce_listening l)"
| connection_lost: "lsUp l \<Longrightarrow> listener_step parse_uuid l (l\<lparr>lsUp := False\<rparr>)"
| receive: "lsUp l \<Longrightarrow> listener_step parse_uuid l (l\<lparr>lsWakeups := lsWakeups l @ on_notification parse_uuid n\<rparr>)"
| wake: "w \<in> set (lsWakeups l) \<Longrightarrow>
    listener_step parse_uuid l (l\<lparr>lsWakeups := remove1 w (lsWakeups l), lsNotify := run_wakeup w (lsNotify l)\<rparr>)"
| others: "notify_step (lsNotify l) st \<Longrightarrow> listener_step parse_uuid l (l\<lparr>lsNotify := st\<rparr>)"

subsection \<open>What arrives\<close>

lemma channel_names [simp]:
  "subPublishedChannelName \<noteq> topicModifiedChannelName" "subPublishedChannelName \<noteq> subModifiedChannelName"
  "topicModifiedChannelName \<noteq> subModifiedChannelName" "topicModifiedChannelName \<noteq> subPublishedChannelName"
  "subModifiedChannelName \<noteq> subPublishedChannelName" "subModifiedChannelName \<noteq> topicModifiedChannelName"
  by (simp_all add: subPublishedChannelName_def topicModifiedChannelName_def subModifiedChannelName_def AppName_def)

lemma parseUUIDName_payload:
  assumes "parse_uuid (show_uuid i) = Inr i" and "CHR '' '' \<notin> set (show_uuid i)"
  shows "parseUUIDName parse_uuid (pnPayload (modified_notice ch show_uuid (i, name))) = Inr (i, name)"
proof -
  have "takeWhile (\<lambda>c. c \<noteq> CHR '' '') (show_uuid i @ CHR '' '' # name) = show_uuid i"
    "dropWhile (\<lambda>c. c \<noteq> CHR '' '') (show_uuid i @ CHR '' '' # name) = CHR '' '' # name"
    using assms(2) by (auto simp: takeWhile_append dropWhile_append)
  with assms(1) show ?thesis by (simp add: parseUUIDName_def modified_notice_def)
qed

text \<open>Nothing that waits to be sent is forgotten.\<close>

definition outstanding_pub :: "(uuid \<Rightarrow> string) \<Rightarrow> uuid \<Rightarrow> pgNotifier \<Rightarrow> nat \<Rightarrow> bool" where
  "outstanding_pub show_uuid i n k \<longleftrightarrow> k \<le> length (nqIssued n) \<and>
     (i \<in> set (nqPub n) \<or> i \<in> set (nqPn n) \<or> published_notice show_uuid i \<in> set (drop k (nqIssued n)))"

lemma outstanding_pub_step:
  "notifier_step show_uuid n n' \<Longrightarrow> outstanding_pub show_uuid i n k \<Longrightarrow> outstanding_pub show_uuid i n' k"
  by (erule notifier_step.cases)
    (auto simp: outstanding_pub_def take_pub_def take_topic_def take_sub_def send_batch_def)

lemma kept_topic_step:
  assumes "notifier_step show_uuid n n'" and "k \<in> set (nqTn n)"
  shows "k \<in> set (nqTn n')"
    and "count_list (nqIssued n) (modified_notice topicModifiedChannelName show_uuid k) + nqBatches n' \<le>
      count_list (nqIssued n') (modified_notice topicModifiedChannelName show_uuid k) + nqBatches n"
proof -
  let ?x = "modified_notice topicModifiedChannelName show_uuid k"
  show "k \<in> set (nqTn n')"
    using assms by (cases rule: notifier_step.cases) (auto simp: take_pub_def take_topic_def take_sub_def send_batch_def)
  have pos: "0 < count_list (map (modified_notice topicModifiedChannelName show_uuid) (nqTn n)) ?x"
    using assms(2) by (simp add: count_list_0_iff neq0_conv[symmetric])
  show "count_list (nqIssued n) ?x + nqBatches n' \<le> count_list (nqIssued n') ?x + nqBatches n"
    using assms(1) by (cases rule: notifier_step.cases) (use pos in \<open>auto simp: take_pub_def take_topic_def take_sub_def send_batch_def\<close>)
qed

text \<open>Whatever the listener does is a step of the in-process notifications.\<close>

lemma listener_step_notify: "listener_step parse_uuid l l' \<Longrightarrow> notify_step\<^sup>*\<^sup>* (lsNotify l) (lsNotify l')"
proof (induction rule: listener_step.induct)
  case (wake w l)
  show ?case by (cases w) (auto intro: r_into_rtranclp notify_step.intros)
qed (auto simp: runOnce_listening_def intro: r_into_rtranclp notify_step.intros)

lemma listener_notify: "(listener_step parse_uuid)\<^sup>*\<^sup>* l l' \<Longrightarrow> notify_step\<^sup>*\<^sup>* (lsNotify l) (lsNotify l')"
  by (induction rule: rtranclp_induct) (auto dest: listener_step_notify)

lemma outstanding_pub_steps:
  assumes "(notifier_step show_uuid)\<^sup>*\<^sup>* n n'" and "outstanding_pub show_uuid i n k"
  shows "outstanding_pub show_uuid i n' k"
  using assms by (induction rule: rtranclp_induct) (blast intro: outstanding_pub_step)+

lemma run_WakePub_reaches:
  assumes "map_of (pubWaiters st) i = Some cs"
  shows "set cs \<subseteq> set (closed (run_wakeup (WakePub i) st))"
  using wake_subs_reaches(1)[of "[]" "pubWaiters st" i cs "[]" "closed st"] assms
  by (auto simp: WakePublishListeners_def Let_def split: prod.split)

text \<open>
  Property C9. A published message wakes readers in other processes. Once the hook has queued the
  subscription, it stays queued, whatever else is queued and however often the connection fails,
  until a notification for it has been issued. A process that receives that notification starts a
  wake-up that closes every channel that waits for the subscription; a process whose connection was
  lost closes every waiting channel as soon as it listens again; and whatever happens in between, no
  channel is closed twice.
\<close>

theorem notifier_reaches_readers:
  assumes "(notifier_step show_uuid)\<^sup>*\<^sup>* n n'" and "i \<in> set (nqPub n)" and "parse_uuid (show_uuid i) = Inr i"
    and "(listener_step parse_uuid)\<^sup>*\<^sup>* \<lparr>lsUp = False, lsWakeups = [], lsNotify = init_notify\<rparr> l"
    and "map_of (pubWaiters (lsNotify l)) i = Some cs"
  shows "(i \<in> set (nqPub n') \<or> i \<in> set (nqPn n') \<or> published_notice show_uuid i \<in> set (drop (length (nqIssued n)) (nqIssued n'))) \<and>
    (\<exists>w. on_notification parse_uuid (published_notice show_uuid i) = [w] \<and> set cs \<subseteq> set (closed (run_wakeup w (lsNotify l)))) \<and>
    set cs \<subseteq> set (closed (lsNotify (runOnce_listening l))) \<and>
    distinct (closed (lsNotify l)) \<and> distinct (closed (lsNotify (runOnce_listening l)))"
proof -
  have out: "outstanding_pub show_uuid i n' (length (nqIssued n))"
    by (rule outstanding_pub_steps[OF assms(1)]) (simp add: outstanding_pub_def assms(2))
  have wf: "wf_notify (lsNotify l)" using notify_steps_wf[OF listener_notify[OF assms(4)]] by (simp add: wf_init_notify)
  have "on_notification parse_uuid (published_notice show_uuid i) = [WakePub i]"
    using assms(3) by (simp add: on_notification_def published_notice_def)
  moreover have "set cs \<subseteq> set (closed (lsNotify (runOnce_listening l)))"
    using map_of_SomeD[OF assms(5)] by (force simp: runOnce_listening_def WakeAllInternal_def Let_def)
  moreover have "wf_notify (lsNotify (runOnce_listening l))" using wf by (simp add: runOnce_listening_def wf_intros)
  ultimately show ?thesis using out wf run_WakePub_reaches[OF assms(5)]
    by (simp add: outstanding_pub_def wf_notify_def all_chans_def)
qed

text \<open>
  Notifications of modified topics are never done with. The set they are collected in is
  not emptied when they are sent, so each of them is issued again with every later batch.
\<close>

theorem notifier_resends:
  assumes "(notifier_step show_uuid)\<^sup>*\<^sup>* n n'" and "k \<in> set (nqTn n)"
  shows "k \<in> set (nqTn n') \<and>
    count_list (nqIssued n) (modified_notice topicModifiedChannelName show_uuid k) + nqBatches n' \<le>
      count_list (nqIssued n') (modified_notice topicModifiedChannelName show_uuid k) + nqBatches n"
  using assms(1)
proof (induction rule: rtranclp_induct)
  case base
  then show ?case using assms(2) by simp
next
  case (step m m')
  then show ?case using kept_topic_step[OF step(2), of k] by auto
qed

subsection \<open>A run\<close>

definition sample_show :: "uuid \<Rightarrow> string" where
  "sample_show i = replicate (unat i) CHR ''1''"

definition sample_notifier :: pgNotifier where
  "sample_notifier = notifier_init\<lparr>nqPub := [7], nqTn := [(3, ''t'')], nqAt := Waiting\<rparr>"

definition sample_sent :: pgNotifier where
  "sample_sent = notifier_init\<lparr>nqTn := [(3, ''t'')],
     nqIssued := [published_notice sample_show 7, modified_notice topicModifiedChannelName sample_show (3, ''t'')], nqBatches := 1\<rparr>"

lemma sample_notifier_run: "(notifier_step sample_show)\<^sup>*\<^sup>* sample_notifier sample_sent"
proof -
  let ?n1 = "notifier_init\<lparr>nqPn := [7], nqTn := [(3, ''t'')], nqAt := Draining\<rparr>"
  let ?n2 = "?n1\<lparr>nqAt := Sending\<rparr>"
  have 1: "notifier_step sample_show sample_notifier ?n1"
    using notifier_step.first_pub[of sample_notifier 7 "[]"] by (simp add: sample_notifier_def notifier_init_def take_pub_def)
  have 2: "notifier_step sample_show ?n1 ?n2" by (rule notifier_step.drained) (simp_all add: notifier_init_def)
  have 3: "notifier_step sample_show ?n2 sample_sent"
    using notifier_step.send[of ?n2 sample_show] by (simp add: notifier_init_def send_batch_def sample_sent_def)
  from 1 2 3 show ?thesis by (simp add: converse_rtranclp_into_rtranclp)
qed

definition sample_listener :: listener where
  "sample_listener = \<lparr>lsUp = False, lsWakeups = [], lsNotify = snd (PublishAwaiter 7 init_notify)\<rparr>"

lemma sample_listener_run:
  "(listener_step p)\<^sup>*\<^sup>* \<lparr>lsUp = False, lsWakeups = [], lsNotify = init_notify\<rparr> sample_listener"
  using listener_step.others[of "\<lparr>lsUp = False, lsWakeups = [], lsNotify = init_notify\<rparr>" "snd (PublishAwaiter 7 init_notify)" p]
  by (auto simp: sample_listener_def intro: notify_step.intros)

theorem notifier_reaches_readers_witness:
  "published_notice sample_show 7 \<in> set (nqIssued sample_sent) \<and>
   0 \<in> set (closed (lsNotify (runOnce_listening sample_listener)))"
  using notifier_reaches_readers[OF sample_notifier_run _ _ sample_listener_run, of 7 "\<lambda>s. Inr (of_nat (length s))" "[0]"]
  by (simp add: sample_notifier_def sample_sent_def notifier_init_def sample_show_def sample_listener_def PublishAwaiter_def init_notify_def
      add_waiter_def)

lemma sample_resends:
  "(3, ''t'') \<in> set (nqTn sample_sent) \<and>
   1 \<le> count_list (nqIssued sample_sent) (modified_notice topicModifiedChannelName sample_show (3, ''t''))"
  using notifier_resends[OF sample_notifier_run, of "(3, ''t'')"] by (simp add: sample_notifier_def sample_sent_def notifier_init_def)

end
