(* ===== verification/Migrations.thy ===== *)
theory Migrations
  imports Tx "HOL-Library.List_Lexorder" "HOL-Library.Char_ord"
begin

text \<open>
  The schema migrations that run at start-up, the package \<open>migrate\<close>: finding the scripts in a file
  system, ordering them, and running those that the table of the database does not list, each in a
  transaction of its own. What a script does to the schema is the database's affair and a
  parameter, and so is the check of the driver that a statement gets as many arguments as it has
  placeholders. The answers of the driver to begin, commit and rollback are given by the environment.
\<close>

subsection \<open>Scripts\<close>

type_synonym contentGetter = "string res option"

record migration =
  mgName :: string
  mgUp :: contentGetter
  mgDown :: contentGetter

definition Contents :: "bool \<Rightarrow> migration \<Rightarrow> string res" where
  "Contents up m = (case (if up then mgUp m else mgDown m) of None \<Rightarrow> Inr [] | Some getter \<Rightarrow> getter)"

definition SQLMigration_run :: "(string \<Rightarrow> 'd \<Rightarrow> err + 'd) \<Rightarrow> bool \<Rightarrow> migration \<Rightarrow> 'd \<Rightarrow> err + 'd" where
  "SQLMigration_run exec direction m d =
     bind_res (Contents direction m) (\<lambda>contents.
     if contents = [] then Inl (DriverError ''no script to migrate'') else exec contents d)"

text \<open>The script of the way down overwrites the one of the way up.\<close>

definition FromSQL :: "string \<Rightarrow> string \<Rightarrow> string \<Rightarrow> migration" where
  "FromSQL name up down =
     (let ret = \<lparr>mgName = name, mgUp = None, mgDown = None\<rparr>;
          ret = (if up \<noteq> [] then ret\<lparr>mgUp := Some (Inr up)\<rparr> else ret)
      in if down \<noteq> [] then ret\<lparr>mgUp := Some (Inr down)\<rparr> else ret)"

definition WithPrefix :: "string \<Rightarrow> migration list \<Rightarrow> migration list" where
  "WithPrefix p ms = (if p = [] \<or> ms = [] then ms else map (\<lambda>m. m\<lparr>mgName := p @ mgName m\<rparr>) ms)"

subsection \<open>Files\<close>

text \<open>A file name, read from its end: three letters, any character, the direction, a dot or a dash.\<close>

definition newline :: char where
  "newline = CHR 0x0A"

definition nameRegex :: "string \<Rightarrow> (string \<times> bool) option" where
  "nameRegex fn =
     (let ok = (\<lambda>c sep name. c \<noteq> newline \<and> (sep = CHR ''.'' \<or> sep = CHR ''-'') \<and> newline \<notin> set name) in
      case rev fn of
        l # q # s # c # x # y # rest \<Rightarrow>
          if [l, q, s] \<noteq> ''lqs'' then None
          else if [x, y] = ''pu'' then
            (case rest of sep # name \<Rightarrow> if ok c sep name then Some (rev name, True) else None | [] \<Rightarrow> None)
          else if [x, y] = ''nw'' then
            (case rest of o' # d # sep # name \<Rightarrow> if [o', d] = ''od'' \<and> ok c sep name then Some (rev name, False) else None | _ \<Rightarrow> None)
          else None
      | _ \<Rightarrow> None)"

record dirEntry =
  dePath :: string
  deRegular :: bool
  deContent :: "string res"

definition entry_name :: "string \<Rightarrow> string" where
  "entry_name name = (if CHR ''/'' \<notin> set name then CHR ''/'' # name else name)"

definition upsert :: "migration \<Rightarrow> migration list \<Rightarrow> migration list" where
  "upsert m ms = (if list_ex (\<lambda>x. mgName x = mgName m) ms then map (\<lambda>x. if mgName x = mgName m then m else x) ms else ms @ [m])"

definition load_entry :: "dirEntry \<Rightarrow> migration list \<Rightarrow> migration list res" where
  "load_entry d entries =
     (if \<not> deRegular d then Inr entries
      else case nameRegex (dePath d) of
        None \<Rightarrow> Inl (DriverError ''entry does not look like a migration'')
      | Some (base, up) \<Rightarrow>
          (let name = entry_name base;
               e = (case find (\<lambda>m. mgName m = name) entries of
                   Some m \<Rightarrow> m | None \<Rightarrow> \<lparr>mgName = name, mgUp = None, mgDown = None\<rparr>)
           in if up then if mgUp e \<noteq> None then Inl (DriverError ''multiple up entries'')
                         else Inr (upsert (e\<lparr>mgUp := Some (deContent d)\<rparr>) entries)
              else if mgDown e \<noteq> None then Inl (DriverError ''multiple down entries'')
                   else Inr (upsert (e\<lparr>mgDown := Some (deContent d)\<rparr>) entries)))"

fun load_entries :: "dirEntry list \<Rightarrow> migration list \<Rightarrow> migration list res" where
  "load_entries [] entries = Inr entries"
| "load_entries (d # ds) entries = bind_res (load_entry d entries) (load_entries ds)"

text \<open>The result of the code has no order; it is sorted by the callers, and as its names are distinct, in only one way.\<close>

definition LoadFS :: "dirEntry list \<Rightarrow> (migration \<Rightarrow> bool) \<Rightarrow> migration list res" where
  "LoadFS files flt = map_sum id (filter flt) (load_entries files [])"

definition sortMigrations :: "migration list \<Rightarrow> migration list" where
  "sortMigrations ms = sort_key mgName ms"

definition AddAndSort :: "string \<Rightarrow> migration list \<Rightarrow> migration list \<Rightarrow> migration list" where
  "AddAndSort p new ms = sortMigrations (ms @ WithPrefix p new)"

definition SortAndAppend :: "string \<Rightarrow> migration list \<Rightarrow> migration list \<Rightarrow> migration list" where
  "SortAndAppend p new ms = ms @ WithPrefix p (sortMigrations new)"

subsection \<open>The migrator\<close>

record migrationState =
  stName :: string
  stRunOn :: time

record 'd mdb =
  mdSchema :: 'd
  mdStates :: "migrationState list"

record dialect =
  dlInsertPlaceholders :: nat
  dlDeletePlaceholders :: nat

definition PgxDialect :: dialect where
  "PgxDialect = \<lparr>dlInsertPlaceholders = 2, dlDeletePlaceholders = 1\<rparr>"

record migrate_answers =
  maDriver :: driver
  maBefore :: "err option"
  maNow :: time

text \<open>An error of the rollback is a panic; after a commit that failed the transaction is over, and rolling it back is such an error.\<close>

definition give_up :: "driver \<Rightarrow> err \<Rightarrow> 'd mdb \<Rightarrow> err option \<times> 'd mdb" where
  "give_up drv e db = (Some (case drvRollback drv of None \<Rightarrow> e | Some p \<Rightarrow> Panic ''rollback''), db)"

definition record_state :: "dialect \<Rightarrow> (nat \<Rightarrow> nat \<Rightarrow> err option) \<Rightarrow> time \<Rightarrow> string \<Rightarrow> bool \<Rightarrow> migrationState list \<Rightarrow> migrationState list res" where
  "record_state dl args now name direction sts =
     (case args (if direction then dlInsertPlaceholders dl else dlDeletePlaceholders dl) 2 of
        Some e \<Rightarrow> Inl e
      | None \<Rightarrow>
          if direction then
            if list_ex (\<lambda>s. stName s = name) sts then Inl UniqueViolation
            else Inr (sts @ [\<lparr>stName = name, stRunOn = now\<rparr>])
          else Inr (filter (\<lambda>s. stName s \<noteq> name) sts))"

definition runOne :: "(string \<Rightarrow> 'd \<Rightarrow> err + 'd) \<Rightarrow> (nat \<Rightarrow> nat \<Rightarrow> err option) \<Rightarrow> dialect \<Rightarrow> migrate_answers \<Rightarrow> migration \<Rightarrow> bool \<Rightarrow>
    'd mdb \<Rightarrow> err option \<times> 'd mdb" where
  "runOne exec args dl a mm direction db =
     (case drvBegin (maDriver a) of
        Some e \<Rightarrow> (Some e, db)
      | None \<Rightarrow>
          (case maBefore a of
             Some e \<Rightarrow> give_up (maDriver a) e db
           | None \<Rightarrow>
               (case SQLMigration_run exec direction mm (mdSchema db) of
                  Inl e \<Rightarrow> give_up (maDriver a) e db
                | Inr d \<Rightarrow>
                    (case record_state dl args (maNow a) (mgName mm) direction (mdStates db) of
                       Inl e \<Rightarrow> give_up (maDriver a) e db
                     | Inr sts \<Rightarrow>
                         (case drvCommit (maDriver a) of
                            None \<Rightarrow> (None, \<lparr>mdSchema = d, mdStates = sts\<rparr>)
                          | Some e \<Rightarrow> (Some (Panic ''rollback''),
                              if drvCommitApplied (maDriver a) then \<lparr>mdSchema = d, mdStates = sts\<rparr> else db))))))"

definition toRun :: "bool \<Rightarrow> migration list \<Rightarrow> migrationState list \<Rightarrow> migration list" where
  "toRun direction ms sts =
     (if direction then filter (\<lambda>m. mgName m \<notin> stName ` set sts) ms
      else filter (\<lambda>m. mgName m \<in> stName ` set sts) (rev ms))"

fun runEach :: "(string \<Rightarrow> 'd \<Rightarrow> err + 'd) \<Rightarrow> (nat \<Rightarrow> nat \<Rightarrow> err option) \<Rightarrow> dialect \<Rightarrow> (nat \<Rightarrow> migrate_answers) \<Rightarrow> bool \<Rightarrow> nat \<Rightarrow>
    migration list \<Rightarrow> 'd mdb \<Rightarrow> err option \<times> 'd mdb" where
  "runEach exec args dl as direction k [] db = (None, db)"
| "runEach exec args dl as direction k (m # ms) db =
     (case runOne exec args dl (as k) m direction db of
        (Some e, db') \<Rightarrow> (Some e, db')
      | (None, db') \<Rightarrow> runEach exec args dl as direction (Suc k) ms db')"

text \<open>
  The rows of the table that arrive. The loop ends when there is no next row, also if the reason is an
  error, for which it does not ask; the environment says how many rows it sees.
\<close>

definition loadStates :: "err + nat \<Rightarrow> migrationState list \<Rightarrow> migrationState list res" where
  "loadStates rows sts = map_sum id (\<lambda>n. take n sts) rows"

text \<open>The errors of checking the connection and of creating the table come first.\<close>

definition Migrator_run :: "(string \<Rightarrow> 'd \<Rightarrow> err + 'd) \<Rightarrow> (nat \<Rightarrow> nat \<Rightarrow> err option) \<Rightarrow> dialect \<Rightarrow> err option \<Rightarrow> err option \<Rightarrow> err + nat \<Rightarrow>
    (nat \<Rightarrow> migrate_answers) \<Rightarrow> bool \<Rightarrow> migration list \<Rightarrow> 'd mdb \<Rightarrow> err option \<times> 'd mdb" where
  "Migrator_run exec args dl verify ensure rows as direction ms db =
     (if verify \<noteq> None then (verify, db)
      else if ensure \<noteq> None then (ensure, db)
      else case loadStates rows (mdStates db) of
        Inl e \<Rightarrow> (Some e, db)
      | Inr sts \<Rightarrow> runEach exec args dl as direction 0 (toRun direction ms sts) db)"

text \<open>
  The start-up of \<open>db/migrate.go\<close>: SQLite and a program without scripts leave the schema to the generated
  client, whose answer is a parameter.
\<close>

datatype dbDialect = PostgresDialect | SqliteDialect | OtherDialect

definition Up :: "(string \<Rightarrow> 'd \<Rightarrow> err + 'd) \<Rightarrow> (nat \<Rightarrow> nat \<Rightarrow> err option) \<Rightarrow> ('d mdb \<Rightarrow> err option \<times> 'd mdb) \<Rightarrow> err option \<Rightarrow> dbDialect \<Rightarrow>
    err option \<Rightarrow> err option \<Rightarrow> err + nat \<Rightarrow> (nat \<Rightarrow> migrate_answers) \<Rightarrow> migration list \<Rightarrow> 'd mdb \<Rightarrow> err option \<times> 'd mdb" where
  "Up exec args via_ent open_err dname verify ensure rows as ms db =
     (case open_err of
        Some e \<Rightarrow> (Some e, db)
      | None \<Rightarrow>
          if ms = [] \<or> dname = SqliteDialect then via_ent db
          else if dname \<noteq> PostgresDialect then (Some (DriverError ''unrecognized dialect''), db)
          else Migrator_run exec args PgxDialect verify ensure rows as True ms db)"

definition MigrateUp :: "(string \<Rightarrow> 'd \<Rightarrow> err + 'd) \<Rightarrow> (nat \<Rightarrow> nat \<Rightarrow> err option) \<Rightarrow> ('d mdb \<Rightarrow> err option \<times> 'd mdb) \<Rightarrow> err option \<Rightarrow> dbDialect \<Rightarrow>
    err option \<Rightarrow> err option \<Rightarrow> err + nat \<Rightarrow> (nat \<Rightarrow> migrate_answers) \<Rightarrow> dirEntry list \<Rightarrow> 'd mdb \<Rightarrow> err option \<times> 'd mdb" where
  "MigrateUp exec args via_ent open_err dname verify ensure rows as files db =
     (case LoadFS files (\<lambda>_. True) of
        Inl e \<Rightarrow> (Some e, db)
      | Inr ms \<Rightarrow> Up exec args via_ent open_err dname verify ensure rows as (AddAndSort [] ms []) db)"

subsection \<open>What the files give\<close>

lemma upsert_names: "mgName m \<in> mgName ` set ms \<Longrightarrow> map mgName (upsert m ms) = map mgName ms"
  "mgName m \<notin> mgName ` set ms \<Longrightarrow> map mgName (upsert m ms) = map mgName ms @ [mgName m]"
  by (auto simp: upsert_def list_ex_iff image_iff)

lemma distinct_upsert: "distinct (map mgName ms) \<Longrightarrow> distinct (map mgName (upsert m ms))"
  by (cases "mgName m \<in> mgName ` set ms") (simp_all add: upsert_names)

lemma distinct_load_entries: "load_entries ds ms = Inr ms' \<Longrightarrow> distinct (map mgName ms) \<Longrightarrow> distinct (map mgName ms')"
proof (induction ds arbitrary: ms)
  case (Cons d ds)
  then obtain ms1 where 1: "load_entry d ms = Inr ms1" "load_entries ds ms1 = Inr ms'" by auto
  have "distinct (map mgName ms1)"
    using 1(1) Cons.prems(2) by (auto simp: load_entry_def Let_def intro: distinct_upsert split: if_split_asm option.split_asm)
  with 1(2) Cons.IH show ?case by blast
qed simp

lemma LoadFS_sorted:
  assumes "LoadFS files flt = Inr ms"
  shows "distinct (map mgName (sortMigrations ms)) \<and> sorted (map mgName (sortMigrations ms)) \<and> set (sortMigrations ms) = set ms"
proof -
  obtain ms0 where ms0: "load_entries files [] = Inr ms0" "ms = filter flt ms0"
    using assms by (cases "load_entries files []") (auto simp: LoadFS_def)
  then have "distinct (map mgName ms)" using distinct_load_entries[OF ms0(1)] by (simp add: distinct_map_filter)
  then show ?thesis by (simp add: sortMigrations_def distinct_map inj_on_def)
qed

subsection \<open>Running\<close>

text \<open>The scripts one after another, without the table.\<close>

fun apply_scripts :: "(string \<Rightarrow> 'd \<Rightarrow> err + 'd) \<Rightarrow> bool \<Rightarrow> migration list \<Rightarrow> 'd \<Rightarrow> err + 'd" where
  "apply_scripts exec direction [] d = Inr d"
| "apply_scripts exec direction (m # ms) d = bind_res (SQLMigration_run exec direction m d) (apply_scripts exec direction ms)"

lemma runOne_cases:
  assumes "runOne exec args dl a mm direction db = (r, db')"
  shows "(r \<noteq> None \<and> db' = db) \<or>
    (SQLMigration_run exec direction mm (mdSchema db) = Inr (mdSchema db') \<and>
     record_state dl args (maNow a) (mgName mm) direction (mdStates db) = Inr (mdStates db'))"
  using assms by (auto simp: runOne_def give_up_def split: option.split_asm sum.split_asm if_split_asm)

lemma record_up: "record_state dl args now name True sts = Inr sts' \<Longrightarrow> map stName sts' = map stName sts @ [name]"
  by (auto simp: record_state_def split: option.split_asm if_split_asm)

lemma runEach_up:
  "runEach exec args dl as True k ms db = (r, db') \<Longrightarrow>
   \<exists>j\<le>length ms. apply_scripts exec True (take j ms) (mdSchema db) = Inr (mdSchema db') \<and>
     map stName (mdStates db') = map stName (mdStates db) @ map mgName (take j ms) \<and> (r = None \<longrightarrow> j = length ms)"
proof (induction ms arbitrary: k db)
  case (Cons m ms)
  obtain r1 db1 where one: "runOne exec args dl (as k) m True db = (r1, db1)" by force
  consider (kept) "r1 \<noteq> None" "db1 = db"
    | (ran) "SQLMigration_run exec True m (mdSchema db) = Inr (mdSchema db1)" "map stName (mdStates db1) = map stName (mdStates db) @ [mgName m]"
    using runOne_cases[OF one] record_up by blast
  then show ?case
  proof cases
    case kept
    then show ?thesis using Cons.prems one by (intro exI[of _ 0]) auto
  next
    case ran
    show ?thesis
    proof (cases r1)
      case (Some e)
      then show ?thesis using Cons.prems one ran by (intro exI[of _ 1]) auto
    next
      case None
      then have "runEach exec args dl as True (Suc k) ms db1 = (r, db')" using Cons.prems one by simp
      from Cons.IH[OF this] obtain j where "j \<le> length ms" "apply_scripts exec True (take j ms) (mdSchema db1) = Inr (mdSchema db')"
          "map stName (mdStates db') = map stName (mdStates db1) @ map mgName (take j ms)" "r = None \<longrightarrow> j = length ms"
        by blast
      with ran show ?thesis by (intro exI[of _ "Suc j"]) simp
    qed
  qed
qed simp

lemma toRun_done: "set (map mgName ms) \<subseteq> stName ` set sts \<Longrightarrow> toRun True ms sts = []"
  by (auto simp: toRun_def filter_empty_conv)

lemma Migrator_run_up:
  assumes "Migrator_run exec args dl verify ensure rows as True ms db = (r, db')"
    and "todo = toRun True ms (take n (mdStates db))" and "rows = Inr n"
  shows "\<exists>j. apply_scripts exec True (take j todo) (mdSchema db) = Inr (mdSchema db') \<and>
      map stName (mdStates db') = map stName (mdStates db) @ map mgName (take j todo) \<and>
      (r = None \<longrightarrow> set (map mgName ms) \<subseteq> set (map stName (mdStates db')))"
proof (cases "verify \<noteq> None \<or> ensure \<noteq> None")
  case True
  then show ?thesis using assms by (intro exI[of _ 0]) (auto simp: Migrator_run_def split: if_split_asm)
next
  case False
  with assms have "runEach exec args dl as True 0 todo db = (r, db')" by (auto simp: Migrator_run_def loadStates_def)
  from runEach_up[OF this] obtain j where j: "apply_scripts exec True (take j todo) (mdSchema db) = Inr (mdSchema db')"
      "map stName (mdStates db') = map stName (mdStates db) @ map mgName (take j todo)" "r = None \<longrightarrow> j = length todo"
    by blast
  have "set (map mgName ms) \<subseteq> set (map stName (mdStates db'))" if "r = None"
    using that j(3) assms(2) unfolding j(2) by (auto simp: toRun_def dest: in_set_takeD)
  with j show ?thesis by (intro exI[of _ j]) simp
qed

lemma toRun_order:
  assumes "LoadFS files flt = Inr ms"
  shows "sorted (map mgName (toRun True (AddAndSort [] ms []) sts)) \<and> distinct (map mgName (toRun True (AddAndSort [] ms []) sts))"
  using LoadFS_sorted[OF assms] by (simp add: toRun_def AddAndSort_def WithPrefix_def sorted_filter distinct_map_filter)

text \<open>
  Property C18. Migrating a PostgreSQL database up at start-up runs the scripts whose names were not read
  from the table, each once and in ascending order, and keeps the table and the schema together: whatever
  fails, the names added to the table are those of a first part of them, and the schema is what the
  scripts of exactly that part make of it. If no error is reported, the table lists every script, and a
  second start that reads the whole table changes nothing.
\<close>

theorem migrate_up_correct:
  assumes "LoadFS files (\<lambda>_. True) = Inr ms" and "ms \<noteq> []"
    and "MigrateUp exec args via_ent None PostgresDialect verify ensure (Inr n) as files db = (r, db')"
    and "todo = toRun True (AddAndSort [] ms []) (take n (mdStates db))"
  shows "sorted (map mgName todo) \<and> distinct (map mgName todo) \<and>
    (\<exists>j. apply_scripts exec True (take j todo) (mdSchema db) = Inr (mdSchema db') \<and>
      map stName (mdStates db') = map stName (mdStates db) @ map mgName (take j todo)) \<and>
    (r = None \<longrightarrow> set (map mgName ms) \<subseteq> set (map stName (mdStates db')) \<and>
       MigrateUp exec args via_ent None PostgresDialect None None (Inr (length (mdStates db'))) as' files db' = (None, db'))"
proof -
  let ?ms = "AddAndSort [] ms []"
  have ms: "set ?ms = set ms" "?ms \<noteq> []" using assms(2) by (simp_all add: AddAndSort_def WithPrefix_def sortMigrations_def)
  from assms(1,3) ms(2) have run: "Migrator_run exec args PgxDialect verify ensure (Inr n) as True ?ms db = (r, db')"
    by (simp add: MigrateUp_def Up_def)
  from Migrator_run_up[OF run assms(4) refl] obtain j
    where j: "apply_scripts exec True (take j todo) (mdSchema db) = Inr (mdSchema db')"
      "map stName (mdStates db') = map stName (mdStates db) @ map mgName (take j todo)"
    and all: "r = None \<Longrightarrow> set (map mgName ?ms) \<subseteq> set (map stName (mdStates db'))"
    by blast
  have "MigrateUp exec args via_ent None PostgresDialect None None (Inr (length (mdStates db'))) as' files db' = (None, db')"
    if "r = None"
  proof -
    have "toRun True ?ms (mdStates db') = []" using all[OF that] by (intro toRun_done) simp
    then show ?thesis using assms(1) ms(2) by (simp add: MigrateUp_def Up_def Migrator_run_def loadStates_def)
  qed
  moreover have "sorted (map mgName todo) \<and> distinct (map mgName todo)" unfolding assms(4) by (rule toRun_order[OF assms(1)])
  ultimately show ?thesis using j all ms(1) by auto
qed

text \<open>
  Property C37. With the PostgreSQL dialect the way down never succeeds. The statement that takes a
  migration out of the table has one placeholder and is given two arguments, which the driver
  refuses; so if the rows read from the table list any migration, migrating down reports an error, or
  panics, and leaves schema and table as they were.
\<close>

theorem migrate_down_fails:
  assumes "\<And>n k. n \<noteq> k \<Longrightarrow> args n k \<noteq> None" and "m \<in> set ms" and "mgName m \<in> stName ` set (take n (mdStates db))"
  shows "\<exists>e. Migrator_run exec args PgxDialect verify ensure (Inr n) as False ms db = (Some e, db)"
proof (cases "verify \<noteq> None \<or> ensure \<noteq> None")
  case True
  then show ?thesis by (auto simp: Migrator_run_def)
next
  case False
  obtain e where e: "args 1 2 = Some e" using assms(1)[of 1 2] by auto
  obtain x xs where todo: "toRun False ms (take n (mdStates db)) = x # xs"
    using assms(2,3) by (cases "toRun False ms (take n (mdStates db))") (auto simp: toRun_def filter_empty_conv)
  have "\<exists>e'. runOne exec args PgxDialect (as 0) x False db = (Some e', db)"
    using e by (auto simp: runOne_def give_up_def record_state_def PgxDialect_def split: option.split sum.split)
  then show ?thesis using False todo by (auto simp: Migrator_run_def loadStates_def)
qed

subsection \<open>Two scripts\<close>

definition sample_exec :: "string \<Rightarrow> string list \<Rightarrow> err + string list" where
  "sample_exec s d = Inr (d @ [s])"

definition sample_args :: "nat \<Rightarrow> nat \<Rightarrow> err option" where
  "sample_args n k = (if n = k then None else Some (DriverError ''mismatched param and argument count''))"

definition sample_answers :: migrate_answers where
  "sample_answers = \<lparr>maDriver = good_driver, maBefore = None, maNow = 7\<rparr>"

definition sample_files :: "dirEntry list" where
  "sample_files = [\<lparr>dePath = ''b-up.sql'', deRegular = True, deContent = Inr ''B''\<rparr>,
     \<lparr>dePath = ''a.down.sql'', deRegular = True, deContent = Inr ''D''\<rparr>,
     \<lparr>dePath = ''a.up.sql'', deRegular = True, deContent = Inr ''A''\<rparr>]"

definition sample_migrations :: "migration list" where
  "sample_migrations = [\<lparr>mgName = ''/a'', mgUp = Some (Inr ''A''), mgDown = Some (Inr ''D'')\<rparr>,
     \<lparr>mgName = ''/b'', mgUp = Some (Inr ''B''), mgDown = None\<rparr>]"

lemma sample_files_load: "\<exists>ms. LoadFS sample_files (\<lambda>_. True) = Inr ms \<and> ms \<noteq> [] \<and> AddAndSort [] ms [] = sample_migrations"
  by (simp add: LoadFS_def sample_files_def sample_migrations_def load_entry_def nameRegex_def newline_def entry_name_def upsert_def
      sortMigrations_def AddAndSort_def WithPrefix_def Let_def)

lemma sample_up: "MigrateUp sample_exec sample_args (\<lambda>db. (None, db)) None PostgresDialect None None (Inr 0) (\<lambda>_. sample_answers) sample_files
    \<lparr>mdSchema = [], mdStates = []\<rparr> =
    (None, \<lparr>mdSchema = [''A'', ''B''], mdStates = [\<lparr>stName = ''/a'', stRunOn = 7\<rparr>, \<lparr>stName = ''/b'', stRunOn = 7\<rparr>]\<rparr>)"
proof -
  obtain ms where "LoadFS sample_files (\<lambda>_. True) = Inr ms" "AddAndSort [] ms [] = sample_migrations" using sample_files_load by blast
  then show ?thesis
    by (simp add: MigrateUp_def Up_def Migrator_run_def loadStates_def toRun_def sample_migrations_def runOne_def sample_answers_def
        good_driver_def SQLMigration_run_def Contents_def record_state_def sample_args_def PgxDialect_def sample_exec_def)
qed

theorem migrate_up_correct_witness:
  "\<exists>db. MigrateUp sample_exec sample_args (\<lambda>db. (None, db)) None PostgresDialect None None (Inr 0) (\<lambda>_. sample_answers) sample_files
      \<lparr>mdSchema = [], mdStates = []\<rparr> = (None, db) \<and> map stName (mdStates db) = [''/a'', ''/b''] \<and>
    MigrateUp sample_exec sample_args (\<lambda>db. (None, db)) None PostgresDialect None None (Inr 2) (\<lambda>_. sample_answers) sample_files db = (None, db)"
proof -
  obtain ms where ms: "LoadFS sample_files (\<lambda>_. True) = Inr ms" "ms \<noteq> []" using sample_files_load by blast
  show ?thesis using migrate_up_correct[OF ms sample_up refl, of "\<lambda>_. sample_answers"] sample_up by (simp add: numeral_2_eq_2)
qed

theorem migrate_down_fails_witness:
  "\<exists>e. Migrator_run sample_exec sample_args PgxDialect None None (Inr 1) (\<lambda>_. sample_answers) False sample_migrations
    \<lparr>mdSchema = [''A''], mdStates = [\<lparr>stName = ''/a'', stRunOn = 7\<rparr>]\<rparr> =
    (Some e, \<lparr>mdSchema = [''A''], mdStates = [\<lparr>stName = ''/a'', stRunOn = 7\<rparr>]\<rparr>)"
  by (rule migrate_down_fails[where m = "hd sample_migrations"]) (simp_all add: sample_args_def sample_migrations_def)

end
