(* ===== verification/Interval.thy ===== *)
theory Interval
  imports Backoff
begin

text \<open>
  The column type of durations, \<open>internal/sqltypes/interval.go\<close>. A duration is written to the database
  in the notation of Go and read back either in that notation, which is what SQLite returns, or in
  that of PostgreSQL. Printing and reading Go's notation are \<open>time.Duration.String\<close> and
  \<open>time.ParseDuration\<close> of the standard library, with its unsigned 64 bit numbers, its checks for
  overflow and its double precision arithmetic for fractions; the regular expression for
  PostgreSQL's notation is written out as the one way in which it can match.
\<close>

subsection \<open>Decimal numbers\<close>

definition digit_char :: "nat \<Rightarrow> char" where
  "digit_char n = char_of (48 + n)"

definition is_digit :: "char \<Rightarrow> bool" where
  "is_digit c \<longleftrightarrow> 48 \<le> (of_char c :: nat) \<and> (of_char c :: nat) \<le> 57"

definition digit_val :: "char \<Rightarrow> nat" where
  "digit_val c = of_char c - 48"

definition dec_val :: "string \<Rightarrow> nat" where
  "dec_val ds = foldl (\<lambda>x c. 10 * x + digit_val c) 0 ds"

subsection \<open>Printing in Go's notation\<close>

fun fmtInt :: "string \<Rightarrow> nat \<Rightarrow> string" where
  "fmtInt buf v = (if v < 10 then digit_char v # buf else fmtInt (digit_char (v mod 10) # buf) (v div 10))"

declare fmtInt.simps [simp del]

fun fmtFrac_loop :: "nat \<Rightarrow> nat \<Rightarrow> string \<Rightarrow> bool \<Rightarrow> nat \<times> string \<times> bool" where
  "fmtFrac_loop 0 v buf print = (v, buf, print)"
| "fmtFrac_loop (Suc k) v buf print =
     (let print' = (print \<or> v mod 10 \<noteq> 0)
      in fmtFrac_loop k (v div 10) (if print' then digit_char (v mod 10) # buf else buf) print')"

definition fmtFrac :: "string \<Rightarrow> nat \<Rightarrow> nat \<Rightarrow> nat \<times> string" where
  "fmtFrac buf v prec = (case fmtFrac_loop prec v buf False of (v', buf', print) \<Rightarrow>
     (v', if print then CHR ''.'' # buf' else buf'))"

definition micro :: string where
  "micro = [CHR 0xC2, CHR 0xB5]"

definition duration_text :: "nat \<Rightarrow> string" where
  "duration_text u =
     (if u < 10 ^ 9 then
        if u = 0 then ''0s''
        else let (prec, unit) = (if u < 10 ^ 3 then (0, ''n'') else if u < 10 ^ 6 then (3, micro) else (6, ''m''));
                 (v, buf) = fmtFrac (unit @ ''s'') u prec
             in fmtInt buf v
      else let (v, buf) = fmtFrac ''s'' u 9;
               buf = fmtInt buf (v mod 60);
               v = v div 60
           in if v > 0 then
                let buf = fmtInt (CHR ''m'' # buf) (v mod 60);
                    v = v div 60
                in if v > 0 then fmtInt (CHR ''h'' # buf) v else buf
              else buf)"

definition Duration_String :: "int \<Rightarrow> string" where
  "Duration_String d = (let text = duration_text (nat \<bar>d\<bar>) in if d < 0 then CHR ''-'' # text else text)"

subsection \<open>Reading Go's notation\<close>

fun leadingInt :: "nat \<Rightarrow> string \<Rightarrow> (nat \<times> string) option" where
  "leadingInt x [] = Some (x, [])"
| "leadingInt x (c # s) =
     (if \<not> is_digit c then Some (x, c # s)
      else if x > 2 ^ 63 div 10 then None
      else if x * 10 + digit_val c > 2 ^ 63 then None
      else leadingInt (x * 10 + digit_val c) s)"

fun leadingFraction :: "nat \<Rightarrow> rat \<Rightarrow> bool \<Rightarrow> string \<Rightarrow> nat \<times> rat \<times> string" where
  "leadingFraction x scale overflow [] = (x, scale, [])"
| "leadingFraction x scale overflow (c # s) =
     (if \<not> is_digit c then (x, scale, c # s)
      else if overflow \<or> x > (2 ^ 63 - 1) div 10 \<or> x * 10 + digit_val c > 2 ^ 63 then leadingFraction x scale True s
      else leadingFraction (x * 10 + digit_val c) (rnd (scale * 10)) False s)"

definition unitMap :: "string \<Rightarrow> nat option" where
  "unitMap u =
     (if u = ''ns'' then Some 1
      else if u = ''us'' \<or> u = micro @ ''s'' \<or> u = [CHR 0xCE, CHR 0xBC] @ ''s'' then Some (10 ^ 3)
      else if u = ''ms'' then Some (10 ^ 6)
      else if u = ''s'' then Some (10 ^ 9)
      else if u = ''m'' then Some (60 * 10 ^ 9)
      else if u = ''h'' then Some (3600 * 10 ^ 9)
      else None)"

definition in_unit :: "char \<Rightarrow> bool" where
  "in_unit c \<longleftrightarrow> c \<noteq> CHR ''.'' \<and> \<not> is_digit c"

definition invalid_duration :: err where
  "invalid_duration = DriverError ''time: invalid duration''"

text \<open>A number, its fraction and its unit; the result is what follows and what it amounts to.\<close>

definition parse_component :: "string \<Rightarrow> (nat \<times> string) res" where
  "parse_component s =
     (if s = [] \<or> (hd s \<noteq> CHR ''.'' \<and> \<not> is_digit (hd s)) then Inl invalid_duration
      else case leadingInt 0 s of
        None \<Rightarrow> Inl invalid_duration
      | Some (v, s1) \<Rightarrow>
          (let (f, scale, s2) = (if s1 \<noteq> [] \<and> hd s1 = CHR ''.'' then leadingFraction 0 1 False (tl s1) else (0, 1, s1));
               pre = (length s1 \<noteq> length s);
               post = (s1 \<noteq> [] \<and> hd s1 = CHR ''.'' \<and> length s2 \<noteq> length (tl s1));
               u = takeWhile in_unit s2
           in if \<not> pre \<and> \<not> post then Inl invalid_duration
              else if u = [] then Inl (DriverError ''time: missing unit in duration'')
              else case unitMap u of
                None \<Rightarrow> Inl (DriverError ''time: unknown unit in duration'')
              | Some unit \<Rightarrow>
                  if v > 2 ^ 63 div unit then Inl invalid_duration
                  else let w = v * unit + (if f > 0 then nat \<lfloor>rnd (rnd (of_nat f) * rnd (of_nat unit / scale))\<rfloor> else 0)
                       in if w > 2 ^ 63 then Inl invalid_duration else Inr (w, dropWhile in_unit s2)))"

lemma leadingInt_length: "leadingInt x s = Some (v, r) \<Longrightarrow> length r \<le> length s"
  by (induction x s rule: leadingInt.induct) (auto split: if_split_asm)

lemma leadingFraction_length: "leadingFraction x sc o' s = (f, sc', r) \<Longrightarrow> length r \<le> length s"
  by (induction x sc o' s rule: leadingFraction.induct) (auto split: if_split_asm)

lemma parse_component_shorter:
  assumes "parse_component s = Inr (w, r)"
  shows "length r < length s"
proof -
  have drop: "length (dropWhile in_unit x) < length x" if "takeWhile in_unit x \<noteq> []" for x
    using that by (cases x) (auto simp: le_imp_less_Suc length_dropWhile_le split: if_split_asm)
  obtain v s1 where i: "leadingInt 0 s = Some (v, s1)"
    using assms by (auto simp: parse_component_def split: if_split_asm option.split_asm)
  obtain f sc s2 where f: "(if s1 \<noteq> [] \<and> hd s1 = CHR ''.'' then leadingFraction 0 1 False (tl s1) else (0, 1, s1)) = (f, sc, s2)"
    using prod_cases3 by blast
  have "length s2 \<le> length s1"
    using f leadingFraction_length[of 0 1 False "tl s1" f sc s2] by (auto split: if_split_asm)
  moreover have "r = dropWhile in_unit s2 \<and> takeWhile in_unit s2 \<noteq> []"
    using assms i f by (auto simp: parse_component_def Let_def split: if_split_asm option.split_asm)
  ultimately show ?thesis using drop[of s2] leadingInt_length[OF i] by auto
qed

function parse_components :: "string \<Rightarrow> nat \<Rightarrow> nat res" where
  "parse_components s d =
     (if s = [] then Inr d
      else case parse_component s of
        Inl e \<Rightarrow> Inl e
      | Inr (w, r) \<Rightarrow> if (d + w) mod 2 ^ 64 > 2 ^ 63 then Inl invalid_duration else parse_components r ((d + w) mod 2 ^ 64))"
  by pat_completeness auto
termination
  by (relation "measure (length \<circ> fst)") (auto dest: parse_component_shorter)

declare parse_components.simps [simp del]

definition ParseDuration :: "string \<Rightarrow> int res" where
  "ParseDuration s =
     (let neg = (s \<noteq> [] \<and> hd s = CHR ''-'');
          s1 = (if s \<noteq> [] \<and> (hd s = CHR ''-'' \<or> hd s = CHR ''+'') then tl s else s)
      in if s1 = ''0'' then Inr 0
         else if s1 = [] then Inl invalid_duration
         else bind_res (parse_components s1 0) (\<lambda>d.
           if neg then Inr (- int d) else if d > 2 ^ 63 - 1 then Inl invalid_duration else Inr (int d)))"

subsection \<open>Numbers read back\<close>

lemma of_char_digit_char: "n < 10 \<Longrightarrow> (of_char (digit_char n) :: nat) = 48 + n"
  by (simp add: digit_char_def)

lemma digit_char_simps [simp]: "n < 10 \<Longrightarrow> is_digit (digit_char n)" "n < 10 \<Longrightarrow> digit_val (digit_char n) = n"
  by (simp_all add: is_digit_def digit_val_def of_char_digit_char)

lemma not_digit [simp]: "\<not> is_digit (CHR ''.'')" "\<not> is_digit (CHR ''n'')" "\<not> is_digit (CHR ''s'')" "\<not> is_digit (CHR ''m'')"
  "\<not> is_digit (CHR ''h'')" "\<not> is_digit (CHR 0xC2)" "\<not> is_digit (CHR 0xB5)" "\<not> is_digit (CHR '':'')" "\<not> is_digit (CHR ''-'')"
  "\<not> is_digit (CHR '' '')" "\<not> is_digit (CHR ''+'')"
  by (simp_all add: is_digit_def)

lemma dec_val_Nil [simp]: "dec_val [] = 0"
  by (simp add: dec_val_def)

lemma dec_val_snoc [simp]: "dec_val (ds @ [c]) = 10 * dec_val ds + digit_val c"
  by (simp add: dec_val_def)

lemma foldl_dec: "foldl (\<lambda>x c. 10 * x + digit_val c) x ds = x * 10 ^ length ds + dec_val ds"
proof (induction ds arbitrary: x rule: rev_induct)
  case (snoc c ds)
  then show ?case by (simp add: algebra_simps)
qed simp

lemma dec_val_Cons: "dec_val (c # ds) = digit_val c * 10 ^ length ds + dec_val ds"
  using foldl_dec[of "digit_val c" ds] by (simp add: dec_val_def)

lemma fmtInt_digits: "\<exists>ds. fmtInt buf v = ds @ buf \<and> ds \<noteq> [] \<and> list_all is_digit ds \<and> dec_val ds = v"
proof (induction buf v rule: fmtInt.induct)
  case (1 buf v)
  show ?case
  proof (cases "v < 10")
    case True
    then show ?thesis by (intro exI[of _ "[digit_char v]"]) (simp add: fmtInt.simps[of buf v] dec_val_Cons)
  next
    case False
    from 1[OF False] obtain ds where "fmtInt (digit_char (v mod 10) # buf) (v div 10) = ds @ digit_char (v mod 10) # buf"
        "list_all is_digit ds" "dec_val ds = v div 10" by blast
    with False show ?thesis by (intro exI[of _ "ds @ [digit_char (v mod 10)]"]) (simp add: fmtInt.simps[of buf v])
  qed
qed

lemma fmtFrac_loop_all:
  "\<exists>ds. fmtFrac_loop k v buf True = (v div 10 ^ k, ds @ buf, True) \<and> list_all is_digit ds \<and> length ds = k \<and> dec_val ds = v mod 10 ^ k"
proof (induction k arbitrary: v buf)
  case (Suc k)
  from Suc[of "v div 10" "digit_char (v mod 10) # buf"] obtain ds where
    "fmtFrac_loop k (v div 10) (digit_char (v mod 10) # buf) True = (v div 10 div 10 ^ k, ds @ digit_char (v mod 10) # buf, True)"
    "list_all is_digit ds" "length ds = k" "dec_val ds = v div 10 mod 10 ^ k" by blast
  then show ?case
    by (intro exI[of _ "ds @ [digit_char (v mod 10)]"]) (simp add: Let_def div_mult2_eq mod_mult2_eq)
qed simp

lemma fmtFrac_loop_digits:
  "\<exists>ds. fmtFrac_loop k v buf False = (v div 10 ^ k, ds @ buf, ds \<noteq> []) \<and> list_all is_digit ds \<and> length ds \<le> k \<and>
     dec_val ds * 10 ^ (k - length ds) = v mod 10 ^ k"
proof (induction k arbitrary: v buf)
  case (Suc k)
  show ?case
  proof (cases "v mod 10 = 0")
    case True
    from Suc[of "v div 10" buf] obtain ds where
      "fmtFrac_loop k (v div 10) buf False = (v div 10 div 10 ^ k, ds @ buf, ds \<noteq> [])" "list_all is_digit ds" "length ds \<le> k"
      "dec_val ds * 10 ^ (k - length ds) = v div 10 mod 10 ^ k" by blast
    with True show ?thesis
      by (intro exI[of _ ds]) (simp add: Let_def div_mult2_eq mod_mult2_eq Suc_diff_le)
  next
    case False
    from fmtFrac_loop_all[of k "v div 10" "digit_char (v mod 10) # buf"] obtain ds where
      "fmtFrac_loop k (v div 10) (digit_char (v mod 10) # buf) True = (v div 10 div 10 ^ k, ds @ digit_char (v mod 10) # buf, True)"
      "list_all is_digit ds" "length ds = k" "dec_val ds = v div 10 mod 10 ^ k" by blast
    with False show ?thesis
      by (intro exI[of _ "ds @ [digit_char (v mod 10)]"]) (simp add: Let_def div_mult2_eq mod_mult2_eq)
  qed
qed simp

lemma leadingInt_digits:
  "list_all is_digit ds \<Longrightarrow> r = [] \<or> \<not> is_digit (hd r) \<Longrightarrow> x * 10 ^ length ds + dec_val ds \<le> 2 ^ 63 \<Longrightarrow>
   leadingInt x (ds @ r) = Some (x * 10 ^ length ds + dec_val ds, r)"
proof (induction ds arbitrary: x)
  case Nil
  then show ?case by (cases r) auto
next
  case (Cons c ds)
  let ?x = "x * 10 + digit_val c"
  have eq: "?x * 10 ^ length ds + dec_val ds = x * 10 ^ length (c # ds) + dec_val (c # ds)"
    by (simp add: dec_val_Cons algebra_simps)
  then have le: "?x * 10 ^ length ds + dec_val ds \<le> 2 ^ 63" using Cons.prems(3) by simp
  have "?x \<le> ?x * 10 ^ length ds" by simp
  with le have x: "?x \<le> 2 ^ 63" by linarith
  then have "x \<le> 2 ^ 63 div 10" by simp
  then have "leadingInt x ((c # ds) @ r) = leadingInt ?x (ds @ r)" using x Cons.prems(1) by simp
  also have "\<dots> = Some (?x * 10 ^ length ds + dec_val ds, r)" using Cons.IH[OF _ Cons.prems(2) le] Cons.prems(1) by simp
  finally show ?case unfolding eq .
qed

lemma digit_val_less: "is_digit c \<Longrightarrow> digit_val c < 10"
  by (auto simp: is_digit_def digit_val_def)

lemma dec_val_less: "list_all is_digit ds \<Longrightarrow> dec_val ds < 10 ^ length ds"
proof (induction ds rule: rev_induct)
  case (snoc c ds)
  then have "dec_val ds + 1 \<le> 10 ^ length ds" "digit_val c < 10" by (simp_all add: digit_val_less)
  then show ?case by simp
qed simp

lemma rnd_nat: "n < 2 ^ 53 \<Longrightarrow> rnd (of_nat n) = of_nat n"
  using rnd_exact[of "int n"] by simp

lemma rnd_scale: "k < 9 \<Longrightarrow> rnd (10 ^ k * 10) = 10 ^ Suc k"
proof -
  assume k: "k < 9"
  have "(10 :: nat) ^ Suc k \<le> 10 ^ 9" using k by (intro power_increasing) auto
  then have "(10 :: nat) ^ Suc k < 2 ^ 53" by simp
  from rnd_nat[OF this] show ?thesis by (simp add: mult.commute)
qed

lemma leadingFraction_digits:
  "list_all is_digit ds \<Longrightarrow> r = [] \<or> \<not> is_digit (hd r) \<Longrightarrow> k + length ds \<le> 9 \<Longrightarrow> x < 10 ^ k \<Longrightarrow>
   leadingFraction x (10 ^ k) False (ds @ r) = (x * 10 ^ length ds + dec_val ds, 10 ^ (k + length ds), r)"
proof (induction ds arbitrary: x k)
  case Nil
  then show ?case by (cases r) auto
next
  case (Cons c ds)
  let ?x = "x * 10 + digit_val c"
  have eq: "?x * 10 ^ length ds + dec_val ds = x * 10 ^ length (c # ds) + dec_val (c # ds)"
    by (simp add: dec_val_Cons algebra_simps)
  have d: "digit_val c < 10" "is_digit c" using Cons.prems(1) by (simp_all add: digit_val_less)
  have "x + 1 \<le> 10 ^ k" using Cons.prems(4) by simp
  then have x: "?x < 10 ^ Suc k" using d(1) by simp
  also have "(10 :: nat) ^ Suc k \<le> 10 ^ 9" using Cons.prems(3) by (intro power_increasing) auto
  finally have "?x < 10 ^ 9" .
  then have small: "\<not> (x > (2 ^ 63 - 1) div 10 \<or> ?x > 2 ^ 63)" by simp
  have "leadingFraction x (10 ^ k) False ((c # ds) @ r) = leadingFraction ?x (10 ^ Suc k) False (ds @ r)"
    using small d(2) rnd_scale[of k] Cons.prems(3) by simp
  also have "\<dots> = (?x * 10 ^ length ds + dec_val ds, 10 ^ (Suc k + length ds), r)"
    using Cons.prems x by (intro Cons.IH) auto
  finally show ?case unfolding eq by simp
qed

definition frac_text :: "string \<Rightarrow> string" where
  "frac_text es = (if es = [] then [] else CHR ''.'' # es)"

lemma fraction_float:
  assumes "f < 10 ^ k" and "unit = m * 10 ^ k" and "unit < 2 ^ 53" and "k \<le> 9"
  shows "nat \<lfloor>rnd (rnd (of_nat f) * rnd (of_nat unit / 10 ^ k))\<rfloor> = f * m"
proof -
  have "(10 :: nat) ^ k \<le> 10 ^ 9" using assms(4) by (intro power_increasing) auto
  with assms(1) have f: "f < 2 ^ 53" by simp
  have m: "m \<le> unit" using assms(2) by simp
  have "f * m \<le> unit" using assms(1,2) by (simp add: mult.commute)
  then have fm: "f * m < 2 ^ 53" using assms(3) by simp
  have "(of_nat unit / 10 ^ k :: rat) = of_nat m" using assms(2) by simp
  then show ?thesis using rnd_nat[OF f] rnd_nat[of m] m assms(3) rnd_nat[OF fm] by (simp flip: of_nat_mult)
qed

lemma parse_component_text:
  assumes ds: "list_all is_digit ds" "ds \<noteq> []" and es: "list_all is_digit es" "length es \<le> 9"
    and u: "unitMap u = Some unit" "list_all in_unit u" "u \<noteq> []" and r: "r = [] \<or> is_digit (hd r)"
    and m: "unit = m * 10 ^ length es" "unit < 2 ^ 53" and le: "dec_val ds * unit + dec_val es * m \<le> 2 ^ 63" and pos: "0 < unit"
  shows "parse_component (ds @ frac_text es @ u @ r) = Inr (dec_val ds * unit + dec_val es * m, r)"
proof -
  let ?s = "ds @ frac_text es @ u @ r" and ?v = "dec_val ds"
  have hd_u: "hd (u @ r) \<noteq> CHR ''.''" "\<not> is_digit (hd (u @ r))" "u @ r \<noteq> []"
    using u(2,3) by (cases u; simp add: in_unit_def)+
  have v: "?v \<le> 2 ^ 63 div unit" using le pos by (simp add: less_eq_div_iff_mult_less_eq)
  have "?v * 1 \<le> ?v * unit" using pos by (intro mult_le_mono) auto
  then have "?v \<le> 2 ^ 63" using le by linarith
  moreover have "\<not> is_digit (hd (frac_text es @ u @ r))" using hd_u by (simp add: frac_text_def)
  ultimately have int: "leadingInt 0 ?s = Some (?v, frac_text es @ u @ r)"
    using leadingInt_digits[OF ds(1), of "frac_text es @ u @ r" 0] by simp
  have start: "\<not> (?s = [] \<or> (hd ?s \<noteq> CHR ''.'' \<and> \<not> is_digit (hd ?s)))" using ds by (cases ds) auto
  have frac: "(if frac_text es @ u @ r \<noteq> [] \<and> hd (frac_text es @ u @ r) = CHR ''.'' then leadingFraction 0 1 False (tl (frac_text es @ u @ r))
      else (0, 1, frac_text es @ u @ r)) = (dec_val es, 10 ^ length es, u @ r)"
    using leadingFraction_digits[OF es(1), of "u @ r" 0 0] hd_u es(2) by (simp add: frac_text_def)
  have unit: "takeWhile in_unit (u @ r) = u" "dropWhile in_unit (u @ r) = r"
    using u(2) r by (cases r; auto simp: in_unit_def list_all_iff takeWhile_append dropWhile_append)+
  have float: "nat \<lfloor>rnd (rnd (of_nat (dec_val es)) * rnd (of_nat unit / 10 ^ length es))\<rfloor> = dec_val es * m"
    using fraction_float[OF dec_val_less[OF es(1)] m es(2)] .
  have len: "length (frac_text es @ u @ r) \<noteq> length ?s" using ds(2) by simp
  show ?thesis
    unfolding parse_component_def if_not_P[OF start] int option.case prod.case frac Let_def unit
    using len u(1,3) v le float by simp
qed

lemma fmtFrac_text:
  obtains es where "fmtFrac buf v prec = (v div 10 ^ prec, frac_text es @ buf)" and "list_all is_digit es" and "length es \<le> prec"
    and "dec_val es * 10 ^ (prec - length es) = v mod 10 ^ prec"
proof -
  obtain es where "fmtFrac_loop prec v buf False = (v div 10 ^ prec, es @ buf, es \<noteq> [])" "list_all is_digit es" "length es \<le> prec"
      "dec_val es * 10 ^ (prec - length es) = v mod 10 ^ prec"
    using fmtFrac_loop_digits by blast
  then show ?thesis by (intro that[of es]) (simp_all add: fmtFrac_def frac_text_def)
qed

lemma parse_components_Nil [simp]: "parse_components [] d = Inr d"
  by (simp add: parse_components.simps)

lemma parse_components_step:
  assumes "parse_component s = Inr (w, r)" and "d + w \<le> 2 ^ 63"
  shows "parse_components s d = parse_components r (d + w)"
proof -
  have "s \<noteq> []" using assms(1) by (auto simp: parse_component_def)
  moreover have "(d + w) mod 2 ^ 64 = d + w" using assms(2) by simp
  ultimately show ?thesis using assms by (subst parse_components.simps) simp
qed

text \<open>A number with a unit of its own, as for hours and minutes, and one with a fraction, as for all others.\<close>

lemma parse_whole:
  assumes "unitMap u = Some unit" and "list_all in_unit u" and "u \<noteq> []" and "r = [] \<or> is_digit (hd r)" and "unit < 2 ^ 53" and "0 < unit"
    and "d + v * unit \<le> 2 ^ 63"
  shows "parse_components (fmtInt (u @ r) v) d = parse_components r (d + v * unit)"
proof -
  obtain ds where ds: "fmtInt (u @ r) v = ds @ u @ r" "ds \<noteq> []" "list_all is_digit ds" "dec_val ds = v"
    using fmtInt_digits by blast
  have "parse_component (ds @ frac_text [] @ u @ r) = Inr (v * unit, r)"
    using parse_component_text[OF ds(3,2), of "[]" u unit r unit] assms ds(4) by simp
  then show ?thesis using ds(1) assms(7) parse_components_step by (simp add: frac_text_def)
qed

lemma parse_fraction:
  assumes "unitMap u = Some (10 ^ prec)" and "list_all in_unit u" and "u \<noteq> []" and "prec \<le> 9" and "fmtFrac u v prec = (q, buf)"
    and "d + (q mod k) * 10 ^ prec + v mod 10 ^ prec \<le> 2 ^ 63"
  shows "parse_components (fmtInt buf (q mod k)) d = Inr (d + (q mod k) * 10 ^ prec + v mod 10 ^ prec)"
proof -
  obtain es where es: "fmtFrac u v prec = (v div 10 ^ prec, frac_text es @ u)" "list_all is_digit es" "length es \<le> prec"
      "dec_val es * 10 ^ (prec - length es) = v mod 10 ^ prec"
    by (rule fmtFrac_text)
  obtain ds where ds: "fmtInt (frac_text es @ u) (q mod k) = ds @ frac_text es @ u" "ds \<noteq> []" "list_all is_digit ds" "dec_val ds = q mod k"
    using fmtInt_digits by blast
  have p: "(10 :: nat) ^ prec = 10 ^ (prec - length es) * 10 ^ length es" using es(3) by (simp flip: power_add)
  have "(10 :: nat) ^ prec \<le> 10 ^ 9" using assms(4) by (intro power_increasing) auto
  then have small: "(10 :: nat) ^ prec < 2 ^ 53" by simp
  have "parse_component (ds @ frac_text es @ u @ []) = Inr ((q mod k) * 10 ^ prec + v mod 10 ^ prec, [])"
    using parse_component_text[OF ds(3,2) es(2) _ assms(1-3) _ p small, of "[]"] es(3,4) ds(4) assms(4,6) by simp
  from parse_components_step[OF this] assms(5,6) es(1) ds(1) show ?thesis by (simp add: add.assoc)
qed

lemma fmtInt_head [simp]: "fmtInt buf v \<noteq> []" "is_digit (hd (fmtInt buf v))"
proof -
  obtain ds where "fmtInt buf v = ds @ buf" "ds \<noteq> []" "list_all is_digit ds" using fmtInt_digits by blast
  then show "fmtInt buf v \<noteq> []" "is_digit (hd (fmtInt buf v))" by (cases ds; simp)+
qed

lemma duration_text_head: "duration_text u \<noteq> [] \<and> is_digit (hd (duration_text u))"
proof -
  have "is_digit (CHR ''0'')" by (simp add: is_digit_def)
  then show ?thesis by (auto simp: duration_text_def Let_def split: prod.split)
qed

lemma digit_char_0: "digit_char 0 = CHR ''0''"
  by code_simp

lemma unit_facts [simp]:
  "list_all in_unit micro" "in_unit CHR ''n''" "in_unit CHR ''s''" "in_unit CHR ''m''" "in_unit CHR ''h''"
  "unitMap ''ns'' = Some 1" "unitMap (micro @ ''s'') = Some (10 ^ 3)" "unitMap ''ms'' = Some (10 ^ 6)" "unitMap ''s'' = Some (10 ^ 9)"
  "unitMap ''m'' = Some (60 * 10 ^ 9)" "unitMap ''h'' = Some (3600 * 10 ^ 9)"
  by (simp_all add: in_unit_def micro_def unitMap_def)

lemma parse_small:
  assumes "unitMap u = Some (10 ^ prec)" and "list_all in_unit u" and "u \<noteq> []" and "prec \<le> 9" and "n \<le> 2 ^ 63"
  shows "parse_components (case fmtFrac u n prec of (v, buf) \<Rightarrow> fmtInt buf v) 0 = Inr n"
proof -
  obtain q buf where f: "fmtFrac u n prec = (q, buf)" by force
  have q: "q = n div 10 ^ prec" by (rule fmtFrac_text[of u n prec]) (simp add: f)
  have n: "q * 10 ^ prec + n mod 10 ^ prec = n" unfolding q by (rule div_mult_mod_eq)
  have "q mod Suc q = q" by simp
  with parse_fraction[OF assms(1-4) f, of 0 "Suc q"] n assms(5) f show ?thesis by simp
qed

lemma parse_duration_text:
  assumes "0 < n" and "n \<le> 2 ^ 63"
  shows "parse_components (duration_text n) 0 = Inr n"
proof (cases "n < 10 ^ 9")
  case True
  then show ?thesis
    using assms parse_small[of "''ns''" 0 n] parse_small[of "micro @ ''s''" 3 n] parse_small[of "''ms''" 6 n]
    by (simp add: duration_text_def)
next
  case False
  obtain v buf where f: "fmtFrac ''s'' n 9 = (v, buf)" by force
  have v: "v = n div 10 ^ 9" by (rule fmtFrac_text[of "''s''" n 9]) (simp add: f)
  define b1 where "b1 = fmtInt buf (v mod 60)"
  define b2 where "b2 = fmtInt (CHR ''m'' # b1) (v div 60 mod 60)"
  have n: "v * 10 ^ 9 + n mod 10 ^ 9 = n" unfolding v by (rule div_mult_mod_eq)
  have v60: "v = v div 60 div 60 * 3600 + v div 60 mod 60 * 60 + v mod 60"
    using div_mult_mod_eq[of v 60] div_mult_mod_eq[of "v div 60" 60] by linarith
  have total: "v div 60 div 60 * (3600 * 10 ^ 9) + v div 60 mod 60 * (60 * 10 ^ 9) + v mod 60 * 10 ^ 9 + n mod 10 ^ 9 = n"
  proof -
    have "v * 10 ^ 9 = (v div 60 div 60 * 3600 + v div 60 mod 60 * 60 + v mod 60) * 10 ^ 9" using v60 by (rule arg_cong)
    also have "\<dots> = v div 60 div 60 * (3600 * 10 ^ 9) + v div 60 mod 60 * (60 * 10 ^ 9) + v mod 60 * 10 ^ 9" by (simp only: distrib_right mult.assoc)
    finally show ?thesis using n by linarith
  qed
  have secs: "parse_components b1 d = Inr (d + v mod 60 * 10 ^ 9 + n mod 10 ^ 9)" if "d + v mod 60 * 10 ^ 9 + n mod 10 ^ 9 \<le> 2 ^ 63" for d
    using parse_fraction[of "''s''" 9 n v buf d 60] f that by (simp add: b1_def)
  have mins: "parse_components b2 d = Inr (d + v div 60 mod 60 * (60 * 10 ^ 9) + v mod 60 * 10 ^ 9 + n mod 10 ^ 9)"
    if "d + v div 60 mod 60 * (60 * 10 ^ 9) + v mod 60 * 10 ^ 9 + n mod 10 ^ 9 \<le> 2 ^ 63" for d
    using parse_whole[of "''m''" "60 * 10 ^ 9" b1 d "v div 60 mod 60"] secs that by (simp add: b2_def b1_def)
  have hours: "parse_components (fmtInt (CHR ''h'' # b2) (v div 60 div 60)) 0 = Inr n"
    using parse_whole[of "''h''" "3600 * 10 ^ 9" b2 0 "v div 60 div 60"] mins[of "v div 60 div 60 * (3600 * 10 ^ 9)"] total assms(2)
    by (simp add: b2_def)
  show ?thesis
    using False f secs[of 0] mins[of 0] hours total assms(2) by (auto simp: duration_text_def Let_def b1_def b2_def)
qed

lemma ParseDuration_String:
  assumes "- (2 ^ 63) \<le> d" and "d < 2 ^ 63"
  shows "ParseDuration (Duration_String d) = Inr d"
proof (cases "d = 0")
  case True
  have "parse_components ''0s'' 0 = Inr 0"
    using parse_whole[of "''s''" "10 ^ 9" "[]" 0 0] by (simp add: fmtInt.simps digit_char_0)
  with True show ?thesis by (simp add: ParseDuration_def Duration_String_def duration_text_def)
next
  case False
  let ?n = "nat \<bar>d\<bar>"
  have p: "parse_components (duration_text ?n) 0 = Inr ?n" using False assms by (intro parse_duration_text) auto
  have h: "duration_text ?n \<noteq> []" "is_digit (hd (duration_text ?n))" using duration_text_head by blast+
  then have ne: "hd (duration_text ?n) \<noteq> CHR ''-''" "hd (duration_text ?n) \<noteq> CHR ''+''" by auto
  have "duration_text ?n \<noteq> ''0''"
  proof
    assume "duration_text ?n = ''0''"
    with p show False by (simp add: parse_components.simps parse_component_def is_digit_def digit_val_def Let_def)
  qed
  with p h ne assms show ?thesis by (auto simp: ParseDuration_def Duration_String_def Let_def)
qed

subsection \<open>PostgreSQL's notation\<close>

text \<open>A number with an optional sign, and a group of the expression that is a number with the name of a unit.\<close>

definition signed_num :: "string \<Rightarrow> (string \<times> string) option" where
  "signed_num s =
     (let (sg, r) = (if s \<noteq> [] \<and> (hd s = CHR ''+'' \<or> hd s = CHR ''-'') then ([hd s], tl s) else ([], s));
          ds = takeWhile is_digit r
      in if ds = [] then None else Some (sg @ ds, dropWhile is_digit r))"

definition opt_unit :: "string \<Rightarrow> string \<Rightarrow> string \<times> string" where
  "opt_unit name s =
     (case signed_num s of
        None \<Rightarrow> ([], s)
      | Some (v, r) \<Rightarrow>
          if \<not> prefix (CHR '' '' # name) r then ([], s)
          else let r1 = drop (Suc (length name)) r;
                   r2 = (if r1 \<noteq> [] \<and> hd r1 = CHR ''s'' then tl r1 else r1)
               in if r2 \<noteq> [] \<and> hd r2 = CHR '' '' then (v, tl r2) else ([], s))"

definition expect :: "char \<Rightarrow> string \<Rightarrow> string option" where
  "expect c s = (if s \<noteq> [] \<and> hd s = c then Some (tl s) else None)"

record pg_groups =
  pgYears :: string
  pgMonths :: string
  pgDays :: string
  pgHours :: string
  pgMinutes :: string
  pgSeconds :: string
  pgSubseconds :: string

definition subseconds_group :: "string \<Rightarrow> string option" where
  "subseconds_group s =
     (if s = [] then Some []
      else case expect (CHR ''.'') s of None \<Rightarrow> None | Some fs \<Rightarrow> if fs \<noteq> [] \<and> list_all is_digit fs then Some fs else None)"

definition pgIntervalRegexp :: "string \<Rightarrow> pg_groups option" where
  "pgIntervalRegexp s =
     (let (y, s1) = opt_unit ''year'' s; (mo, s2) = opt_unit ''mon'' s1; (d, s3) = opt_unit ''day'' s2 in
      Option.bind (signed_num s3) (\<lambda>(h, r).
      Option.bind (expect (CHR '':'') r) (\<lambda>r1.
      Option.bind (signed_num r1) (\<lambda>(m, r2).
      Option.bind (expect (CHR '':'') r2) (\<lambda>r3.
      Option.bind (signed_num r3) (\<lambda>(sec, r4).
      Option.bind (subseconds_group r4) (\<lambda>fs.
        Some \<lparr>pgYears = y, pgMonths = mo, pgDays = d, pgHours = h, pgMinutes = m, pgSeconds = sec, pgSubseconds = fs\<rparr>)))))))"

definition Atoi :: "string \<Rightarrow> int res" where
  "Atoi s =
     (let ds = (if s \<noteq> [] \<and> (hd s = CHR ''+'' \<or> hd s = CHR ''-'') then tl s else s);
          x = (if s \<noteq> [] \<and> hd s = CHR ''-'' then - int (dec_val ds) else int (dec_val ds))
      in if ds = [] \<or> \<not> list_all is_digit ds then Inl (DriverError ''invalid syntax'')
         else if x < - (2 ^ 63) \<or> x > 2 ^ 63 - 1 then Inl (DriverError ''value out of range'')
         else Inr x)"

definition adjustDuration :: "int \<Rightarrow> string \<Rightarrow> int \<Rightarrow> int res" where
  "adjustDuration d value scale =
     (if value = [] then Inr d else map_sum id (\<lambda>i. int64 (d + int64 (i * scale))) (Atoi value))"

definition day :: duration where "day = 24 * hour"
definition month :: duration where "month = 30 * day"
definition year :: duration where "year = 365 * day"

definition ParsePostgreSQLInterval :: "string \<Rightarrow> int res" where
  "ParsePostgreSQLInterval s =
     (case pgIntervalRegexp s of
        None \<Rightarrow> (case ParseDuration s of Inl e \<Rightarrow> Inl (DriverError ''unrecognized interval format'') | Inr d \<Rightarrow> Inr d)
      | Some g \<Rightarrow>
          bind_res (adjustDuration 0 (pgYears g) year) (\<lambda>d.
          bind_res (adjustDuration d (pgMonths g) month) (\<lambda>d.
          bind_res (adjustDuration d (pgDays g) day) (\<lambda>d.
          bind_res (adjustDuration d (pgHours g) hour) (\<lambda>d.
          bind_res (adjustDuration d (pgMinutes g) minute) (\<lambda>d.
          bind_res (adjustDuration d (pgSeconds g) second) (\<lambda>d.
          if pgSubseconds g = [] then Inr d
          else if length (pgSubseconds g) > 9 then Inl (DriverError ''cannot parse beyond nanosecond resolution'')
          else adjustDuration d (pgSubseconds g) (second div 10 ^ length (pgSubseconds g)))))))))"

datatype scanSource = SrcDuration int | SrcInt64 int | SrcString string | SrcNil | SrcOther

definition Value :: "int \<Rightarrow> string" where
  "Value i = Duration_String i"

definition Scan :: "scanSource \<Rightarrow> int res" where
  "Scan src =
     (case src of
        SrcDuration d \<Rightarrow> Inr d
      | SrcInt64 n \<Rightarrow> Inr n
      | SrcString s \<Rightarrow> ParsePostgreSQLInterval s
      | SrcNil \<Rightarrow> Inr 0
      | SrcOther \<Rightarrow> Inl (DriverError ''unsupported scan type''))"

subsection \<open>What is written is read back\<close>

lemma signed_num_rest: "signed_num s = Some (v, r) \<Longrightarrow> set r \<subseteq> set s"
  by (cases s) (auto simp: signed_num_def Let_def dest: set_dropWhileD split: if_split_asm)

lemma opt_unit_rest: "opt_unit name s = (v, r) \<Longrightarrow> set r \<subseteq> set s"
proof -
  assume a: "opt_unit name s = (v, r)"
  show ?thesis
  proof (cases "signed_num s")
    case None
    then show ?thesis using a by (simp add: opt_unit_def)
  next
    case (Some x)
    then obtain w t where st: "signed_num s = Some (w, t)" by (cases x) auto
    have tl: "set (tl ys) \<subseteq> set ys" for ys :: string by (cases ys) auto
    have "r = s \<or> r = tl (drop (Suc (length name)) t) \<or> r = tl (tl (drop (Suc (length name)) t))"
      using a st by (auto simp: opt_unit_def Let_def split: if_split_asm)
    moreover have "set (tl (drop k t)) \<subseteq> set t" "set (tl (tl (drop k t))) \<subseteq> set t" for k
      using tl[of "drop k t"] tl[of "tl (drop k t)"] set_drop_subset[of k t] by blast+
    ultimately have "set r \<subseteq> set s \<or> set r \<subseteq> set t" by blast
    with signed_num_rest[OF st] show ?thesis by blast
  qed
qed

lemma regexp_needs_colon:
  assumes "pgIntervalRegexp s = Some g"
  shows "CHR '':'' \<in> set s"
proof -
  obtain y s1 where 1: "opt_unit ''year'' s = (y, s1)" by force
  obtain mo s2 where 2: "opt_unit ''mon'' s1 = (mo, s2)" by force
  obtain d s3 where 3: "opt_unit ''day'' s2 = (d, s3)" by force
  from assms 1 2 3 obtain h r r1 where "signed_num s3 = Some (h, r)" "expect (CHR '':'') r = Some r1"
    by (auto simp: pgIntervalRegexp_def bind_eq_Some_conv)
  then have "CHR '':'' \<in> set s3" using signed_num_rest[of s3 h r] by (cases r) (auto simp: expect_def split: if_split_asm)
  then show ?thesis using opt_unit_rest[OF 1] opt_unit_rest[OF 2] opt_unit_rest[OF 3] by blast
qed

lemma no_colon_digits: "list_all is_digit ds \<Longrightarrow> CHR '':'' \<notin> set ds"
  by (auto simp: list_all_iff is_digit_def)

lemma no_colon_fmtInt [simp]: "CHR '':'' \<in> set (fmtInt buf v) \<longleftrightarrow> CHR '':'' \<in> set buf"
proof -
  obtain ds where "fmtInt buf v = ds @ buf" "list_all is_digit ds" using fmtInt_digits by blast
  then show ?thesis using no_colon_digits by auto
qed

lemma no_colon_fmtFrac [simp]: "CHR '':'' \<in> set (snd (fmtFrac buf v prec)) \<longleftrightarrow> CHR '':'' \<in> set buf"
  by (rule fmtFrac_text[of buf v prec]) (auto simp: frac_text_def dest: no_colon_digits)

lemma no_colon_text: "CHR '':'' \<notin> set (Duration_String d)"
  by (auto simp: Duration_String_def duration_text_def Let_def micro_def case_prod_beta)

text \<open>
  Property C19. Every duration of 64 bits survives the database that returns what was written: reading
  the text that \<open>Value\<close> writes gives the same number of nanoseconds, also where a fraction passes
  through floating point arithmetic, and down to the smallest negative number.
\<close>

theorem interval_roundtrip:
  assumes "- (2 ^ 63) \<le> i" and "i < 2 ^ 63"
  shows "Scan (SrcString (Value i)) = Inr i"
proof -
  have "pgIntervalRegexp (Duration_String i) = None"
    using no_colon_text regexp_needs_colon by (cases "pgIntervalRegexp (Duration_String i)") auto
  then show ?thesis using ParseDuration_String[OF assms] by (simp add: Scan_def Value_def ParsePostgreSQLInterval_def)
qed

theorem interval_roundtrip_witness:
  "Scan (SrcString (Value (- 1500000000))) = Inr (- 1500000000)"
  by (rule interval_roundtrip) simp_all

subsection \<open>PostgreSQL's notation of a time\<close>

text \<open>The value of a number with the sign in front of it.\<close>

definition sign_val :: "string \<Rightarrow> string \<Rightarrow> int" where
  "sign_val sg ds = (if sg = ''-'' then - int (dec_val ds) else int (dec_val ds))"

definition numeral_text :: "string \<Rightarrow> bool" where
  "numeral_text ds \<longleftrightarrow> ds \<noteq> [] \<and> list_all is_digit ds"

lemma signed_num_text:
  assumes "numeral_text ds" and "sg = [] \<or> sg = ''-''" and "r = [] \<or> \<not> is_digit (hd r)"
  shows "signed_num (sg @ ds @ r) = Some (sg @ ds, r)"
proof -
  have w: "takeWhile is_digit (ds @ r) = ds \<and> dropWhile is_digit (ds @ r) = r"
    using assms(1,3) by (cases r) (auto simp: numeral_text_def list_all_iff takeWhile_append dropWhile_append)
  have "is_digit (hd ds) \<and> ds \<noteq> []" using assms(1) by (cases ds) (auto simp: numeral_text_def)
  then have "hd (ds @ r) \<noteq> CHR ''+'' \<and> hd (ds @ r) \<noteq> CHR ''-'' \<and> ds \<noteq> []" by (auto simp: is_digit_def)
  with assms(2) w show ?thesis by (auto simp: signed_num_def Let_def)
qed

lemma opt_unit_time:
  assumes "numeral_text ds" and "sg = [] \<or> sg = ''-''"
  shows "opt_unit name (sg @ ds @ CHR '':'' # r) = ([], sg @ ds @ CHR '':'' # r)"
  using signed_num_text[OF assms, of "CHR '':'' # r"] by (simp add: opt_unit_def is_digit_def)

lemma Atoi_text:
  assumes "numeral_text ds" and "sg = [] \<or> sg = ''-''" and "int (dec_val ds) < 2 ^ 63"
  shows "Atoi (sg @ ds) = Inr (sign_val sg ds)"
proof -
  have "is_digit (hd ds) \<and> ds \<noteq> []" using assms(1) by (cases ds) (auto simp: numeral_text_def)
  then have "hd ds \<noteq> CHR ''+'' \<and> hd ds \<noteq> CHR ''-'' \<and> ds \<noteq> []" by (auto simp: is_digit_def)
  with assms show ?thesis by (auto simp: Atoi_def sign_val_def numeral_text_def Let_def)
qed

lemma adjustDuration_text:
  assumes "numeral_text ds" and "sg = [] \<or> sg = ''-''" and "0 < scale"
    and "int (dec_val ds) * scale < 2 ^ 63" and "\<bar>d + sign_val sg ds * scale\<bar> < 2 ^ 63"
  shows "adjustDuration d (sg @ ds) scale = Inr (d + sign_val sg ds * scale)"
proof -
  have "int (dec_val ds) * 1 \<le> int (dec_val ds) * scale" using assms(3) by (intro mult_left_mono) auto
  then have "Atoi (sg @ ds) = Inr (sign_val sg ds)" using assms(4) by (intro Atoi_text assms(1,2)) linarith
  moreover have "0 \<le> int (dec_val ds) * scale" using assms(3) by simp
  then have "int64 (sign_val sg ds * scale) = sign_val sg ds * scale"
    using assms(4) by (intro int64_id; cases "sg = ''-''") (simp_all add: sign_val_def)
  ultimately show ?thesis
    using assms(1,5) int64_id[of "d + sign_val sg ds * scale"] by (auto simp: adjustDuration_def numeral_text_def)
qed

lemma pgIntervalRegexp_time:
  assumes "numeral_text hs" and "numeral_text ms" and "numeral_text ss" and "numeral_text fs"
    and sg: "sg = [] \<or> sg = ''-''"
  shows "pgIntervalRegexp (sg @ hs @ CHR '':'' # ms @ CHR '':'' # ss @ CHR ''.'' # fs) =
    Some \<lparr>pgYears = [], pgMonths = [], pgDays = [], pgHours = sg @ hs, pgMinutes = ms, pgSeconds = ss, pgSubseconds = fs\<rparr>"
proof -
  note n = signed_num_text[OF assms(1) sg] signed_num_text[OF assms(2), of "[]", simplified]
    signed_num_text[OF assms(3), of "[]", simplified]
  show ?thesis
    using assms(4) by (simp add: pgIntervalRegexp_def opt_unit_time[OF assms(1) sg] n is_digit_def expect_def
        subseconds_group_def numeral_text_def)
qed

text \<open>
  Property C36. A time in PostgreSQL's notation, hours, minutes, seconds and one to nine digits of a
  second, is read with exact values where it fits into 64 bits, but a sign in front of it applies to
  the hours alone: the text of minus half a minute reads as plus half a minute.
\<close>

theorem pg_time_read:
  assumes "numeral_text hs" and "numeral_text ms" and "numeral_text ss" and "numeral_text fs"
    and "length fs \<le> 9" and "sg = [] \<or> sg = ''-''"
    and "int (dec_val hs) * hour + int (dec_val ms) * minute + int (dec_val ss) * second
           + int (dec_val fs) * (second div 10 ^ length fs) < 2 ^ 63"
  shows "ParsePostgreSQLInterval (sg @ hs @ CHR '':'' # ms @ CHR '':'' # ss @ CHR ''.'' # fs) =
    Inr (sign_val sg hs * hour + int (dec_val ms) * minute + int (dec_val ss) * second
           + int (dec_val fs) * (second div 10 ^ length fs))"
proof -
  let ?h = "int (dec_val hs) * hour" and ?m = "int (dec_val ms) * minute" and ?s = "int (dec_val ss) * second"
    and ?u = "second div 10 ^ length fs"
  let ?f = "int (dec_val fs) * ?u"
  have u: "0 < ?u"
  proof -
    have "(10 :: int) ^ length fs \<le> 10 ^ 9" using assms(5) by (intro power_increasing) auto
    then show ?thesis by (simp add: pos_imp_zdiv_pos_iff)
  qed
  have nn: "0 \<le> ?h" "0 \<le> ?m" "0 \<le> ?s" "0 \<le> ?f" using u by simp_all
  have sv: "sign_val sg hs * hour = ?h \<or> sign_val sg hs * hour = - ?h" by (simp add: sign_val_def)
  have plus: "sign_val [] ds = int (dec_val ds)" for ds by (simp add: sign_val_def)
  note bounds = nn sv assms(7)
  have 1: "adjustDuration 0 (sg @ hs) hour = Inr (0 + sign_val sg hs * hour)"
    using bounds by (intro adjustDuration_text assms) linarith+
  have 2: "adjustDuration (sign_val sg hs * hour) ms minute = Inr (sign_val sg hs * hour + ?m)"
    using adjustDuration_text[OF assms(2), of "[]" minute "sign_val sg hs * hour"] bounds unfolding plus by fastforce
  have 3: "adjustDuration (sign_val sg hs * hour + ?m) ss second = Inr (sign_val sg hs * hour + ?m + ?s)"
    using adjustDuration_text[OF assms(3), of "[]" second "sign_val sg hs * hour + ?m"] bounds unfolding plus by fastforce
  have 4: "adjustDuration (sign_val sg hs * hour + ?m + ?s) fs ?u = Inr (sign_val sg hs * hour + ?m + ?s + ?f)"
    using adjustDuration_text[OF assms(4), of "[]" ?u "sign_val sg hs * hour + ?m + ?s"] u bounds unfolding plus by fastforce
  have "adjustDuration 0 [] scale = Inr 0" for scale by (simp add: adjustDuration_def)
  with 1 2 3 4 assms(4,5) show ?thesis
    by (simp add: ParsePostgreSQLInterval_def pgIntervalRegexp_time[OF assms(1-4,6)] numeral_text_def)
qed

theorem pg_time_read_witness:
  "ParsePostgreSQLInterval ''-00:00:30.5'' = Inr (30 * second + 500000000)"
  using pg_time_read[of "''00''" "''00''" "''30''" "''5''" "''-''"]
  by (simp add: numeral_text_def is_digit_def dec_val_def digit_val_def sign_val_def)

end
