(* ===== verification/Spec2Isabelle.thy ===== *)
theory Spec2Isabelle
  imports StreamingPull PushService SwaggerUi Faults Notifier Migrations Interval
begin

text \<open>
  A verification of mmmbbb, a message bus with the interface of Google Cloud Pub/Sub that keeps its
  state in a relational database.

  \<^bold>\<open>The program.\<close> Publishers and subscribers talk gRPC (\<open>services/grpc-publisher.go\<close>,
  \<open>services/grpc-subscriber.go\<close>, \<open>services/grpc-snapshots.go\<close>). A handler checks its request and runs an
  action (\<open>actions/\<close>) in a transaction (\<open>ent/client-addons.go\<close>, \<open>ent/tx.go\<close>). Actions read and write
  five tables (\<open>ent/schema/message-bus.go\<close>): topics, subscriptions, messages, deliveries (one per
  message and subscription) and snapshots. Committed transactions wake waiting readers in the same
  process (\<open>actions/notify.go\<close>) and, over the notifications of PostgreSQL, in the other processes of a
  deployment (\<open>services/notifier.go\<close>). Scripts bring the schema up to date at start-up (\<open>migrate/\<close>,
  \<open>db/migrate.go\<close>). Messages reach clients by \<open>Pull\<close>, or by a streamer of several
  goroutines (\<open>actions/message-streamer.go\<close>) behind a \<open>StreamingPull\<close> call or an HTTP endpoint
  (\<open>actions/http-push-streamer.go\<close>, \<open>services/http-push.go\<close>). Background services prune old rows and
  move exhausted deliveries to dead-letter topics. The JavaScript and TypeScript of the repository
  are the page script of the API browser and two programs that test the bus through Google's client
  (\<open>internal/swagger-ui/ui\<close>, \<open>internal/ts-compat/src\<close>).

  \<^bold>\<open>How it is modelled.\<close> A structure of the code is a record with its fields, an action or handler
  one function with all of its branches, and an error or panic a value of the type of errors. The
  database is a record of lists of rows, in the order of insertion; statements are functions on
  it that check the constraints of the schema (\<open>Store\<close>). A \<open>world\<close> is a database with the tables of
  the waiting readers. What the code draws from outside is an argument: identifiers, instants, the
  answers of the SQL driver at begin, commit and rollback, which rows other transactions have
  locked, and what these do between two transactions of a call. Payloads are JSON texts; a payload
  that is not JSON fails in the driver and is not considered. Durations and instants are unbounded
  integers of nanoseconds. Reading and printing an identifier and parsing a filter are third-party
  code and arguments.

  \<^bold>\<open>Theories, from the bottom up.\<close>
  \<^item> \<open>Prelude\<close>: types, errors, row operations, list lemmas. \<open>Store\<close>: the tables, the statements and
    the invariant \<open>wf_db\<close>; the locale \<open>soft_deletable\<close> has what topics and subscriptions share.
    \<open>Sample\<close>: a small database for concrete runs.
  \<^item> \<open>Notify\<close>: the tables of waiters as a transition system; nothing is closed twice, a publish wakes
    its readers, and where the wake-up loop stops early. \<open>Tx\<close>: transactions are atomic, for the rows
    and for the notifications; the locale \<open>db_action\<close> is the contract of an action, from which
    follows that it keeps the invariant in a transaction and under retries. Every action
    interprets it.
  \<^item> \<open>MessageFilter\<close>, \<open>Uuid\<close>, \<open>Backoff\<close>: evaluation and printing of filters, the order of
    identifiers, and the retry delay in double precision arithmetic with its checksum.
  \<^item> \<open>Topics\<close>, \<open>Subscriptions\<close>, \<open>Publish\<close>, \<open>DeadLetter\<close>, \<open>Acks\<close>, \<open>GetMessages\<close>, \<open>Seek\<close>, \<open>Prune\<close>,
    \<open>BackgroundServices\<close>: the actions and the services that repeat them. The theorems say what rows
    each leaves on every branch; the locale \<open>pruner\<close> has the contract of the pruning actions.
  \<^item> \<open>Bus\<close>: all actions as one transition system, its invariant, and its refinement of a queue per
    subscription.
  \<^item> \<open>GrpcCommon\<close>, \<open>GrpcPublisher\<close>, \<open>GrpcSubscriber\<close>: the handlers with names, status codes and
    retries. The locale \<open>paged_listing\<close> is the contract of a listing call; following its page tokens
    gives every row once.
  \<^item> \<open>Streamer\<close>: the goroutines of a stream, each as a program counter, in any interleaving; no
    wake-up is lost. The locale \<open>stream_connection\<close> is what it relies on in a connection, and from it
    follows that flow control is respected. \<open>StreamingPull\<close> and \<open>HttpPush\<close> interpret it for a gRPC
    stream and for an HTTP endpoint, which also reports every delivery once; \<open>PushService\<close> keeps
    the pushers.
  \<^item> \<open>JsRuntime\<close>, \<open>SwaggerUi\<close>, \<open>TsStress\<close>, \<open>TsSmoke\<close>: objects, promises and timers as the scripts use
    them, the page script with the configuration the server gives it, and the two test programs as
    event-driven programs against a client that may do anything. \<open>GrpcPublisher\<close> shows that the code
    which the smoke test ignores is the one the server gives for an existing topic.
  \<^item> \<open>Faults\<close>: the set of injected faults (\<open>faults/\<close>), which runs a fault as often as it was asked for
    however the calls interleave.
  \<^item> \<open>Notifier\<close>: the notification service as two transition systems, the collector that issues
    notifications and the listener that wakes readers and connects again; a publish stays queued until it
    is issued, and a connection that comes back wakes everyone who may have missed one.
  \<^item> \<open>Migrations\<close>: the scripts found in a file system, their order, and the transactions that run them;
    the table and the schema never disagree, and a second start changes nothing. Migrating down fails.
  \<^item> \<open>Interval\<close>: the columns that hold durations (\<open>internal/sqltypes/interval.go\<close>), with printing and
    reading of the \<open>time\<close> package at 64 bits and in double precision; what is written is read back.
    PostgreSQL's own notation is read exactly up to its sign.
  \<^item> This theory: everything together, in any order.

  \<^bold>\<open>Loops.\<close> Loops over rows are structural recursion. A loop against the environment takes the list of
  what the environment does, one item per iteration: the rounds of a waiting pull, the attempts of
  a retried transaction, the ticks of a service. It has no result when the list ends first; that
  it returns, given enough items, is a theorem where the code promises it. Following page tokens
  has as fuel the number of rows plus one, which suffices since every page but the last has a row.

  \<^bold>\<open>Not modelled.\<close> The generated database client and protocol code (the model has the statements and
  messages they stand for); the opening of database connections; the reading of injected faults from HTTP, and of the calls they apply to; health,
  wiring of the HTTP and gRPC servers; logging and metrics; the minified bundle of the API browser. They
  are configuration of libraries, input and output, third-party code, or code that tests use.
\<close>

subsection \<open>The service as a whole\<close>

text \<open>
  The calls of the two gRPC services that change something, with the background services, the
  readers, and the steps of the streams of \<open>StreamingPull\<close> calls and HTTP pushers. What other transactions do between the attempts of a call keeps the world well formed.
\<close>

definition calm :: "(driver \<times> (world \<Rightarrow> world)) list \<Rightarrow> bool" where
  "calm attempts \<longleftrightarrow> (\<forall>a\<in>set attempts. \<forall>v. wf_world v \<longrightarrow> wf_world (snd a v))"

definition calm_rounds :: "round list \<Rightarrow> bool" where
  "calm_rounds rds \<longleftrightarrow> (\<forall>rd\<in>set rds. calm_tries (rdTries rd) \<and> calm_tries (rdFinal rd))"

inductive service_step :: "world \<Rightarrow> world \<Rightarrow> bool" where
  bus: "bus_step w w' \<Longrightarrow> service_step w w'"
| create_topic: "service_step w (snd (CreateTopic drv i now t w))"
| update_topic: "service_step w (snd (UpdateTopic drv t paths w))"
| delete_topic: "service_step w (snd (DeleteTopic drv now n w))"
| publish: "service_step w (snd (Publish parse show_uuid drv mid newID nows n ms w))"
| create_subscription: "service_step w (snd (CreateSubscription parse drv i now c s w))"
| update_subscription: "service_step w (snd (UpdateSubscription parse drv nows s paths w))"
| delete_subscription: "service_step w (snd (DeleteSubscription drv now n w))"
| modify_push_config: "service_step w (snd (ModifyPushConfig drv n cfg w))"
| modify_ack_deadline: "calm attempts \<Longrightarrow> ModifyAckDeadline parse_uuid now attempts n ackIds secs w = Some (r, w') \<Longrightarrow> service_step w w'"
| acknowledge: "calm attempts \<Longrightarrow> Acknowledge parse_uuid now attempts n ackIds w = Some (r, w') \<Longrightarrow> service_step w w'"
| pull: "calm_tries tries \<Longrightarrow> calm_rounds rds \<Longrightarrow> Pull parse show_uuid tries rds n k imm w = Some (rs, w') \<Longrightarrow>
    service_step w w'"
| seek: "calm attempts \<Longrightarrow> SeekSubscription now attempts n target w = Some (r, w') \<Longrightarrow> service_step w w'"
| create_snapshot: "service_step w (snd (CreateSnapshot drv i now n sub labels w))"
| delete_snapshot: "service_step w (snd (DeleteSnapshot failure n w))"
| stream: "stream_step parse subID subName req s s' \<Longrightarrow> \<forall>w. s' \<noteq> s\<lparr>msWorld := w\<rparr> \<Longrightarrow> service_step (msWorld s) (msWorld s')"

lemma wf_publishEach: "wf_db db \<Longrightarrow> publishEach parse mid newID nows t k ms db = Inr (r, ns, db') \<Longrightarrow> wf_db db'"
proof (induction ms arbitrary: k db r ns)
  case (Cons m ms)
  then show ?case by (auto simp: on_error_Inr elim!: bind_res_InrE dest: wf_PublishMessage)
qed simp

lemma wf_topic_calls:
  assumes "wf_world w"
  shows "wf_world (snd (CreateTopic drv i now t w))" and "wf_world (snd (UpdateTopic drv t paths w))"
    and "wf_world (snd (DeleteTopic drv now n w))"
    and "wf_world (snd (Publish parse show_uuid drv mid newID nows n ms w))"
proof -
  have wf: "wf_db (wDb w)" using assms by (rule wf_worldD)
  show "wf_world (snd (CreateTopic drv i now t w))"
    by (auto simp: CreateTopic_def assms split: sum.split intro!: wf_DoTx[OF assms] wf_CreateTopic[OF wf])
  show "wf_world (snd (DeleteTopic drv now n w))"
    by (auto simp: DeleteTopic_def assms intro!: wf_DoTx[OF assms] wf_DeleteTopic[OF wf])
  show "wf_world (snd (UpdateTopic drv t paths w))"
    by (auto simp: UpdateTopic_def assms on_error_Inr Let_def wf keeps_topic_def elim!: bind_res_InrE
        split: option.split_asm intro!: wf_DoTx[OF assms] dest!: wf_update_topics[OF wf])
  show "wf_world (snd (Publish parse show_uuid drv mid newID nows n ms w))"
    by (auto simp: Publish_def assms elim!: bind_res_InrE intro!: wf_DoTx[OF assms] dest: wf_publishEach[OF wf])
qed

lemma wf_subscription_calls:
  assumes "wf_world w"
  shows "wf_world (snd (UpdateSubscription parse drv nows s paths w))"
    and "wf_world (snd (DeleteSubscription drv now n w))"
    and "wf_world (snd (ModifyPushConfig drv n cfg w))"
proof -
  have wf: "wf_db (wDb w)" using assms by (rule wf_worldD)
  have keeps: "keeps_subscription f" if "sub_updates parse (wDb w) s nows 0 paths id dl = Inr (f, dl')" for f dl dl'
    using sub_updates_good[OF wf, of dl id dl] that good_update_columns[of id]
    by (simp add: res_all_def good_update_def)
  show "wf_world (snd (UpdateSubscription parse drv nows s paths w))"
    by (auto simp: UpdateSubscription_def assms on_error_Inr Let_def wf elim!: bind_res_InrE
        split: option.split_asm if_split_asm intro!: wf_DoTx[OF assms] dest!: wf_update_subscriptions[OF wf]) (rule keeps, assumption)+
  show "wf_world (snd (DeleteSubscription drv now n w))"
    by (auto simp: DeleteSubscription_def assms intro!: wf_DoTx[OF assms] wf_DeleteSubscription[OF wf])
  show "wf_world (snd (ModifyPushConfig drv n cfg w))"
    by (auto simp: ModifyPushConfig_def assms on_error_Inr keeps_subscription_def applyPushConfig_def elim!: bind_res_InrE
        split: sum.split intro!: wf_DoTx[OF assms] dest!: wf_update_subscriptions[OF wf])
qed

lemma retry_calls:
  assumes "wf_world w" and "calm attempts"
  shows "ModifyAckDeadline parse_uuid now attempts n ackIds secs w = Some (r, w') \<Longrightarrow> wf_world w'"
    and "Acknowledge parse_uuid now attempts n ackIds w = Some (r, w') \<Longrightarrow> wf_world w'"
    and "SeekSubscription now attempts n target w = Some (r, w') \<Longrightarrow> wf_world w'"
proof -
  have others: "\<And>a v. a \<in> set attempts \<Longrightarrow> wf_world v \<Longrightarrow> wf_world (snd a v)" using assms(2) by (simp add: calm_def)
  have delay: "wf_world v" if "DoCtxTxRetry retry_deadlocks (DelayDeliveries_Execute now ids d) attempts w = Some (x, v)" for ids d x v
    using delay_deliveries.DoCtxTxRetry_wf[where p = "(now, ids, d)", OF _ assms(1) others] that by simp
  have ack: "wf_world v" if "DoCtxTxRetry retry_deadlocks (AckDeliveries_Execute now ids) attempts w = Some (x, v)" for ids x v
    using ack_deliveries.DoCtxTxRetry_wf[where p = "(now, ids)", OF _ assms(1) others] that by simp
  have seek: "wf_world v" if "DoCtxTxRetry retry_deadlocks (SeekSubscriptionToTime_Execute now i m t) attempts w = Some (x, v)" for i m t x v
    using seek_to_time.DoCtxTxRetry_wf[where p = "(now, i, m, t)", OF _ assms(1) others] that by simp
  have snap: "wf_world v"
    if "DoCtxTxRetry retry_deadlocks (SeekSubscriptionToSnapshot_Execute now i m si sn) attempts w = Some (x, v)" for i m si sn x v
    using seek_to_snapshot.DoCtxTxRetry_wf[where p = "(now, i, m, si, sn)", OF _ assms(1) others] that by simp
  show "ModifyAckDeadline parse_uuid now attempts n ackIds secs w = Some (r, w') \<Longrightarrow> wf_world w'"
    using assms(1) by (auto simp: ModifyAckDeadline_def split: if_split_asm sum.split_asm dest: delay)
  show "Acknowledge parse_uuid now attempts n ackIds w = Some (r, w') \<Longrightarrow> wf_world w'"
    using assms(1) by (auto simp: Acknowledge_def split: if_split_asm sum.split_asm dest: ack)
  show "SeekSubscription now attempts n target w = Some (r, w') \<Longrightarrow> wf_world w'"
    using assms(1)
    by (auto simp: SeekSubscription_def split: if_split_asm sum.split_asm seekTarget.split_asm prod.split_asm dest: seek snap)
qed

lemma pull_call:
  assumes "wf_world w" and "calm_tries tries" and "calm_rounds rds" and "Pull parse show_uuid tries rds n k imm w = Some (rs, w')"
  shows "wf_world w'"
proof -
  have start: "wf_world (snd (DoTx drv (get_start now p) v))" if "wf_world v" for drv now p v
    using get_start.DoTx_wf[where p = "(now, p)" and w = v and drv = drv] that by simp
  have "wf_world v" if e: "ExecuteClient parse p tries rds w = Some (x, v)" for p x v
  proof -
    obtain q o' w1 where run: "runTx (\<lambda>p now. get_start now p) bound_params p tries w = Some (q, o', w1)"
      using e by (auto simp: ExecuteClient_def split: option.split_asm)
    have "wf_world w1"
      by (rule runTx_wf[where act = "\<lambda>p now. get_start now p", OF start assms(1,2) run])
    with run e show ?thesis
      by (auto simp: ExecuteClient_def split: sum.split_asm option.split_asm
          dest: get_loop_wf[OF _ assms(3)[unfolded calm_rounds_def]])
  qed
  then show ?thesis using assms(1,4) by (auto simp: Pull_def split: if_split_asm sum.split_asm)
qed

lemma snapshot_calls:
  assumes "wf_world w"
  shows "wf_world (snd (CreateSnapshot drv i now n sub labels w))" and "wf_world (snd (DeleteSnapshot failure n w))"
proof -
  have wf: "wf_db (wDb w)" using assms by (rule wf_worldD)
  show "wf_world (snd (CreateSnapshot drv i now n sub labels w))"
    by (auto simp: CreateSnapshot_def assms split: sum.split intro!: wf_DoTx[OF assms] wf_CreateSnapshot[OF wf])
  show "wf_world (snd (DeleteSnapshot failure n w))"
    using assms by (auto simp: DeleteSnapshot_def wf_world_def wf_delete_snapshots split: option.split)
qed

lemma stream_acks_wf: "wf_world w \<Longrightarrow> wf_world (snd (DoTx drv (doAcksNacks parse newID now now' acks nacks) w))"
  by (rule wf_DoTx) (auto simp: doAcksNacks_def dest: wf_worldD elim!: bind_res_InrE intro: wf_AckDeliveries wf_NackDeliveries)

text \<open>The transactions of a stream are actions of the bus, except that it acknowledges and refuses in one.\<close>

lemma stream_step_world:
  assumes "stream_step parse subID subName req s s'" and "\<forall>w. s' \<noteq> s\<lparr>msWorld := w\<rparr>"
  shows "msWorld s' = msWorld s \<or> (\<exists>drv. bus_action drv (msWorld s) (msWorld s')) \<or>
    (\<exists>drv newID now now' acks nacks. msWorld s' = snd (DoTx drv (doAcksNacks parse newID now now' acks nacks) (msWorld s)))"
  using assms(1)
proof (cases rule: stream_step.cases)
  case (fetch p drv now p' w)
  then show ?thesis using bus_action.get_start[of drv "msWorld s" now p] by auto
next
  case (fetch_retry p drv now e w)
  then show ?thesis using bus_action.get_start[of drv "msWorld s" now p] by auto
next
  case (fetch_error p drv now e w)
  then show ?thesis using bus_action.get_start[of drv "msWorld s" now p] by auto
next
  case (got p old drv ps sub r w)
  then show ?thesis using bus_action.get_pass[of drv "msWorld s" parse ps p] by (auto simp: sender_got_def)
next
  case (got_left p r drv ps sub t w)
  then show ?thesis using bus_action.get_pass[of drv "msWorld s" parse ps p] by (auto simp: sender_got_def)
next
  case (nothing p drv ps sub t w)
  then show ?thesis using bus_action.get_pass[of drv "msWorld s" parse ps p] by auto
next
  case (poll_retry p old drv ps e w)
  then show ?thesis using bus_action.get_pass[of drv "msWorld s" parse ps p] by auto
next
  case (poll_error p old drv ps e w)
  then show ?thesis using bus_action.get_pass[of drv "msWorld s" parse ps p] by auto
next
  case (close p sub drv newID now r w)
  then show ?thesis using bus_action.get_final[of drv "msWorld s" parse newID id p sub now "[]"] by (auto simp: sender_got_def get_close_def)
next
  case (close_retry p sub drv newID now e w)
  then show ?thesis using bus_action.get_final[of drv "msWorld s" parse newID id p sub now "[]"] by (auto simp: get_close_def)
next
  case (close_error p sub drv newID now e w)
  then show ?thesis using bus_action.get_final[of drv "msWorld s" parse newID id p sub now "[]"] by (auto simp: get_close_def)
next
  case (acks m drv newID now now' w)
  then have "msWorld s' = snd (DoTx drv (doAcksNacks parse newID now now' (mrAck m) (mrNack m)) (msWorld s))" by simp
  then show ?thesis by blast
next
  case (acks_error m drv newID now now' e w)
  then have "msWorld s' = snd (DoTx drv (doAcksNacks parse newID now now' (mrAck m) (mrNack m)) (msWorld s))" by simp
  then show ?thesis by blast
next
  case (delay m drv now r w)
  then show ?thesis using bus_action.delay[of drv "msWorld s" now "mrDelay m" "mrDelaySeconds m * second"] by auto
next
  case (delay_error m drv now e w)
  then show ?thesis using bus_action.delay[of drv "msWorld s" now "mrDelay m" "mrDelaySeconds m * second"] by auto
next
  case (renew now ids drv now' r w)
  then show ?thesis using bus_action.delay[of drv "msWorld s" now' ids "msDelayAmount s"] by auto
next
  case (renew_error now ids drv now' e w)
  then show ?thesis using bus_action.delay[of drv "msWorld s" now' ids "msDelayAmount s"] by auto
qed (use assms(2) in \<open>auto simp: sender_lock_def sender_record_def reader_flow_def reader_forget_def refresher_update_def
    renewer_init_def renewer_tick_def renewer_update_def Let_def split: option.split\<close>)

lemma stream_step_wf:
  assumes "stream_step parse subID subName req s s'" and "\<forall>w. s' \<noteq> s\<lparr>msWorld := w\<rparr>" and "wf_world (msWorld s)"
  shows "wf_world (msWorld s')"
  using stream_step_world[OF assms(1,2)] assms(3) bus_action_wf stream_acks_wf by metis

lemma service_step_wf: "service_step w w' \<Longrightarrow> wf_world w \<Longrightarrow> wf_world w'"
  by (induction rule: service_step.induct)
    (auto intro: bus_step_wf wf_topic_calls wf_subscription_calls wf_CreateSubscription_handler snapshot_calls
      dest: retry_calls pull_call stream_step_wf)

lemma service_reachable_wf: "service_step\<^sup>*\<^sup>* initial_world w \<Longrightarrow> wf_world w"
  by (induction rule: rtranclp_induct) (auto intro: service_step_wf wf_initial_world)

lemma GetTopic_cases:
  assumes "wf_db (wDb w)" and "drv_ok drv"
  shows "case GetTopic drv n w of
      (Inl e, w') \<Rightarrow> w' = w \<and> status_of e = Some (if isValidTopicName n then NotFound else InvalidArgument)
    | (Inr t, w') \<Rightarrow> w' = w \<and> ptName t = n"
proof (cases "live_topics n (wDb w)")
  case Nil
  then show ?thesis
    using assms(2) by (simp add: GetTopic_def DoTx_def drv_ok_def finish_error_def on_error_def or_status_def isNotFound_def
        topic_not_found_def bad_topic_path_def)
next
  case (Cons t ts)
  with live_topics_le_1[OF assms(1), of n] have live: "live_topics n (wDb w) = [t]" by simp
  then show ?thesis
    using GetTopic_live[OF assms(2) _ live] live_topicsD(2)[OF live]
    by (cases "isValidTopicName n") (simp_all add: entTopicToGrpc_def, simp add: GetTopic_def bad_topic_path_def)
qed

lemma GetSubscription_cases:
  assumes "wf_db (wDb w)" and "drv_ok drv"
  shows "case GetSubscription drv n w of
      (Inl e, w') \<Rightarrow> w' = w \<and> status_of e = Some (if isValidSubscriptionName n then NotFound else InvalidArgument)
    | (Inr s, w') \<Rightarrow> w' = w \<and> pbsName s = n"
proof (cases "live_subs n (wDb w)")
  case Nil
  then show ?thesis
    using assms(2) by (simp add: GetSubscription_def DoTx_def drv_ok_def finish_error_def on_error_def or_status_def isNotFound_def
        subscription_not_found_def bad_subscription_path_def)
next
  case (Cons s ss)
  with live_subs_le_1[OF assms(1), of n] have live: "live_subs n (wDb w) = [s]" by simp
  then show ?thesis
    using GetSubscription_live[OF assms(2) _ live] live_subsD(2)[OF live]
    by (cases "isValidSubscriptionName n")
      (simp_all add: with_edges_def entSubscriptionToGrpc_def, simp add: GetSubscription_def bad_subscription_path_def)
qed

text \<open>
  Property C1. In every state that the service can reach from an empty database, whatever calls,
  streams, background services and readers ran, in whatever order, with whatever arguments and whatever
  failures of the database: a row is marked deleted exactly when it is not live, every
  subscription, message, delivery and snapshot refers to rows that exist, no waiter's channel was
  closed twice, and looking up a topic or a subscription by name changes nothing and gives the one
  of that name, or \<open>NotFound\<close>, or \<open>InvalidArgument\<close>, never an internal error.
\<close>

theorem service_invariant:
  assumes "service_step\<^sup>*\<^sup>* initial_world w" and "drv_ok drv"
  shows "(\<forall>t\<in>set (topics (wDb w)). live_consistent (tLive t) (tDeletedAt t)) \<and>
    (\<forall>s\<in>set (subscriptions (wDb w)). live_consistent (sLive s) (sDeletedAt s) \<and>
       sTopicID s \<in> topic_ids (wDb w) \<and> opt_in (sDeadLetterTopicID s) (topic_ids (wDb w))) \<and>
    (\<forall>m\<in>set (messages (wDb w)). mTopicID m \<in> topic_ids (wDb w)) \<and>
    (\<forall>d\<in>set (deliveries (wDb w)). dMessageID d \<in> message_ids (wDb w) \<and> dSubscriptionID d \<in> sub_ids (wDb w) \<and>
       opt_in (dNotBeforeID d) (delivery_ids (wDb w))) \<and>
    (\<forall>x\<in>set (snapshots (wDb w)). nTopicID x \<in> topic_ids (wDb w)) \<and>
    wf_notify (wNotify w) \<and>
    (case GetTopic drv n w of
       (Inl e, w') \<Rightarrow> w' = w \<and> status_of e = Some (if isValidTopicName n then NotFound else InvalidArgument)
     | (Inr t, w') \<Rightarrow> w' = w \<and> ptName t = n) \<and>
    (case GetSubscription drv n w of
       (Inl e, w') \<Rightarrow> w' = w \<and> status_of e = Some (if isValidSubscriptionName n then NotFound else InvalidArgument)
     | (Inr s, w') \<Rightarrow> w' = w \<and> pbsName s = n)"
proof -
  have wf: "wf_db (wDb w)" and nt: "wf_notify (wNotify w)"
    using service_reachable_wf[OF assms(1)] by (auto simp: wf_world_def)
  have live: "\<forall>t\<in>set (topics (wDb w)). live_consistent (tLive t) (tDeletedAt t)"
    "\<forall>s\<in>set (subscriptions (wDb w)). live_consistent (sLive s) (sDeletedAt s)"
    using wf_db_live(2,4)[OF wf] by (simp_all add: all_consistent_def list_all_iff)
  have refs: "\<forall>s\<in>set (subscriptions (wDb w)). sTopicID s \<in> topic_ids (wDb w) \<and> opt_in (sDeadLetterTopicID s) (topic_ids (wDb w))"
    "\<forall>m\<in>set (messages (wDb w)). mTopicID m \<in> topic_ids (wDb w)"
    "\<forall>d\<in>set (deliveries (wDb w)). dMessageID d \<in> message_ids (wDb w) \<and> dSubscriptionID d \<in> sub_ids (wDb w) \<and>
       opt_in (dNotBeforeID d) (delivery_ids (wDb w))"
    "\<forall>x\<in>set (snapshots (wDb w)). nTopicID x \<in> topic_ids (wDb w)"
    using wf by (auto simp: wf_db_def list_all_iff sub_refs_def delivery_refs_def)
  show ?thesis
    using live(1) ball_conj_distrib live(2) refs nt GetTopic_cases[OF wf assms(2), of n] GetSubscription_cases[OF wf assms(2), of n]
    by (intro conjI) (simp_all only:, blast)
qed

theorem service_invariant_witness:
  "\<exists>w t. service_step\<^sup>*\<^sup>* initial_world w \<and> GetTopic good_driver ''projects/p/topics/a'' w = (Inr t, w) \<and>
     ptName t = ''projects/p/topics/a''"
proof -
  have none: "live_topics (ptName sample_pb_topic) (wDb initial_world) = []" and i: "7 \<notin> topic_ids (wDb initial_world)"
    by (simp_all add: initial_world_def empty_db_def live_topics_def topic_ids_def)
  have v: "isValidTopicName (ptName sample_pb_topic)" by (simp add: sample_pb_topic_def sample_valid)
  obtain w where w: "CreateTopic good_driver 7 5 sample_pb_topic initial_world = (Inr sample_pb_topic, w)"
      and ts: "topics (wDb w) = topics (wDb initial_world) @ [\<lparr>tID = 7, tName = ptName sample_pb_topic, tCreatedAt = 5,
        tLive = Some True, tDeletedAt = None, tLabels = ptLabels sample_pb_topic\<rparr>]"
    using CreateTopic_new[OF drv_ok_good v none _ wf_worldD[OF wf_initial_world] i] by (auto simp: sample_pb_topic_def)
  have step: "service_step\<^sup>*\<^sup>* initial_world w"
    using service_step.create_topic[of initial_world good_driver 7 5 sample_pb_topic] w by simp
  have live: "live_topics ''projects/p/topics/a'' (wDb w) = [\<lparr>tID = 7, tName = ptName sample_pb_topic, tCreatedAt = 5,
        tLive = Some True, tDeletedAt = None, tLabels = ptLabels sample_pb_topic\<rparr>]"
    using none ts by (simp add: live_topics_def sample_pb_topic_def)
  obtain t where "GetTopic good_driver ''projects/p/topics/a'' w = (Inr t, w)"
    using GetTopic_live[OF drv_ok_good sample_valid live] by blast
  with step service_invariant[OF step drv_ok_good, of "''projects/p/topics/a''"] show ?thesis by auto
qed

end
